(* ===== verification/Prelude.thy ===== *)
theory Prelude
  imports Main "HOL-Library.Word" "HOL-Library.Multiset"
begin

text \<open>
  Shared vocabulary of the development: the fixed-width integer types of the C++ code, the
  truncating division of C++ on signed integers, the bit-level facts on little-endian fields and
  on conversions between widths, list facts for arrays updated in place, and the half-open binary
  search that two components of the firmware run, with the contract its clients rely on.
\<close>

unbundle bit_operations_syntax

section \<open>Machine integers\<close>

type_synonym u8 = "8 word"
type_synonym u16 = "16 word"
type_synonym u32 = "32 word"

text \<open>Facts that turn word arithmetic into arithmetic on natural numbers.\<close>

named_theorems word_nat

lemma unat_u8_lt [simp]: "unat (w :: u8) < 256"
  using unsigned_less [of w] by simp

lemma unat_u16_lt [simp]: "unat (w :: u16) < 65536"
  using unsigned_less [of w] by simp

lemma unat_u32_lt [simp]: "unat (w :: u32) < 4294967296"
  using unsigned_less [of w] by simp

lemma unat_u8_le [simp]: "unat (w :: u8) \<le> 255"
  using unat_u8_lt [of w] by linarith

lemma unat_u16_le [simp]: "unat (w :: u16) \<le> 65535"
  using unat_u16_lt [of w] by linarith

lemma uint_u16_lt: "uint (w :: u16) < 65536"
  using unsigned_less [of w, where 'a = int] by simp

lemma unat_u8_u16 [word_nat]: "unat (ucast (w :: u8) :: u16) = unat w"
  using unat_u8_lt [of w] by (simp add: unsigned_ucast_eq take_bit_eq_mod del: unat_u8_lt)

lemma unat_u8_u32 [word_nat]: "unat (ucast (w :: u8) :: u32) = unat w"
  using unat_u8_lt [of w] by (simp add: unsigned_ucast_eq take_bit_eq_mod del: unat_u8_lt)

lemma unat_u16_u32 [word_nat]: "unat (ucast (w :: u16) :: u32) = unat w"
  using unat_u16_lt [of w] by (simp add: unsigned_ucast_eq take_bit_eq_mod del: unat_u16_lt)

lemma unat_u32_u8 [word_nat]: "unat (ucast (w :: u32) :: u8) = unat w mod 256"
  by (simp add: unsigned_ucast_eq take_bit_eq_mod)

lemma unat_u32_u16 [word_nat]: "unat (ucast (w :: u32) :: u16) = unat w mod 65536"
  by (simp add: unsigned_ucast_eq take_bit_eq_mod)

lemma unat_add_u32: "unat a + unat b < 2 ^ 32 \<Longrightarrow> unat (a + b :: u32) = unat a + unat b"
  by (simp add: unat_word_ariths)

lemma unat_mult_u32: "unat a * unat b < 2 ^ 32 \<Longrightarrow> unat (a * b :: u32) = unat a * unat b"
  by (simp add: unat_word_ariths)

lemma unat_diff_u32: "unat b \<le> unat a \<Longrightarrow> unat (a - b :: u32) = unat a - unat b"
  by (simp add: unat_sub word_le_nat_alt)

lemma u8_eq_iff: "a = b \<longleftrightarrow> unat a = unat (b :: u8)"
  by (rule word_unat_eq_iff)

text \<open>
  Signed division of C++ rounds toward zero, Isabelle's rounds down.
\<close>

definition cdiv :: "int \<Rightarrow> int \<Rightarrow> int" where
  "cdiv a b = sgn a * sgn b * (\<bar>a\<bar> div \<bar>b\<bar>)"

lemma cdiv_nonneg: "0 \<le> a \<Longrightarrow> 0 < b \<Longrightarrow> cdiv a b = a div b"
  by (cases "a = 0") (simp_all add: cdiv_def)

lemma cdiv_neg: "a < 0 \<Longrightarrow> 0 < b \<Longrightarrow> cdiv a b = - (- a div b)"
  by (simp add: cdiv_def)

lemma cdiv_bounds:
  assumes "0 < b" and "\<bar>a\<bar> \<le> k * b"
  shows "\<bar>cdiv a b\<bar> \<le> k"
proof -
  from assms have "\<bar>a\<bar> div b \<le> k"
    using zdiv_mono1 [of "\<bar>a\<bar>" "k * b" b] by simp
  then show ?thesis
    using assms(1) by (cases "0 \<le> a") (simp_all add: cdiv_nonneg cdiv_neg pos_imp_zdiv_nonneg_iff)
qed

section \<open>Half-open binary search\<close>

text \<open>
  The loop \<^verbatim>\<open>while (low < high) { middle = low + (high - low) / 2; ... }\<close> that
  \<^verbatim>\<open>CubeRootQ16\<close> and \<^verbatim>\<open>EncodeSrgbQ13\<close> (src/app/controller/oklab.cpp) both run;
  \<open>below\<close> is the comparison of the loop body.
\<close>

function bsearch :: "(nat \<Rightarrow> bool) \<Rightarrow> nat \<Rightarrow> nat \<Rightarrow> nat" where
  "bsearch below low high =
     (if low < high
      then let middle = low + (high - low) div 2
           in if below middle then bsearch below (middle + 1) high
              else bsearch below low middle
      else low)"
  by pat_completeness auto
termination
  by (relation "measure (\<lambda>(below, low, high). high - low)") auto

declare bsearch.simps [simp del]

text \<open>
  What a client of the search supplies: the comparison is true on an initial part of the
  indexes below the bound and false on the rest. What it gets: the result separates the two parts.
\<close>

locale monotone_search =
  fixes below :: "nat \<Rightarrow> bool"
    and bound :: nat
  assumes below_down: "m \<le> n \<Longrightarrow> n < bound \<Longrightarrow> below n \<Longrightarrow> below m"
begin

lemma bsearch_range: "low \<le> high \<Longrightarrow> bsearch below low high \<in> {low..high}"
proof (induction below low high rule: bsearch.induct)
  case (1 below low high)
  then show ?case
    by (subst bsearch.simps) (fastforce simp: Let_def)
qed

lemma bsearch_below:
  "high \<le> bound \<Longrightarrow> low \<le> m \<Longrightarrow> m < bsearch below low high \<Longrightarrow> below m"
proof (induction "high - low" arbitrary: low high rule: less_induct)
  case less
  let ?mid = "low + (high - low) div 2"
  from less.prems(2,3) have lt: "low < high"
    by (subst (asm) bsearch.simps) (simp split: if_splits)
  then have mid: "?mid < high" and dec: "high - (?mid + 1) < high - low" "?mid - low < high - low"
    by linarith+
  show ?case
  proof (cases "below ?mid")
    case True
    show ?thesis
    proof (cases "m \<le> ?mid")
      case True
      with \<open>below ?mid\<close> mid less.prems(1) show ?thesis by (blast intro: below_down less_le_trans)
    next
      case False
      with True lt less.prems mid show ?thesis
        by (intro less.hyps [OF dec(1)]) (simp_all add: bsearch.simps [of below low high] Let_def)
    qed
  next
    case False
    with lt less.prems mid show ?thesis
      by (intro less.hyps [OF dec(2)]) (simp_all add: bsearch.simps [of below low high] Let_def)
  qed
qed

lemma bsearch_not_below:
  "high \<le> bound \<Longrightarrow> low \<le> high \<Longrightarrow> bsearch below low high \<le> m \<Longrightarrow> m < high \<Longrightarrow> \<not> below m"
proof (induction "high - low" arbitrary: low high rule: less_induct)
  case less
  let ?mid = "low + (high - low) div 2"
  show ?case
  proof (cases "low < high")
    case False
    then have "bsearch below low high = low" by (subst bsearch.simps) simp
    with False less.prems show ?thesis by linarith
  next
    case lt: True
    then have mid: "?mid < high" and dec: "high - (?mid + 1) < high - low" "?mid - low < high - low"
      by linarith+
    show ?thesis
    proof (cases "below ?mid")
      case True
      with lt less.prems mid show ?thesis
        by (intro less.hyps [OF dec(1)]) (simp_all add: bsearch.simps [of below low high] Let_def)
    next
      case False
      show ?thesis
      proof (cases "m < ?mid")
        case True
        with False lt less.prems mid show ?thesis
          by (intro less.hyps [OF dec(2)]) (simp_all add: bsearch.simps [of below low high] Let_def)
      next
        case mge: False
        with False less.prems show ?thesis
          by (meson below_down less_le_trans not_less)
      qed
    qed
  qed
qed

end

section \<open>Loops over arrays\<close>

text \<open>A counted loop whose body may return early: the first \<open>Inl\<close> ends it.\<close>

fun fold_err :: "('a \<Rightarrow> 's \<Rightarrow> 'e + 's) \<Rightarrow> 'a list \<Rightarrow> 's \<Rightarrow> 'e + 's" where
  "fold_err f [] s = Inr s"
| "fold_err f (x # xs) s = (case f x s of Inl e \<Rightarrow> Inl e | Inr s1 \<Rightarrow> fold_err f xs s1)"

lemma fold_err_append:
  "fold_err f (xs @ ys) s = (case fold_err f xs s of Inl e \<Rightarrow> Inl e | Inr s1 \<Rightarrow> fold_err f ys s1)"
  by (induction xs arbitrary: s) (auto split: sum.splits)

text \<open>Invariants of counted loops: \<open>P k\<close> holds before iteration \<open>k\<close>.\<close>

lemma fold_upt_invariant:
  assumes "P 0 s" and "\<And>k s. k < n \<Longrightarrow> P k s \<Longrightarrow> P (Suc k) (f k s)"
  shows "P n (fold f [0..<n] s)"
  using assms by (induction n) auto

lemma fold_err_upt_invariant:
  assumes "P 0 s" and "\<And>k s. k < n \<Longrightarrow> P k s \<Longrightarrow> \<exists>s'. f k s = Inr s' \<and> P (Suc k) s'"
  shows "\<exists>s'. fold_err f [0..<n] s = Inr s' \<and> P n s'"
  using assms
proof (induction n)
  case (Suc n)
  then obtain s1 where "fold_err f [0..<n] s = Inr s1" "P n s1" by (metis less_SucI)
  with Suc.prems(2) [of n s1] show ?case by (auto simp: fold_err_append)
qed simp

text \<open>A contiguous part of an array.\<close>

definition segment :: "nat \<Rightarrow> nat \<Rightarrow> 'a list \<Rightarrow> 'a list" where
  "segment b c xs = take c (drop b xs)"

lemma length_segment [simp]: "b + c \<le> length xs \<Longrightarrow> length (segment b c xs) = c"
  by (simp add: segment_def)

lemma nth_segment [simp]: "b + c \<le> length xs \<Longrightarrow> i < c \<Longrightarrow> segment b c xs ! i = xs ! (b + i)"
  by (simp add: segment_def)

lemma segment_0 [simp]: "segment b 0 xs = []"
  by (simp add: segment_def)

lemma segment_Suc: "b + c < length xs \<Longrightarrow> segment b (Suc c) xs = segment b c xs @ [xs ! (b + c)]"
  by (simp add: segment_def take_Suc_conv_app_nth)

lemma segment_update_outside:
  "p < b \<or> b + c \<le> p \<Longrightarrow> segment b c (xs[p := v]) = segment b c xs"
  unfolding segment_def by (auto simp: drop_update_swap)

lemma segment_split: "b + c \<le> length xs \<Longrightarrow> xs = take b xs @ segment b c xs @ drop (b + c) xs"
  by (metis append_take_drop_id drop_drop add.commute segment_def)

lemma segment_replace_outside:
  assumes "b + c \<le> length xs" "length ys = c" "b' + c' \<le> b \<or> b + c \<le> b'" "b' + c' \<le> length xs"
  shows "segment b' c' (take b xs @ ys @ drop (b + c) xs) = segment b' c' xs"
proof -
  let ?zs = "take b xs @ ys @ drop (b + c) xs"
  have zs: "length ?zs = length xs" using assms(1,2) by simp
  have "?zs ! j = xs ! j" if "j < length xs" "j < b \<or> b + c \<le> j" for j
    using that assms(1,2) by (auto simp: nth_append)
  then show ?thesis
    using assms(3,4) zs by (intro nth_equalityI) auto
qed

lemma segment_replace_inside:
  assumes "b + c \<le> length xs" "length ys = c"
  shows "segment b c (take b xs @ ys @ drop (b + c) xs) = ys"
  using assms by (simp add: segment_def)

end
