(* ===== verification/Color.thy ===== *)
theory Color
  imports Prelude
begin

text \<open>
  Color representations of Prism Kit (src/include/prism/color.hpp): packed presets, 8-bit RGB,
  8-bit HSV and the two integer conversions between them. The conversions are written at the
  widths C++ uses: 8-bit fields are promoted, products with an unsigned literal are 32-bit
  words, and every narrowing cast is a \<^const>\<open>ucast\<close>.
\<close>

section \<open>Data\<close>

record RgbColor =
  red :: u8
  green :: u8
  blue :: u8

record HsvColor =
  hsv_h :: u8
  hsv_s :: u8
  hsv_v :: u8

datatype Preset =
    kWarmWhite | kWarmWhiteAlt | kCoolWhite | kPureWhite | kNightlightAmber | kPureRed
  | kPureGreen | kPureBlue | kCyberpunkPink | kIceBlue | kElectricPurple | kEmerald
  | kHalloweenOrange | kChristmasGold

fun Preset_value :: "Preset \<Rightarrow> u32" where
  "Preset_value kWarmWhite = 0xFF952B"
| "Preset_value kWarmWhiteAlt = 0xFFB266"
| "Preset_value kCoolWhite = 0xE0F7F4"
| "Preset_value kPureWhite = 0xFFFFFF"
| "Preset_value kNightlightAmber = 0xFF5500"
| "Preset_value kPureRed = 0xFF0000"
| "Preset_value kPureGreen = 0x00FF00"
| "Preset_value kPureBlue = 0x0000FF"
| "Preset_value kCyberpunkPink = 0xFF0055"
| "Preset_value kIceBlue = 0x00FFFF"
| "Preset_value kElectricPurple = 0x6600FF"
| "Preset_value kEmerald = 0x00FF66"
| "Preset_value kHalloweenOrange = 0xFF3300"
| "Preset_value kChristmasGold = 0xFFD700"

definition rgb :: "u8 \<Rightarrow> u8 \<Rightarrow> u8 \<Rightarrow> RgbColor" where
  "rgb r g b = \<lparr>red = r, green = g, blue = b\<rparr>"

definition hsv :: "u8 \<Rightarrow> u8 \<Rightarrow> u8 \<Rightarrow> HsvColor" where
  "hsv h s v = \<lparr>hsv_h = h, hsv_s = s, hsv_v = v\<rparr>"

lemma rgb_sel [simp]: "red (rgb r g b) = r" "green (rgb r g b) = g" "blue (rgb r g b) = b"
  by (simp_all add: rgb_def)

lemma hsv_sel [simp]: "hsv_h (hsv h s v) = h" "hsv_s (hsv h s v) = s" "hsv_v (hsv h s v) = v"
  by (simp_all add: hsv_def)

lemma rgb_collapse [simp]: "rgb (red c) (green c) (blue c) = c"
  by (simp add: rgb_def)

section \<open>Operations\<close>

definition ToRgb :: "Preset \<Rightarrow> RgbColor" where
  "ToRgb preset =
     (let raw = Preset_value preset
      in rgb (ucast (drop_bit 16 raw AND 0xFF)) (ucast (drop_bit 8 raw AND 0xFF))
           (ucast (raw AND 0xFF)))"

definition HsvToRgb :: "HsvColor \<Rightarrow> RgbColor" where
  "HsvToRgb c =
     (if hsv_s c = 0 then rgb (hsv_v c) (hsv_v c) (hsv_v c)
      else
        let scaled_h = ucast ((ucast (hsv_h c) * 360 :: u32) div 255) :: u16;
            sector = ucast (if 360 \<le> (ucast scaled_h :: u32) then 0
                            else (ucast scaled_h :: u32) div 60) :: u8;
            f = ucast (if 360 \<le> (ucast scaled_h :: u32) then 0
                       else (ucast scaled_h :: u32) mod 60) :: u8;
            v = ucast (hsv_v c) :: u32;
            s = ucast (hsv_s c) :: u32;
            p = ucast (v * (255 - s) div 255) :: u8;
            q = ucast (v * (255 - (s * ucast f) div 60) div 255) :: u8;
            t = ucast (v * (255 - (s * (60 - ucast f)) div 60) div 255) :: u8
        in if sector = 0 then rgb (ucast v) t p
           else if sector = 1 then rgb q (ucast v) p
           else if sector = 2 then rgb p (ucast v) t
           else if sector = 3 then rgb p q (ucast v)
           else if sector = 4 then rgb t p (ucast v)
           else rgb (ucast v) p q)"

text \<open>
  The hue in degrees is computed in signed 32-bit arithmetic and kept in an \<^verbatim>\<open>int16_t\<close>;
  its range is part of the properties below.
\<close>

definition hue_degrees :: "RgbColor \<Rightarrow> u8 \<Rightarrow> u8 \<Rightarrow> int" where
  "hue_degrees c mx delta =
     (if mx = red c then
        (let h_deg = cdiv ((uint (green c) - uint (blue c)) * 60) (uint delta)
         in if h_deg < 0 then h_deg + 360 else h_deg)
      else if mx = green c then cdiv ((uint (blue c) - uint (red c)) * 60) (uint delta) + 120
      else cdiv ((uint (red c) - uint (green c)) * 60) (uint delta) + 240)"

definition max3 :: "RgbColor \<Rightarrow> u8" where
  "max3 c = max (red c) (max (green c) (blue c))"

definition min3 :: "RgbColor \<Rightarrow> u8" where
  "min3 c = min (red c) (min (green c) (blue c))"

definition RgbToHsv :: "RgbColor \<Rightarrow> HsvColor" where
  "RgbToHsv c =
     (let mx = max3 c;
          mn = min3 c;
          delta = mx - mn;
          s = (if mx = 0 then 0 else ucast ((ucast delta * 255 :: u32) div ucast mx)) :: u8;
          h = (if delta = 0 then 0
               else ucast (((ucast (word_of_int (hue_degrees c mx delta) :: u16) * 255 + 180) :: u32)
                           div 360)) :: u8
      in hsv h s mx)"

section \<open>Channel arithmetic\<close>

lemma unat_max3: "unat (max3 c) = max (unat (red c)) (max (unat (green c)) (unat (blue c)))"
  by (simp add: max3_def max_def word_le_nat_alt)

lemma unat_min3: "unat (min3 c) = min (unat (red c)) (min (unat (green c)) (unat (blue c)))"
  by (simp add: min3_def min_def word_le_nat_alt)

lemmas rgb_extrema = unat_max3 unat_min3

text \<open>The three mixed channels have the form \<open>v * (255 - x) / 255\<close> and never wrap.\<close>

lemma unat_mixed_channel:
  fixes v x :: u32
  assumes "unat v \<le> 255" and "unat x \<le> 255"
  shows "unat (ucast (v * (255 - x) div 255) :: u8) = unat v * (255 - unat x) div 255"
proof -
  have x: "unat (255 - x) = 255 - unat x"
    using assms(2) by (simp add: unat_diff_u32)
  have le: "unat v * (255 - unat x) \<le> 255 * 255"
    using assms(1) by (intro mult_le_mono) simp_all
  have "unat (v * (255 - x)) = unat v * (255 - unat x)"
    using le by (simp add: unat_mult_u32 x)
  moreover have "unat v * (255 - unat x) div 255 \<le> 255"
    using div_le_mono [OF le, of 255] by simp
  ultimately show ?thesis
    by (simp add: word_nat unat_div_distrib)
qed

lemma mixed_channel_le: "(v::nat) * (255 - x) div 255 \<le> v"
proof -
  have "v * (255 - x) div 255 \<le> v * 255 div 255"
    by (intro div_le_mono mult_le_mono) simp_all
  then show ?thesis by simp
qed

lemma mixed_channel_anti: "x \<le> y \<Longrightarrow> (v::nat) * (255 - y) div 255 \<le> v * (255 - x) div 255"
  by (intro div_le_mono mult_le_mono) simp_all

lemma unat_sextant_share:
  fixes s f :: u32
  assumes "unat s \<le> 255" and "unat f \<le> 60"
  shows "unat (s * f div 60) \<le> unat s"
proof -
  have le: "unat s * unat f \<le> unat s * 60" using assms(2) by simp
  have "unat s * 60 < 2 ^ 32" using assms(1) by simp
  with le have "unat (s * f) = unat s * unat f" by (intro unat_mult_u32) linarith
  moreover have "unat s * unat f div 60 \<le> unat s" using div_le_mono [OF le, of 60] by simp
  ultimately show ?thesis by (simp add: unat_div_distrib)
qed

lemma unat_phase_bound:
  fixes w :: u16
  shows "unat (ucast (ucast (if 360 \<le> (ucast w :: u32) then 0 else (ucast w :: u32) mod 60) :: u8) :: u32) < 60"
proof -
  have "unat ((ucast w :: u32) mod 60) < 60" by (simp add: unat_mod_distrib)
  then show ?thesis by (simp add: word_nat)
qed

section \<open>Properties of the HSV to RGB conversion\<close>

lemma max_of_extremes:
  assumes "r \<le> v" "g \<le> v" "b \<le> v" "v = r \<or> v = g \<or> v = (b::nat)"
  shows "max r (max g b) = v"
  using assms by auto

text \<open>
  All six sextants mix the same three channel values: the full value, the floor value
  \<open>p\<close>, and one value in between.
\<close>

lemma HsvToRgb_extrema:
  "unat (max3 (HsvToRgb c)) = unat (hsv_v c) \<and>
   unat (min3 (HsvToRgb c)) = unat (hsv_v c) * (255 - unat (hsv_s c)) div 255"
proof (cases "hsv_s c = 0")
  case True
  then show ?thesis by (simp add: HsvToRgb_def rgb_extrema)
next
  case False
  define w where "w = (ucast ((ucast (hsv_h c) * 360 :: u32) div 255) :: u16)"
  define f where "f = (ucast (ucast (if 360 \<le> (ucast w :: u32) then 0 else (ucast w :: u32) mod 60) :: u8) :: u32)"
  define v where "v = (ucast (hsv_v c) :: u32)"
  define s where "s = (ucast (hsv_s c) :: u32)"
  have v: "unat v = unat (hsv_v c)" and s: "unat s = unat (hsv_s c)"
    by (simp_all add: v_def s_def word_nat)
  have f: "unat f < 60" unfolding f_def by (rule unat_phase_bound)
  have g: "unat (60 - f) = 60 - unat f" using f by (simp add: unat_diff_u32)
  let ?p = "ucast (v * (255 - s) div 255) :: u8"
  let ?q = "ucast (v * (255 - s * f div 60) div 255) :: u8"
  let ?t = "ucast (v * (255 - s * (60 - f) div 60) div 255) :: u8"
  have sf: "unat (s * f div 60) \<le> unat s" "unat (s * (60 - f) div 60) \<le> unat s"
    by (rule unat_sextant_share; use f s g in simp)+
  have p: "unat ?p = unat v * (255 - unat s) div 255"
    using v s by (simp add: unat_mixed_channel)
  have q: "unat ?p \<le> unat ?q" "unat ?q \<le> unat v" and t: "unat ?p \<le> unat ?t" "unat ?t \<le> unat v"
    using mixed_channel_anti [OF sf(1), of "unat v"] mixed_channel_anti [OF sf(2), of "unat v"] sf v s
    by (simp_all add: p unat_mixed_channel mixed_channel_le order.trans [OF sf(1)] order.trans [OF sf(2)])
  have pv: "unat ?p \<le> unat v" by (simp add: p mixed_channel_le)
  have uv: "unat (ucast v :: u8) = unat v" using v by (simp add: word_nat)
  have cases: "HsvToRgb c \<in> {rgb (ucast v) ?t ?p, rgb ?q (ucast v) ?p, rgb ?p (ucast v) ?t,
      rgb ?p ?q (ucast v), rgb ?t ?p (ucast v), rgb (ucast v) ?p ?q}"
    using False unfolding HsvToRgb_def Let_def w_def [symmetric] f_def [symmetric] v_def [symmetric]
      s_def [symmetric] by simp
  show ?thesis
    using cases q t pv unfolding rgb_extrema v [symmetric] s [symmetric] p [symmetric]
    by (auto simp: uv simp del: One_nat_def)
qed

section \<open>Properties of the RGB to HSV conversion\<close>

lemma channel_between:
  "x \<in> {red c, green c, blue c} \<Longrightarrow> uint (min3 c) \<le> uint x \<and> uint x \<le> uint (max3 c)"
  unfolding word_le_def [symmetric] by (auto simp: max3_def min3_def le_max_iff_disj min_le_iff_disj)

lemma uint_delta: "uint (max3 c - min3 c) = uint (max3 c) - uint (min3 c)"
  using channel_between [of "red c" c] uint_sub_lem by (meson insertI1 order_trans)

text \<open>The hue in degrees stays inside one turn, so the 16-bit signed variable never overflows.\<close>

lemma hue_degrees_range:
  assumes "max3 c - min3 c \<noteq> 0"
  shows "hue_degrees c (max3 c) (max3 c - min3 c) \<in> {0..359}"
proof -
  let ?d = "uint (max3 c - min3 c)"
  have pos: "0 < ?d" using assms by (metis unsigned_0 word_less_iff_unsigned unat_gt_0)
  have sp: "\<bar>uint x - uint y\<bar> * 60 \<le> 60 * ?d"
    if "x \<in> {red c, green c, blue c}" "y \<in> {red c, green c, blue c}" for x y :: u8
    using channel_between [OF that(1)] channel_between [OF that(2)]
    unfolding uint_delta by (auto simp: abs_if)
  have "\<bar>cdiv ((uint x - uint y) * 60) ?d\<bar> \<le> 60"
    if "x \<in> {red c, green c, blue c}" "y \<in> {red c, green c, blue c}" for x y :: u8
    by (rule cdiv_bounds [OF pos]) (use sp [OF that] in \<open>simp only: abs_mult abs_numeral\<close>)
  then have "\<bar>cdiv ((uint (green c) - uint (blue c)) * 60) ?d\<bar> \<le> 60"
    "\<bar>cdiv ((uint (blue c) - uint (red c)) * 60) ?d\<bar> \<le> 60"
    "\<bar>cdiv ((uint (red c) - uint (green c)) * 60) ?d\<bar> \<le> 60"
    by simp_all
  then show ?thesis by (auto simp: hue_degrees_def Let_def)
qed

lemma unat_word_of_nonneg_int_u16: "0 \<le> i \<Longrightarrow> i < 65536 \<Longrightarrow> unat (word_of_int i :: u16) = nat i"
  by (simp add: unsigned_of_int take_bit_int_eq_self)

lemma RgbToHsv_hue:
  assumes "max3 c - min3 c \<noteq> 0"
  shows "unat (hsv_h (RgbToHsv c)) =
           (nat (hue_degrees c (max3 c) (max3 c - min3 c)) * 255 + 180) div 360"
proof -
  define d where "d = hue_degrees c (max3 c) (max3 c - min3 c)"
  have r: "0 \<le> d" "d \<le> 359" using hue_degrees_range [OF assms] by (simp_all add: d_def)
  have a: "unat (ucast (word_of_int d :: u16) :: u32) = nat d"
    using r by (simp add: word_nat unat_word_of_nonneg_int_u16)
  have b: "unat (ucast (word_of_int d :: u16) * 255 :: u32) = nat d * 255"
    using r by (simp add: unat_mult_u32 a)
  have c: "unat (ucast (word_of_int d :: u16) * 255 + 180 :: u32) = nat d * 255 + 180"
    using r by (simp add: unat_add_u32 b)
  have "(nat d * 255 + 180) div 360 < 256" using r by simp
  then show ?thesis
    using assms by (simp add: RgbToHsv_def Let_def word_nat unat_div_distrib c flip: d_def)
qed

section \<open>Properties of the round trips\<close>

text \<open>
  Quantising the saturation rounds down by less than one part in the value, which the division
  that recovers the smallest channel rounds away again.
\<close>

lemma smallest_recovered:
  fixes m n :: nat
  assumes "n \<le> m" "0 < m" "m \<le> 255"
  shows "m * (255 - (m - n) * 255 div m) div 255 = n"
proof -
  define s where "s = (m - n) * 255 div m"
  define r where "r = (m - n) * 255 mod m"
  have "(m - n) * 255 \<le> m * 255" by simp
  then have "s \<le> 255" unfolding s_def using assms(2) by (metis div_le_mono div_mult_self_is_m mult.commute)
  have split: "(m - n) * 255 = m * s + r" by (simp add: s_def r_def)
  have r: "r < 255" using assms(2,3) mod_less_divisor [of m "(m - n) * 255"] unfolding r_def by linarith
  have "m * (255 - s) + m * s = m * 255" using \<open>s \<le> 255\<close> by (simp flip: distrib_left)
  moreover have "(m - n) * 255 + n * 255 = m * 255" using assms(1) by (simp flip: distrib_right)
  ultimately have "m * (255 - s) = r + n * 255" using split by linarith
  then have "m * (255 - s) div 255 = n" using r by simp
  then show ?thesis by (simp add: s_def)
qed

lemma unat_RgbToHsv_saturation:
  "unat (hsv_s (RgbToHsv c)) = (if max3 c = 0 then 0 else (unat (max3 c) - unat (min3 c)) * 255 div unat (max3 c))"
proof -
  let ?x = "unat (max3 c)" and ?d = "unat (max3 c - min3 c)"
  have d: "?d = ?x - unat (min3 c)" by (simp add: unat_sub rgb_extrema word_le_nat_alt min_le_iff_disj)
  have "?d * 255 \<le> ?x * 255" by (simp add: d)
  then have "?d * 255 div ?x \<le> 255"
    by (metis div_le_mono div_mult_self_is_m mult.commute div_by_0 not_gr_zero zero_le)
  moreover have "?d * 255 < 2 ^ 32" using unat_u8_le [of "max3 c - min3 c"] by (simp del: unat_u8_le)
  ultimately show ?thesis
    by (auto simp: RgbToHsv_def Let_def word_nat unat_div_distrib unat_mult_u32 d)
qed

lemma HsvToRgb_RgbToHsv_extrema:
  "max3 (HsvToRgb (RgbToHsv c)) = max3 c" "min3 (HsvToRgb (RgbToHsv c)) = min3 c"
proof -
  have le: "unat (min3 c) \<le> unat (max3 c)" by (simp add: rgb_extrema min_le_iff_disj)
  have v: "hsv_v (RgbToHsv c) = max3 c" by (simp add: RgbToHsv_def Let_def)
  note ex = HsvToRgb_extrema [of "RgbToHsv c", unfolded v unat_RgbToHsv_saturation]
  show "max3 (HsvToRgb (RgbToHsv c)) = max3 c" using ex by (simp add: u8_eq_iff)
  show "min3 (HsvToRgb (RgbToHsv c)) = min3 c"
  proof (cases "max3 c = 0")
    case True
    then show ?thesis using ex le by (simp add: u8_eq_iff)
  next
    case False
    then have "0 < unat (max3 c)" by (simp add: unat_gt_0)
    then show ?thesis using ex smallest_recovered [OF le] False by (simp add: u8_eq_iff)
  qed
qed

text \<open>
  Rounding the hue to 255 steps and back loses at most one degree and never leaves the third of
  the circle that belongs to the largest channel.
\<close>

lemma sector_of_degrees:
  fixes d :: nat
  defines "w \<equiv> (d * 255 + 180) div 360 * 360 div 255"
  shows "w \<le> d" "d \<le> w + 1" "60 \<le> d \<Longrightarrow> 60 \<le> w" "180 \<le> d \<Longrightarrow> 180 \<le> w" "300 \<le> d \<Longrightarrow> 300 \<le> w"
proof -
  define h where "h = (d * 255 + 180) div 360"
  have h: "360 * h \<le> d * 255 + 180" "d * 255 + 180 < 360 * h + 360" unfolding h_def by linarith+
  have w: "255 * w \<le> h * 360" "h * 360 < 255 * w + 255" unfolding w_def h_def [symmetric] by linarith+
  show "w \<le> d" "d \<le> w + 1" using h w by linarith+
  have "60 \<le> d \<Longrightarrow> 43 \<le> h" "180 \<le> d \<Longrightarrow> 128 \<le> h" "300 \<le> d \<Longrightarrow> 213 \<le> h" using h by linarith+
  then show "60 \<le> d \<Longrightarrow> 60 \<le> w" "180 \<le> d \<Longrightarrow> 180 \<le> w" "300 \<le> d \<Longrightarrow> 300 \<le> w" using w by linarith+
qed

lemma unat_scaled_hue: "unat (ucast ((ucast (h :: u8) * 360 :: u32) div 255) :: u16) = unat h * 360 div 255"
proof -
  have "unat h * 360 < 2 ^ 32" "unat h * 360 div 255 < 65536" using unat_u8_le [of h] by (simp_all del: unat_u8_le)
  then show ?thesis by (simp add: word_nat unat_div_distrib unat_mult_u32)
qed

lemma whole_channel: "ucast ((ucast v :: u32) * 255 div 255) = (v :: u8)"
proof -
  have "unat v * 255 < 2 ^ 32" using unat_u8_le [of v] by (simp del: unat_u8_le)
  then show ?thesis by (simp add: u8_eq_iff word_nat unat_div_distrib unat_mult_u32)
qed

lemma full_channel: "ucast (ucast v :: u32) = (v :: u8)"
  by (simp add: u8_eq_iff word_nat)

text \<open>The sextants in which each channel has the full value, their common borders included.\<close>

lemma HsvToRgb_dominant:
  fixes c :: HsvColor
  defines "w \<equiv> unat (hsv_h c) * 360 div 255"
  shows "w \<le> 60 \<or> 300 \<le> w \<Longrightarrow> red (HsvToRgb c) = hsv_v c"
    and "60 \<le> w \<Longrightarrow> w \<le> 180 \<Longrightarrow> green (HsvToRgb c) = hsv_v c"
    and "180 \<le> w \<Longrightarrow> w \<le> 300 \<Longrightarrow> blue (HsvToRgb c) = hsv_v c"
proof -
  define sh where "sh = (ucast ((ucast (hsv_h c) * 360 :: u32) div 255) :: u16)"
  define sector where "sector = (ucast (if 360 \<le> (ucast sh :: u32) then 0 else (ucast sh :: u32) div 60) :: u8)"
  define f where "f = (ucast (if 360 \<le> (ucast sh :: u32) then 0 else (ucast sh :: u32) mod 60) :: u8)"
  have w: "unat sh = w" by (simp add: sh_def w_def unat_scaled_hue)
  have "w \<le> 360" using unat_u8_le [of "hsv_h c"] unfolding w_def by linarith
  have sec: "unat sector = (if w = 360 then 0 else w div 60)"
    using \<open>w \<le> 360\<close> by (auto simp: sector_def word_le_nat_alt word_nat w unat_div_distrib)
  have f0: "f = 0" if "w mod 60 = 0"
    using that by (simp add: f_def u8_eq_iff word_nat w unat_mod_distrib)
  note parts = HsvToRgb_def [of c, unfolded Let_def, folded sh_def, folded sector_def f_def]
  have same: "sector = k \<longleftrightarrow> unat sector = unat k" for k by (simp add: u8_eq_iff)
  show "red (HsvToRgb c) = hsv_v c" if "w \<le> 60 \<or> 300 \<le> w"
  proof -
    have "w = 60 \<or> w < 60 \<or> w = 360 \<or> 300 \<le> w \<and> w < 360" using that \<open>w \<le> 360\<close> by linarith
    then have "w = 60 \<or> unat sector = 0 \<or> unat sector = 5" unfolding sec by auto
    then show ?thesis
      by (elim disjE) (use f0 sec in \<open>simp add: parts same whole_channel full_channel\<close>,
        simp_all add: parts same whole_channel full_channel)
  qed
  show "green (HsvToRgb c) = hsv_v c" if "60 \<le> w" "w \<le> 180"
  proof -
    have "w = 180 \<or> unat sector = 1 \<or> unat sector = 2" using that unfolding sec by auto
    then show ?thesis
      by (elim disjE) (use f0 sec in \<open>simp add: parts same whole_channel full_channel\<close>,
        simp_all add: parts same whole_channel full_channel)
  qed
  show "blue (HsvToRgb c) = hsv_v c" if "180 \<le> w" "w \<le> 300"
  proof -
    have "w = 300 \<or> unat sector = 3 \<or> unat sector = 4" using that unfolding sec by auto
    then show ?thesis
      by (elim disjE) (use f0 sec in \<open>simp add: parts same whole_channel full_channel\<close>,
        simp_all add: parts same whole_channel full_channel)
  qed
qed

lemma cdiv_whole: "0 < d \<Longrightarrow> cdiv (d * 60) d = 60" "0 < d \<Longrightarrow> cdiv (- (d * 60)) d = - 60"
  by (simp_all add: cdiv_nonneg cdiv_neg)

text \<open>The part of the circle in which the hue of a color lies, by its largest channel.\<close>

lemma hue_degrees_dominant:
  assumes "max3 c \<noteq> min3 c"
  defines "d \<equiv> hue_degrees c (max3 c) (max3 c - min3 c)"
  shows "red c = max3 c \<Longrightarrow> d \<le> 60 \<or> 300 \<le> d"
    and "green c = max3 c \<Longrightarrow> 60 \<le> d \<and> d \<le> 180"
    and "blue c = max3 c \<Longrightarrow> 180 \<le> d \<and> d \<le> 300"
proof -
  let ?d = "uint (max3 c) - uint (min3 c)"
  have pos: "0 < ?d"
    using assms(1) channel_between [of "red c" c] by (simp add: word_uint_eq_iff)
  have bound: "\<bar>cdiv ((uint x - uint y) * 60) ?d\<bar> \<le> 60"
    if "x \<in> {red c, green c, blue c}" "y \<in> {red c, green c, blue c}" for x y :: u8
  proof (rule cdiv_bounds [OF pos])
    have "\<bar>uint x - uint y\<bar> \<le> ?d" using channel_between [OF that(1)] channel_between [OF that(2)] by linarith
    then show "\<bar>(uint x - uint y) * 60\<bar> \<le> 60 * ?d" by (simp add: abs_mult)
  qed
  have full: "cdiv ((uint (max3 c) - uint (min3 c)) * 60) ?d = 60" "cdiv (- (?d * 60)) ?d = - 60"
    by (rule cdiv_whole [OF pos])+
  then have fall: "cdiv ((uint (min3 c) - uint (max3 c)) * 60) ?d = - 60" by (simp add: algebra_simps)
  have least: "min3 c \<in> {red c, green c, blue c}" by (auto simp: min3_def min_def)
  have d: "d = (if max3 c = red c then (let h = cdiv ((uint (green c) - uint (blue c)) * 60) ?d in if h < 0 then h + 360 else h)
      else if max3 c = green c then cdiv ((uint (blue c) - uint (red c)) * 60) ?d + 120
      else cdiv ((uint (red c) - uint (green c)) * 60) ?d + 240)"
    unfolding d_def hue_degrees_def uint_delta ..
  note b = bound [of "green c" "blue c"] bound [of "blue c" "red c"] bound [of "red c" "green c"]
  show "red c = max3 c \<Longrightarrow> d \<le> 60 \<or> 300 \<le> d"
    using b(1) by (auto simp: d Let_def)
  show "green c = max3 c \<Longrightarrow> 60 \<le> d \<and> d \<le> 180"
    using b least full(1) fall assms(1) by (auto simp: d Let_def)
  show "blue c = max3 c \<Longrightarrow> 180 \<le> d \<and> d \<le> 300"
    using b least full(1) fall assms(1) by (auto simp: d Let_def)
qed

lemma HsvToRgb_RgbToHsv_dominant:
  shows "red c = max3 c \<Longrightarrow> red (HsvToRgb (RgbToHsv c)) = max3 c"
    and "green c = max3 c \<Longrightarrow> green (HsvToRgb (RgbToHsv c)) = max3 c"
    and "blue c = max3 c \<Longrightarrow> blue (HsvToRgb (RgbToHsv c)) = max3 c"
proof -
  have v: "hsv_v (RgbToHsv c) = max3 c" by (simp add: RgbToHsv_def Let_def)
  define w where "w = unat (hsv_h (RgbToHsv c)) * 360 div 255"
  note dom = HsvToRgb_dominant [of "RgbToHsv c", folded w_def, unfolded v]
  have "(red c = max3 c \<longrightarrow> red (HsvToRgb (RgbToHsv c)) = max3 c)
      \<and> (green c = max3 c \<longrightarrow> green (HsvToRgb (RgbToHsv c)) = max3 c)
      \<and> (blue c = max3 c \<longrightarrow> blue (HsvToRgb (RgbToHsv c)) = max3 c)"
  proof (cases "max3 c = min3 c")
    case True
    then have "hsv_s (RgbToHsv c) = 0" by (simp add: RgbToHsv_def Let_def)
    then show ?thesis by (simp add: HsvToRgb_def v)
  next
    case False
    define d where "d = nat (hue_degrees c (max3 c) (max3 c - min3 c))"
    have nz: "max3 c - min3 c \<noteq> 0" using False by simp
    have d: "int d = hue_degrees c (max3 c) (max3 c - min3 c)" using hue_degrees_range [OF nz] by (simp add: d_def)
    have "w = (d * 255 + 180) div 360 * 360 div 255" by (simp add: w_def d_def RgbToHsv_hue [OF nz])
    note w = sector_of_degrees [of d, folded this]
    note hd = hue_degrees_dominant [OF False, folded d]
    show ?thesis
    proof (intro conjI impI)
      assume "red c = max3 c"
      from hd(1) [OF this] w show "red (HsvToRgb (RgbToHsv c)) = max3 c" by (intro dom(1)) linarith
    next
      assume "green c = max3 c"
      from hd(2) [OF this] w show "green (HsvToRgb (RgbToHsv c)) = max3 c" by (intro dom(2)) linarith+
    next
      assume "blue c = max3 c"
      from hd(3) [OF this] w show "blue (HsvToRgb (RgbToHsv c)) = max3 c" by (intro dom(3)) linarith+
    qed
  qed
  then show "red c = max3 c \<Longrightarrow> red (HsvToRgb (RgbToHsv c)) = max3 c"
    "green c = max3 c \<Longrightarrow> green (HsvToRgb (RgbToHsv c)) = max3 c"
    "blue c = max3 c \<Longrightarrow> blue (HsvToRgb (RgbToHsv c)) = max3 c" by blast+
qed

section \<open>Claims\<close>

text \<open>
  Converting HSV to RGB keeps the brightness exactly: the largest channel of the result is
  the requested value, and the smallest is that value reduced by the saturation, rounded down. In
  particular no channel of any conversion wraps around.
\<close>

theorem HsvToRgb_extremes:
  "unat (max3 (HsvToRgb c)) = unat (hsv_v c) \<and>
   unat (min3 (HsvToRgb c)) = unat (hsv_v c) * (255 - unat (hsv_s c)) div 255"
  by (rule HsvToRgb_extrema)

text \<open>
  C33. Both round trips. HSV to RGB and back returns the brightness it was built from, and an
  achromatic HSV color comes back with saturation and hue zero. RGB to HSV and back returns the
  largest and the smallest channel value exactly, keeps every channel that had the largest value at
  that value (so the dominant channel stays in place through the quantised hue), and is exact on
  grays. Only the channel in between can change: 70 of (70, 10, 200) comes back as 67.
\<close>

theorem HsvToRgb_RgbToHsv_value:
  "hsv_v (RgbToHsv (HsvToRgb c)) = hsv_v c \<and>
   RgbToHsv (HsvToRgb (hsv h 0 v)) = hsv 0 0 v \<and>
   max3 (HsvToRgb (RgbToHsv k)) = max3 k \<and> min3 (HsvToRgb (RgbToHsv k)) = min3 k \<and>
   (red k = max3 k \<longrightarrow> red (HsvToRgb (RgbToHsv k)) = red k) \<and>
   (green k = max3 k \<longrightarrow> green (HsvToRgb (RgbToHsv k)) = green k) \<and>
   (blue k = max3 k \<longrightarrow> blue (HsvToRgb (RgbToHsv k)) = blue k) \<and>
   HsvToRgb (RgbToHsv (rgb x x x)) = rgb x x x"
proof (intro conjI)
  show "hsv_v (RgbToHsv (HsvToRgb c)) = hsv_v c"
    using HsvToRgb_extrema [of c] by (simp add: RgbToHsv_def Let_def u8_eq_iff)
  show "RgbToHsv (HsvToRgb (hsv h 0 v)) = hsv 0 0 v" "HsvToRgb (RgbToHsv (rgb x x x)) = rgb x x x"
    by (simp_all add: RgbToHsv_def HsvToRgb_def max3_def min3_def Let_def)
qed (simp_all add: HsvToRgb_RgbToHsv_extrema HsvToRgb_RgbToHsv_dominant)

theorem HsvToRgb_RgbToHsv_value_witness:
  "red (rgb 200 10 70) = max3 (rgb 200 10 70) \<and> red (HsvToRgb (RgbToHsv (rgb 200 10 70))) = 200
   \<and> min3 (HsvToRgb (RgbToHsv (rgb 200 10 70))) = 10"
proof -
  let ?k = "rgb 200 10 70"
  have mm: "red ?k = max3 ?k" "max3 ?k = 200" "min3 ?k = 10" by (simp_all add: max3_def min3_def)
  then show ?thesis using HsvToRgb_RgbToHsv_value [of "hsv 0 0 0" 0 0 ?k] by simp
qed

text \<open>
  The hue of a chromatic color is its angle in degrees, which lies in one turn, rounded to
  the nearest of the 255 steps; the 16-bit and 8-bit casts lose nothing, and the largest hue ever
  returned is 254.
\<close>

theorem RgbToHsv_hue_scaled:
  assumes "max3 c \<noteq> min3 c"
  shows "hue_degrees c (max3 c) (max3 c - min3 c) \<in> {0..359} \<and>
         unat (hsv_h (RgbToHsv c)) =
           (nat (hue_degrees c (max3 c) (max3 c - min3 c)) * 255 + 180) div 360 \<and>
         unat (hsv_h (RgbToHsv c)) \<le> 254"
proof -
  from assms have nz: "max3 c - min3 c \<noteq> 0" by simp
  have range: "hue_degrees c (max3 c) (max3 c - min3 c) \<in> {0..359}"
    by (rule hue_degrees_range [OF nz])
  then have "nat (hue_degrees c (max3 c) (max3 c - min3 c)) \<le> 359" by (simp add: nat_le_iff)
  with range show ?thesis by (simp add: RgbToHsv_hue [OF nz])
qed

theorem RgbToHsv_hue_scaled_witness:
  "max3 (rgb 100 40 41) \<noteq> min3 (rgb 100 40 41) \<and>
   hue_degrees (rgb 100 40 41) 100 60 = 359 \<and>
   unat (hsv_h (RgbToHsv (rgb 100 40 41))) = 254"
proof -
  have mm: "max3 (rgb 100 40 41) = 100" "min3 (rgb 100 40 41) = 40"
    by (simp_all add: max3_def min3_def)
  then have h: "max3 (rgb 100 40 41) \<noteq> min3 (rgb 100 40 41)" by simp
  have d: "hue_degrees (rgb 100 40 41) 100 60 = 359"
    by (simp add: hue_degrees_def cdiv_def)
  show ?thesis
    using RgbToHsv_hue_scaled [OF h] h d by (simp add: mm)
qed

end
