(* ===== verification/Oklab.thy ===== *)
theory Oklab
  imports Color "HOL-Library.Monad_Syntax"
begin

text \<open>
  Fixed-point OKLab arithmetic of the Gradient instruction (src/app/controller/oklab.cpp).
  Unsigned quantities are words of their C++ width. Signed 32-bit quantities are integers: signed
  overflow is undefined in C++, so a second set of definitions checks every signed operation, and
  they are proved never to fail and to give the same values: that makes this reading of the code
  exact. Narrowing to \<^verbatim>\<open>int16_t\<close> is written out as \<open>i16\<close>.
\<close>

section \<open>Tables and coefficients\<close>

definition kQ13One :: int where "kQ13One = 8192"
definition kQ12CoefficientScale :: int where "kQ12CoefficientScale = 4096"

definition kSrgbToLinearQ16 :: "u16 list" where
  "kSrgbToLinearQ16 = [
    0, 20, 40, 60, 80, 99, 119, 139, 159, 179, 199, 219, 241, 264, 288, 313,
    340, 367, 396, 427, 458, 491, 526, 562, 599, 637, 677, 718, 761, 805, 851, 898,
    947, 997, 1048, 1101, 1156, 1212, 1270, 1330, 1391, 1453, 1517, 1583, 1651, 1720, 1790, 1863,
    1937, 2013, 2090, 2170, 2250, 2333, 2418, 2504, 2592, 2681, 2773, 2866, 2961, 3058, 3157, 3258,
    3360, 3464, 3570, 3678, 3788, 3900, 4014, 4129, 4247, 4366, 4488, 4611, 4736, 4864, 4993, 5124,
    5257, 5392, 5530, 5669, 5810, 5953, 6099, 6246, 6395, 6547, 6700, 6856, 7014, 7174, 7335, 7500,
    7666, 7834, 8004, 8177, 8352, 8528, 8708, 8889, 9072, 9258, 9445, 9635, 9828, 10022, 10219, 10417,
    10619, 10822, 11028, 11235, 11446, 11658, 11873, 12090, 12309, 12530, 12754, 12980, 13209, 13440, 13673, 13909,
    14146, 14387, 14629, 14874, 15122, 15371, 15623, 15878, 16135, 16394, 16656, 16920, 17187, 17456, 17727, 18001,
    18277, 18556, 18837, 19121, 19407, 19696, 19987, 20281, 20577, 20876, 21177, 21481, 21787, 22096, 22407, 22721,
    23038, 23357, 23678, 24002, 24329, 24658, 24990, 25325, 25662, 26001, 26344, 26688, 27036, 27386, 27739, 28094,
    28452, 28813, 29176, 29542, 29911, 30282, 30656, 31033, 31412, 31794, 32179, 32567, 32957, 33350, 33745, 34143,
    34544, 34948, 35355, 35764, 36176, 36591, 37008, 37429, 37852, 38278, 38706, 39138, 39572, 40009, 40449, 40891,
    41337, 41785, 42236, 42690, 43147, 43606, 44069, 44534, 45002, 45473, 45947, 46423, 46903, 47385, 47871, 48359,
    48850, 49344, 49841, 50341, 50844, 51349, 51858, 52369, 52884, 53401, 53921, 54445, 54971, 55500, 56032, 56567,
    57105, 57646, 58190, 58737, 59287, 59840, 60396, 60955, 61517, 62082, 62650, 63221, 63795, 64372, 64952, 65535]"

definition kLinearRgbToLmsQ16 :: "u16 list" where
  "kLinearRgbToLmsQ16 = [27015, 35149, 3372, 13887, 44610, 7038, 5787, 18463, 41286]"

definition kLmsRootToOklabQ13 :: "int list" where
  "kLmsRootToOklabQ13 = [1724, 6501, -33, 16204, -19895, 3691, 212, 6412, -6625]"

definition kOklabToLmsRootQ13 :: "int list" where
  "kOklabToLmsRootQ13 = [8192, 3247, 1768, 8192, -865, -523, 8192, -733, -10580]"

definition kLmsCubeToLinearRgbQ12 :: "int list" where
  "kLmsCubeToLinearRgbQ12 = [16698, -13548, 946, -5196, 10690, -1398, -17, -2881, 6994]"

lemmas matrix_defs = kLinearRgbToLmsQ16_def kLmsRootToOklabQ13_def kOklabToLmsRootQ13_def
  kLmsCubeToLinearRgbQ12_def

record OklabColor =
  lab_l :: int
  lab_a :: int
  lab_b :: int

definition lab :: "int \<Rightarrow> int \<Rightarrow> int \<Rightarrow> OklabColor" where
  "lab l a b = \<lparr>lab_l = l, lab_a = a, lab_b = b\<rparr>"

lemma lab_sel [simp]: "lab_l (lab l a b) = l" "lab_a (lab l a b) = a" "lab_b (lab l a b) = b"
  by (simp_all add: lab_def)

text \<open>\<^verbatim>\<open>static_cast<std::int16_t>\<close> on a 32-bit value, and the two signed ranges.\<close>

definition i16 :: "int \<Rightarrow> int" where
  "i16 x = (x + 32768) mod 65536 - 32768"

definition fits_i16 :: "int \<Rightarrow> bool" where
  "fits_i16 x \<longleftrightarrow> - 32768 \<le> x \<and> x \<le> 32767"

definition fits_i32 :: "int \<Rightarrow> bool" where
  "fits_i32 x \<longleftrightarrow> - 2147483648 \<le> x \<and> x \<le> 2147483647"

section \<open>Unsigned Q0.16 operations\<close>

definition MultiplyQ16 :: "u16 \<Rightarrow> u16 \<Rightarrow> u16" where
  "MultiplyQ16 lhs rhs =
     (let product = (ucast lhs :: u32) * (ucast rhs :: u32);
          shifted = drop_bit 16 product;
          result = (if 0x8000 \<le> product AND 0xFFFF then shifted + 1 else shifted)
      in ucast (if 65535 < result then 65535 else result))"

definition SumQ16Products :: "u16 list \<Rightarrow> u16 \<Rightarrow> u16 \<Rightarrow> u16 \<Rightarrow> u16" where
  "SumQ16Products coefficients x y z =
     (let sum = (ucast (MultiplyQ16 (coefficients ! 0) x) :: u32)
                + ucast (MultiplyQ16 (coefficients ! 1) y)
                + ucast (MultiplyQ16 (coefficients ! 2) z)
      in ucast (if 65535 < sum then 65535 else sum))"

definition CubeQ16 :: "u16 \<Rightarrow> u16" where
  "CubeQ16 value = MultiplyQ16 (MultiplyQ16 value value) value"

definition CubeRootQ16 :: "u16 \<Rightarrow> u16" where
  "CubeRootQ16 value =
     (let low = bsearch (\<lambda>middle. CubeQ16 (of_nat middle) < value) 0 65535;
          upper = of_nat low :: u16;
          lower = of_nat (if low = 0 then 0 else low - 1) :: u16;
          upper_cube = CubeQ16 upper;
          lower_cube = CubeQ16 lower
      in if upper_cube < value then upper
         else if (word_of_int (uint value - uint lower_cube) :: u32)
                 \<le> word_of_int (uint upper_cube - uint value)
         then lower else upper)"

section \<open>Signed Q2.13 operations\<close>

definition RoundDivideSigned :: "int \<Rightarrow> int \<Rightarrow> int" where
  "RoundDivideSigned numerator denominator =
     (if 0 \<le> numerator then cdiv (numerator + cdiv denominator 2) denominator
      else - cdiv (- numerator + cdiv denominator 2) denominator)"

definition dot3 :: "int list \<Rightarrow> int \<Rightarrow> int \<Rightarrow> int \<Rightarrow> int" where
  "dot3 coefficients x y z = coefficients ! 0 * x + coefficients ! 1 * y + coefficients ! 2 * z"

definition Dot3Q13 :: "int list \<Rightarrow> int \<Rightarrow> int \<Rightarrow> int \<Rightarrow> int" where
  "Dot3Q13 coefficients x y z = RoundDivideSigned (dot3 coefficients x y z) kQ13One"

definition Dot3Q12CoefficientsToQ13 :: "int list \<Rightarrow> int \<Rightarrow> int \<Rightarrow> int \<Rightarrow> int" where
  "Dot3Q12CoefficientsToQ13 coefficients x y z =
     RoundDivideSigned (dot3 coefficients x y z) kQ12CoefficientScale"

definition CubeQ13 :: "int \<Rightarrow> int" where
  "CubeQ13 value =
     (let square = cdiv (value * value + cdiv kQ13One 2) kQ13One
      in cdiv (square * value + cdiv kQ13One 2) kQ13One)"

definition ClampQ13Root :: "int \<Rightarrow> int" where
  "ClampQ13Root value = (if value < 0 then 0 else if kQ13One < value then kQ13One else value)"

definition EncodeSrgbQ13 :: "int \<Rightarrow> u8" where
  "EncodeSrgbQ13 linear =
     (let target_q16 = push_bit 3 (word_of_int linear) :: u32;
          low = bsearch (\<lambda>middle. ucast (kSrgbToLinearQ16 ! middle) < target_q16) 0 256
      in if low = 0 then 0
         else if 256 \<le> low then 255
         else
           let lower_distance = target_q16 - ucast (kSrgbToLinearQ16 ! (low - 1));
               upper_distance = ucast (kSrgbToLinearQ16 ! low) - target_q16
           in of_nat (if lower_distance \<le> upper_distance then low - 1 else low))"

definition InterpolateMagnitude :: "u32 \<Rightarrow> u16 \<Rightarrow> u16 \<Rightarrow> u32" where
  "InterpolateMagnitude magnitude elapsed_ms duration_ms =
     (let whole = magnitude div ucast duration_ms;
          remainder = magnitude mod ucast duration_ms;
          partial = remainder * ucast elapsed_ms;
          result = whole * ucast elapsed_ms + partial div ucast duration_ms;
          fractional_remainder = partial mod ucast duration_ms
      in if ucast duration_ms \<le> fractional_remainder * 2 then result + 1 else result)"

definition InterpolateComponent :: "int \<Rightarrow> int \<Rightarrow> u16 \<Rightarrow> u16 \<Rightarrow> int" where
  "InterpolateComponent source target elapsed_ms duration_ms =
     (if duration_ms = 0 \<or> duration_ms \<le> elapsed_ms then target
      else if elapsed_ms = 0 then source
      else
        let difference = target - source;
            magnitude = word_of_int (if difference < 0 then - difference else difference) :: u32;
            change = sint (InterpolateMagnitude magnitude elapsed_ms duration_ms);
            value = (if difference < 0 then source - change else source + change)
        in i16 value)"

section \<open>Conversions\<close>

definition LmsRoot :: "u16 \<Rightarrow> int" where
  "LmsRoot x = uint (((ucast (CubeRootQ16 x) :: u32) + 4) div 8)"

definition ToOklab :: "RgbColor \<Rightarrow> OklabColor" where
  "ToOklab c =
     (let r = kSrgbToLinearQ16 ! unat (red c);
          g = kSrgbToLinearQ16 ! unat (green c);
          b = kSrgbToLinearQ16 ! unat (blue c);
          l = SumQ16Products kLinearRgbToLmsQ16 r g b;
          m = SumQ16Products (drop 3 kLinearRgbToLmsQ16) r g b;
          s = SumQ16Products (drop 6 kLinearRgbToLmsQ16) r g b;
          l_root = LmsRoot l;
          m_root = LmsRoot m;
          s_root = LmsRoot s
      in lab (i16 (Dot3Q13 kLmsRootToOklabQ13 l_root m_root s_root))
           (i16 (Dot3Q13 (drop 3 kLmsRootToOklabQ13) l_root m_root s_root))
           (i16 (Dot3Q13 (drop 6 kLmsRootToOklabQ13) l_root m_root s_root)))"

definition FromOklab :: "OklabColor \<Rightarrow> RgbColor" where
  "FromOklab c =
     (let l_root = ClampQ13Root (Dot3Q13 kOklabToLmsRootQ13 (lab_l c) (lab_a c) (lab_b c));
          m_root = ClampQ13Root (Dot3Q13 (drop 3 kOklabToLmsRootQ13) (lab_l c) (lab_a c) (lab_b c));
          s_root = ClampQ13Root (Dot3Q13 (drop 6 kOklabToLmsRootQ13) (lab_l c) (lab_a c) (lab_b c));
          l = CubeQ13 l_root;
          m = CubeQ13 m_root;
          s = CubeQ13 s_root;
          red = ClampQ13Root (Dot3Q12CoefficientsToQ13 kLmsCubeToLinearRgbQ12 l m s);
          green = ClampQ13Root (Dot3Q12CoefficientsToQ13 (drop 3 kLmsCubeToLinearRgbQ12) l m s);
          blue = ClampQ13Root (Dot3Q12CoefficientsToQ13 (drop 6 kLmsCubeToLinearRgbQ12) l m s)
      in rgb (EncodeSrgbQ13 red) (EncodeSrgbQ13 green) (EncodeSrgbQ13 blue))"

definition Interpolate :: "OklabColor \<Rightarrow> OklabColor \<Rightarrow> u16 \<Rightarrow> u16 \<Rightarrow> OklabColor" where
  "Interpolate source target elapsed_ms duration_ms =
     (if duration_ms = 0 \<or> duration_ms \<le> elapsed_ms then target
      else if elapsed_ms = 0 then source
      else lab (InterpolateComponent (lab_l source) (lab_l target) elapsed_ms duration_ms)
             (InterpolateComponent (lab_a source) (lab_a target) elapsed_ms duration_ms)
             (InterpolateComponent (lab_b source) (lab_b target) elapsed_ms duration_ms))"

definition InterpolateRgb :: "RgbColor \<Rightarrow> RgbColor \<Rightarrow> u16 \<Rightarrow> u16 \<Rightarrow> RgbColor" where
  "InterpolateRgb source target elapsed_ms duration_ms =
     (if duration_ms = 0 \<or> duration_ms \<le> elapsed_ms then target
      else if elapsed_ms = 0 then source
      else FromOklab (Interpolate (ToOklab source) (ToOklab target) elapsed_ms duration_ms))"

section \<open>The static assertions\<close>

text \<open>
  The compile-time checks of the source. The absolute row sum bounds a row's product with any
  vector, which is what makes the checks on it a range proof.
\<close>

definition AbsRowSum :: "int list \<Rightarrow> nat \<Rightarrow> int" where
  "AbsRowSum matrix row = \<bar>matrix ! (row * 3)\<bar> + \<bar>matrix ! (row * 3 + 1)\<bar> + \<bar>matrix ! (row * 3 + 2)\<bar>"

definition table_asserts :: bool where
  "table_asserts \<longleftrightarrow> length kSrgbToLinearQ16 * 2 = 512 \<and> kSrgbToLinearQ16 ! 0 = 0 \<and> kSrgbToLinearQ16 ! 255 = 65535"

definition range_asserts :: bool where
  "range_asserts \<longleftrightarrow>
     (65535 * 65535 :: int) < 4294967295
     \<and> (\<forall>row\<in>set [0, 1, 2]. AbsRowSum kLmsRootToOklabQ13 row * kQ13One < 2147483647)
     \<and> (\<forall>row\<in>set [0, 1, 2]. AbsRowSum kOklabToLmsRootQ13 row * 32768 < 2147483647)
     \<and> (\<forall>row\<in>set [0, 1, 2]. AbsRowSum kLmsCubeToLinearRgbQ12 row * kQ13One < 2147483647)
     \<and> AbsRowSum kLmsRootToOklabQ13 0 < 32768
     \<and> \<bar>kLmsRootToOklabQ13 ! 3\<bar> + \<bar>kLmsRootToOklabQ13 ! 5\<bar> < 32768
     \<and> \<bar>kLmsRootToOklabQ13 ! 6\<bar> + \<bar>kLmsRootToOklabQ13 ! 7\<bar>
         + \<bar>kLmsRootToOklabQ13 ! 6 + kLmsRootToOklabQ13 ! 7 + kLmsRootToOklabQ13 ! 8\<bar> < 32768"

lemma asserts_hold: "table_asserts" "range_asserts"
  by code_simp+

lemma AbsRowSum_bounds_products:
  assumes "\<bar>x\<bar> \<le> b" "\<bar>y\<bar> \<le> b" "\<bar>z\<bar> \<le> b" "row * 3 + 2 < length matrix"
  shows "\<bar>dot3 (drop (row * 3) matrix) x y z\<bar> \<le> AbsRowSum matrix row * b"
proof -
  have "\<bar>c * v\<bar> \<le> \<bar>c\<bar> * b" if "\<bar>v\<bar> \<le> b" for c v :: int
    using that by (simp add: abs_mult mult_left_mono)
  note p = this [OF assms(1), of "matrix ! (row * 3)"] this [OF assms(2), of "matrix ! (row * 3 + 1)"]
    this [OF assms(3), of "matrix ! (row * 3 + 2)"]
  have "dot3 (drop (row * 3) matrix) x y z
      = matrix ! (row * 3) * x + matrix ! (row * 3 + 1) * y + matrix ! (row * 3 + 2) * z"
    using assms(4) by (simp add: dot3_def)
  then show ?thesis unfolding AbsRowSum_def distrib_right using p by linarith
qed

text \<open>The largest partial sum the comment of the source gives for each matrix.\<close>

lemma product_ranges:
  assumes "row < 3"
  shows "\<bar>x\<bar> \<le> 8192 \<Longrightarrow> \<bar>y\<bar> \<le> 8192 \<Longrightarrow> \<bar>z\<bar> \<le> 8192 \<Longrightarrow> \<bar>dot3 (drop (row * 3) kLmsRootToOklabQ13) x y z\<bar> \<le> 326369280"
    "\<bar>x\<bar> \<le> 32768 \<Longrightarrow> \<bar>y\<bar> \<le> 32768 \<Longrightarrow> \<bar>z\<bar> \<le> 32768 \<Longrightarrow> \<bar>dot3 (drop (row * 3) kOklabToLmsRootQ13) x y z\<bar> \<le> 639139840"
    "\<bar>x\<bar> \<le> 8192 \<Longrightarrow> \<bar>y\<bar> \<le> 8192 \<Longrightarrow> \<bar>z\<bar> \<le> 8192 \<Longrightarrow> \<bar>dot3 (drop (row * 3) kLmsCubeToLinearRgbQ12) x y z\<bar> \<le> 255524864"
proof -
  have row: "row = 0 \<or> row = 1 \<or> row = 2" using assms by auto
  have l: "row * 3 + 2 < length kLmsRootToOklabQ13" "row * 3 + 2 < length kOklabToLmsRootQ13"
    "row * 3 + 2 < length kLmsCubeToLinearRgbQ12" using row by (auto simp: matrix_defs)
  have s: "AbsRowSum kLmsRootToOklabQ13 row * 8192 \<le> 326369280" "AbsRowSum kOklabToLmsRootQ13 row * 32768 \<le> 639139840"
    "AbsRowSum kLmsCubeToLinearRgbQ12 row * 8192 \<le> 255524864"
    using row by (auto simp: AbsRowSum_def matrix_defs)
  show "\<bar>x\<bar> \<le> 8192 \<Longrightarrow> \<bar>y\<bar> \<le> 8192 \<Longrightarrow> \<bar>z\<bar> \<le> 8192 \<Longrightarrow> \<bar>dot3 (drop (row * 3) kLmsRootToOklabQ13) x y z\<bar> \<le> 326369280"
    by (rule order.trans [OF AbsRowSum_bounds_products [OF _ _ _ l(1)] s(1)])
  show "\<bar>x\<bar> \<le> 32768 \<Longrightarrow> \<bar>y\<bar> \<le> 32768 \<Longrightarrow> \<bar>z\<bar> \<le> 32768 \<Longrightarrow> \<bar>dot3 (drop (row * 3) kOklabToLmsRootQ13) x y z\<bar> \<le> 639139840"
    by (rule order.trans [OF AbsRowSum_bounds_products [OF _ _ _ l(2)] s(2)])
  show "\<bar>x\<bar> \<le> 8192 \<Longrightarrow> \<bar>y\<bar> \<le> 8192 \<Longrightarrow> \<bar>z\<bar> \<le> 8192 \<Longrightarrow> \<bar>dot3 (drop (row * 3) kLmsCubeToLinearRgbQ12) x y z\<bar> \<le> 255524864"
    by (rule order.trans [OF AbsRowSum_bounds_products [OF _ _ _ l(3)] s(3)])
qed

section \<open>Rounding multiplication and cube root\<close>

lemma unat_u32_low_half: "unat (w AND 0xFFFF :: u32) = unat w mod 65536"
proof -
  have "w AND 0xFFFF = take_bit 16 w"
    by (simp add: take_bit_eq_mask mask_numeral)
  then show ?thesis by (simp add: take_bit_eq_mod unat_mod_distrib)
qed

lemma unat_u32_high_half: "unat (drop_bit 16 w :: u32) = unat w div 65536"
  by (simp add: drop_bit_eq_div unat_div_distrib)

lemma div_add_rem: "0 < (k::nat) \<Longrightarrow> (n + h) div k = n div k + (n mod k + h) div k"
  by (metis ab_semigroup_add_class.add_ac(1) div_mult_mod_eq div_mult_self3 not_gr_zero)

lemma div_round_half:
  "(n + 32768) div 65536 = (if 32768 \<le> n mod 65536 then n div 65536 + 1 else n div (65536::nat))"
proof -
  have "(n mod 65536 + 32768) div 65536 = (if 32768 \<le> n mod 65536 then 1 else (0::nat))"
    using mod_less_divisor [of 65536 n] by (auto intro: div_nat_eqI)
  then show ?thesis by (subst div_add_rem) simp_all
qed

lemma unat_MultiplyQ16: "unat (MultiplyQ16 a b) = (unat a * unat b + 32768) div 65536"
proof -
  define p where "p = (ucast a :: u32) * ucast b"
  have "unat a * unat b \<le> 65535 * 65535" by (intro mult_le_mono) simp_all
  then have p: "unat p = unat a * unat b" and lim: "unat p \<le> 65535 * 65535"
    by (simp_all add: p_def unat_mult_u32 word_nat)
  define r where "r = (if 0x8000 \<le> p AND 0xFFFF then drop_bit 16 p + 1 else drop_bit 16 p)"
  have "unat p div 65536 \<le> 65534" using lim by simp
  then have "unat (drop_bit 16 p + 1) = unat p div 65536 + 1"
    by (simp add: unat_add_u32 unat_u32_high_half)
  moreover have "(unat p + 32768) div 65536
      = (if 32768 \<le> unat p mod 65536 then unat p div 65536 + 1 else unat p div 65536)"
    by (rule div_round_half)
  ultimately have r: "unat r = (unat p + 32768) div 65536"
    by (simp add: r_def word_le_nat_alt unat_u32_low_half unat_u32_high_half)
  have small: "(unat p + 32768) div 65536 \<le> 65535" using lim by simp
  then have "\<not> 65535 < r" using r by (simp add: word_less_nat_alt)
  then show ?thesis
    using small r p by (simp add: MultiplyQ16_def Let_def word_nat flip: p_def r_def)
qed

lemma MultiplyQ16_mono: "a \<le> a' \<Longrightarrow> b \<le> b' \<Longrightarrow> MultiplyQ16 a b \<le> MultiplyQ16 a' b'"
  by (simp add: word_le_nat_alt unat_MultiplyQ16 div_le_mono mult_le_mono)

lemma CubeQ16_mono: "a \<le> b \<Longrightarrow> CubeQ16 a \<le> CubeQ16 b"
  by (simp add: CubeQ16_def MultiplyQ16_mono)

lemma of_nat_u16_mono: "m \<le> n \<Longrightarrow> n < 65536 \<Longrightarrow> (of_nat m :: u16) \<le> of_nat n"
  by (simp add: word_le_nat_alt unsigned_of_nat take_bit_nat_eq_self)

text \<open>The search of the cube root satisfies the contract of the binary search.\<close>

interpretation cube_search: monotone_search "\<lambda>m. CubeQ16 (of_nat m) < v" 65536 for v :: u16
  by unfold_locales (blast intro: CubeQ16_mono of_nat_u16_mono le_less_trans)

lemma u16_of_nat_unat: "of_nat (unat x) = (x :: u16)"
  by simp

text \<open>The two candidates of the search bracket the argument.\<close>

lemma cube_search_bracket:
  fixes v :: u16
  defines "low \<equiv> bsearch (\<lambda>m. CubeQ16 (of_nat m) < v) 0 65535"
  shows "low \<le> 65535"
    and "unat x < low \<Longrightarrow> CubeQ16 x < v"
    and "low \<le> unat x \<Longrightarrow> unat x < 65535 \<Longrightarrow> v \<le> CubeQ16 x"
  using cube_search.bsearch_range [of 0 65535 v] cube_search.bsearch_below [of 65535 0 "unat x" v]
    cube_search.bsearch_not_below [of 65535 0 v "unat x"]
  by (simp_all add: low_def not_less)

lemma CubeRootQ16_nearest:
  "\<bar>uint (CubeQ16 (CubeRootQ16 v)) - uint v\<bar> \<le> \<bar>uint (CubeQ16 x) - uint v\<bar>"
proof -
  define low where "low = bsearch (\<lambda>m. CubeQ16 (of_nat m) < v) 0 65535"
  define up where "up = (of_nat low :: u16)"
  define dn where "dn = (of_nat (if low = 0 then 0 else low - 1) :: u16)"
  note br = cube_search_bracket [where v = v, folded low_def]
  have up: "unat up = low" and dn: "unat dn = low - 1"
    using br(1) by (auto simp: up_def dn_def unsigned_of_nat take_bit_nat_eq_self)
  have mono: "uint (CubeQ16 a) \<le> uint (CubeQ16 b)" if "unat a \<le> unat b" for a b :: u16
    using CubeQ16_mono [OF that [unfolded word_le_nat_alt [symmetric]]] by (simp only: word_le_def)
  show ?thesis
  proof (cases "CubeQ16 up < v")
    case True
    then have "low = 65535" using br(1) br(3) [of up] up by (metis le_neq_implies_less le_refl not_less)
    then have "uint (CubeQ16 x) \<le> uint (CubeQ16 up)" by (intro mono) (simp add: up)
    moreover have "CubeRootQ16 v = up"
      using True by (simp add: CubeRootQ16_def Let_def flip: low_def up_def)
    ultimately show ?thesis using True by (simp add: word_less_def)
  next
    case False
    then have upv: "uint v \<le> uint (CubeQ16 up)" by (simp only: word_le_def not_less)
    have dnv: "uint (CubeQ16 dn) \<le> uint v"
    proof (cases "low = 0")
      case True
      then show ?thesis by (simp add: dn_def CubeQ16_def MultiplyQ16_def)
    next
      case False
      with br(2) [of dn] show ?thesis by (simp add: dn word_less_def)
    qed
    have side: "uint (CubeQ16 x) \<le> uint (CubeQ16 dn) \<or> uint (CubeQ16 up) \<le> uint (CubeQ16 x)"
    proof (cases "unat x < low")
      case True
      then have "unat x \<le> unat dn" by (simp add: dn)
      then show ?thesis by (blast intro: mono)
    next
      case False
      then have "unat up \<le> unat x" by (simp add: up)
      then show ?thesis by (blast intro: mono)
    qed
    have root: "CubeRootQ16 v = (if uint v - uint (CubeQ16 dn) \<le> uint (CubeQ16 up) - uint v then dn else up)"
    proof -
      have "0 \<le> uint v - uint (CubeQ16 dn)" "uint v - uint (CubeQ16 dn) < 4294967296"
        "0 \<le> uint (CubeQ16 up) - uint v" "uint (CubeQ16 up) - uint v < 4294967296"
        using dnv upv uint_u16_lt [of v] uint_u16_lt [of "CubeQ16 up"] uint_ge_0 [of "CubeQ16 dn"]
          uint_ge_0 [of v] by linarith+
      then have "uint (word_of_int (uint v - uint (CubeQ16 dn)) :: u32) = uint v - uint (CubeQ16 dn)"
        "uint (word_of_int (uint (CubeQ16 up) - uint v) :: u32) = uint (CubeQ16 up) - uint v"
        by (simp_all only: uint_word_of_int) simp_all
      then show ?thesis
        using False
        by (simp only: CubeRootQ16_def Let_def word_le_def [where 'a = 32] if_False flip: low_def up_def dn_def)
    qed
    show ?thesis using side upv dnv by (auto simp: root)
  qed
qed

section \<open>Signed rounding and ranges\<close>

lemma i16_id: "fits_i16 x \<Longrightarrow> i16 x = x"
  by (simp add: fits_i16_def i16_def)

lemma RoundDivideSigned_abs:
  assumes "0 < d" and "\<bar>n\<bar> \<le> k * d"
  shows "\<bar>RoundDivideSigned n d\<bar> \<le> k"
proof -
  have half: "d div 2 div d = 0" using assms(1) by (simp add: div_pos_pos_trivial)
  have lim: "(m + d div 2) div d \<le> k" if "m \<le> k * d" for m
    using zdiv_mono1 [of "m + d div 2" "k * d + d div 2" d] that assms(1) half by simp
  have "0 \<le> (\<bar>n\<bar> + d div 2) div d" "(\<bar>n\<bar> + d div 2) div d \<le> k"
    using assms lim by (simp_all add: pos_imp_zdiv_nonneg_iff)
  then show ?thesis
    using assms(1) by (auto simp: RoundDivideSigned_def cdiv_nonneg split: if_splits)
qed

lemma uint_le_of_unat: "unat w \<le> n \<Longrightarrow> uint w \<le> int n"
  by (simp only: uint_nat of_nat_le_iff)

lemma LmsRoot_range: "LmsRoot x \<in> {0..8192}"
proof -
  have "unat ((ucast (CubeRootQ16 x) :: u32) + 4) = unat (CubeRootQ16 x) + 4"
    using unat_u16_le [of "CubeRootQ16 x"] by (simp add: unat_add_u32 word_nat del: unat_u16_le)
  moreover have "(unat (CubeRootQ16 x) + 4) div 8 \<le> 8192"
    using unat_u16_le [of "CubeRootQ16 x"] by linarith
  ultimately have "unat (((ucast (CubeRootQ16 x) :: u32) + 4) div 8) \<le> 8192"
    by (simp add: unat_div_distrib)
  then show ?thesis by (simp add: LmsRoot_def uint_le_of_unat [where n = 8192, simplified])
qed

text \<open>
  The three forward dot products: the coordinates they round to, and that the 32-bit sums and the
  rounding offset never overflow.
\<close>

lemma forward_rows:
  assumes "l \<in> {0..8192}" "m \<in> {0..8192}" "s \<in> {0..8192}"
  shows "\<bar>dot3 kLmsRootToOklabQ13 l m s\<bar> \<le> 8225 * 8192"
    and "\<bar>dot3 (drop 3 kLmsRootToOklabQ13) l m s\<bar> \<le> 19895 * 8192"
    and "\<bar>dot3 (drop 6 kLmsRootToOklabQ13) l m s\<bar> \<le> 6625 * 8192"
  using assms by (auto simp: dot3_def kLmsRootToOklabQ13_def abs_le_iff)

lemma ToOklab_coordinates:
  obtains l m s where "l \<in> {0..8192}" "m \<in> {0..8192}" "s \<in> {0..8192}"
    and "lab_l (ToOklab c) = Dot3Q13 kLmsRootToOklabQ13 l m s"
    and "lab_a (ToOklab c) = Dot3Q13 (drop 3 kLmsRootToOklabQ13) l m s"
    and "lab_b (ToOklab c) = Dot3Q13 (drop 6 kLmsRootToOklabQ13) l m s"
proof -
  let ?r = "kSrgbToLinearQ16 ! unat (red c)" and ?g = "kSrgbToLinearQ16 ! unat (green c)"
    and ?b = "kSrgbToLinearQ16 ! unat (blue c)"
  let ?l = "LmsRoot (SumQ16Products kLinearRgbToLmsQ16 ?r ?g ?b)"
    and ?m = "LmsRoot (SumQ16Products (drop 3 kLinearRgbToLmsQ16) ?r ?g ?b)"
    and ?s = "LmsRoot (SumQ16Products (drop 6 kLinearRgbToLmsQ16) ?r ?g ?b)"
  note rows = forward_rows [OF LmsRoot_range LmsRoot_range LmsRoot_range]
  have fit: "fits_i16 (Dot3Q13 cs ?l ?m ?s)" if "\<bar>dot3 cs ?l ?m ?s\<bar> \<le> k * 8192" "k \<le> 32767" for cs k
    using RoundDivideSigned_abs [of 8192 "dot3 cs ?l ?m ?s" k] that
    by (simp add: Dot3Q13_def kQ13One_def fits_i16_def abs_le_iff)
  show ?thesis
    using fit [OF rows(1)] fit [OF rows(2)] fit [OF rows(3)]
    by (intro that [OF LmsRoot_range LmsRoot_range LmsRoot_range])
       (simp_all only: ToOklab_def Let_def lab_sel i16_id)
qed

section \<open>Ranges of the inverse transform\<close>

lemma ClampQ13Root_range: "ClampQ13Root x \<in> {0..8192}"
  by (simp add: ClampQ13Root_def kQ13One_def)

lemma CubeQ13_range:
  assumes "x \<in> {0..8192}"
  shows "CubeQ13 x \<in> {0..8192}"
proof -
  define q where "q = (x * x + 4096) div 8192"
  have "x * x \<le> 8192 * 8192" using assms by (intro mult_mono) simp_all
  moreover have "0 \<le> x * x" by simp
  ultimately have q: "0 \<le> q" "q \<le> 8192" unfolding q_def by linarith+
  have "q * x \<le> 8192 * 8192" using assms q by (intro mult_mono) simp_all
  moreover have "0 \<le> q * x" using assms q by simp
  ultimately have "0 \<le> (q * x + 4096) div 8192" "(q * x + 4096) div 8192 \<le> 8192" by linarith+
  moreover have "CubeQ13 x = (q * x + 4096) div 8192"
    using \<open>0 \<le> x * x\<close> \<open>0 \<le> q * x\<close> by (simp add: CubeQ13_def kQ13One_def cdiv_nonneg q_def)
  ultimately show ?thesis by simp
qed

section \<open>Nearest sRGB code\<close>

lemma length_table: "length kSrgbToLinearQ16 = 256"
  by (simp add: kSrgbToLinearQ16_def)

definition table_gap :: "nat \<Rightarrow> nat \<Rightarrow> bool" where
  "table_gap a b \<longleftrightarrow> a + 19 \<le> b"

lemma transp_table_gap: "transp table_gap"
  by (auto simp: transp_def table_gap_def)

lemma sorted_table: "sorted_wrt table_gap (map unat kSrgbToLinearQ16)"
  by (simp add: kSrgbToLinearQ16_def sorted_wrt2 [OF transp_table_gap] sorted_wrt1 table_gap_def
      del: sorted_wrt.simps)

lemma table_step: "j < k \<Longrightarrow> k < 256 \<Longrightarrow> unat (kSrgbToLinearQ16 ! j) + 19 \<le> unat (kSrgbToLinearQ16 ! k)"
  using sorted_wrt_nth_less [OF sorted_table, of j k] by (simp add: length_table table_gap_def)

lemma table_mono: "j \<le> k \<Longrightarrow> k < 256 \<Longrightarrow> unat (kSrgbToLinearQ16 ! j) \<le> unat (kSrgbToLinearQ16 ! k)"
  using table_step [of j k] by (cases "j = k") auto

text \<open>The encoder's search satisfies the contract of the binary search.\<close>

interpretation srgb_search: monotone_search "\<lambda>m. ucast (kSrgbToLinearQ16 ! m) < t" 256 for t :: u32
  by unfold_locales (auto simp: word_less_nat_alt word_nat dest: table_mono intro: le_less_trans)

lemma unat_encoder_target:
  assumes "linear \<in> {0..8192}"
  shows "unat (push_bit 3 (word_of_int linear) :: u32) = 8 * nat linear"
proof -
  have "unat (word_of_int linear :: u32) = nat linear"
    using assms by (simp add: unsigned_of_int take_bit_int_eq_self)
  moreover have "nat linear \<le> 8192" using assms by (simp add: nat_le_iff)
  ultimately show ?thesis by (simp add: push_bit_eq_mult unat_mult_u32)
qed

lemma bracket_nearest:
  fixes a t b k :: int
  assumes "a < t" "t \<le> b" "k \<le> a \<or> b \<le> k"
  shows "\<bar>(if t - a \<le> b - t then a else b) - t\<bar> \<le> \<bar>k - t\<bar>"
  using assms by auto

lemma EncodeSrgbQ13_nearest:
  assumes lin: "linear \<in> {0..8192}" and k: "k < 256"
  shows "\<bar>int (unat (kSrgbToLinearQ16 ! unat (EncodeSrgbQ13 linear))) - 8 * linear\<bar>
         \<le> \<bar>int (unat (kSrgbToLinearQ16 ! k)) - 8 * linear\<bar>"
proof -
  define t where "t = (push_bit 3 (word_of_int linear) :: u32)"
  define low where "low = bsearch (\<lambda>m. ucast (kSrgbToLinearQ16 ! m) < t) 0 256"
  let ?tab = "\<lambda>i. unat (kSrgbToLinearQ16 ! i)"
  have t: "unat t = 8 * nat linear" and tl: "8 * linear = int (unat t)"
    using unat_encoder_target [OF lin] lin by (simp_all add: t_def)
  have low: "low \<le> 256" and below: "i < low \<Longrightarrow> ?tab i < unat t"
    and above: "low \<le> i \<Longrightarrow> i < 256 \<Longrightarrow> unat t \<le> ?tab i" for i
    using srgb_search.bsearch_range [of 0 256 t] srgb_search.bsearch_below [of 256 0 i t]
      srgb_search.bsearch_not_below [of 256 0 t i]
    by (simp_all add: low_def word_less_nat_alt word_nat not_less)
  consider "low = 0" | "low = 256" | "0 < low" "low < 256" using low by linarith
  then have "\<bar>int (?tab (unat (EncodeSrgbQ13 linear))) - int (unat t)\<bar> \<le> \<bar>int (?tab k) - int (unat t)\<bar>"
  proof cases
    case 1
    then have code: "unat (EncodeSrgbQ13 linear) = 0"
      by (simp add: EncodeSrgbQ13_def Let_def flip: t_def low_def)
    show ?thesis using above [of 0] table_mono [of 0 k] 1 k unfolding code by linarith
  next
    case 2
    then have code: "unat (EncodeSrgbQ13 linear) = 255"
      by (simp add: EncodeSrgbQ13_def Let_def flip: t_def low_def)
    show ?thesis using below [of k] below [of 255] table_mono [of k 255] 2 k unfolding code by linarith
  next
    case 3
    let ?d = "t - ucast (kSrgbToLinearQ16 ! (low - 1))" and ?u = "ucast (kSrgbToLinearQ16 ! low) - t"
    have d: "unat ?d = unat t - ?tab (low - 1)" and u: "unat ?u = ?tab low - unat t"
      using below [of "low - 1"] above [of low] 3 by (simp_all add: unat_diff_u32 word_nat)
    have code: "unat (EncodeSrgbQ13 linear) = (if unat ?d \<le> unat ?u then low - 1 else low)"
      using 3 by (simp add: EncodeSrgbQ13_def Let_def word_le_nat_alt unsigned_of_nat take_bit_nat_eq_self
          flip: t_def low_def)
    have side: "?tab k \<le> ?tab (low - 1) \<or> ?tab low \<le> ?tab k"
      using table_mono [of k "low - 1"] table_mono [of low k] 3 k by (cases "k < low") simp_all
    have br: "?tab (low - 1) < unat t" "unat t \<le> ?tab low" using below [of "low - 1"] above [of low] 3 by simp_all
    then have cmp: "unat ?d \<le> unat ?u \<longleftrightarrow> int (unat t) - int (?tab (low - 1)) \<le> int (?tab low) - int (unat t)"
      unfolding d u by linarith
    have "int (?tab (unat (EncodeSrgbQ13 linear))) =
        (if int (unat t) - int (?tab (low - 1)) \<le> int (?tab low) - int (unat t)
         then int (?tab (low - 1)) else int (?tab low))"
      unfolding code cmp by (simp only: if_distrib [where f = "\<lambda>i. int (?tab i)"])
    then show ?thesis
      using bracket_nearest [of "int (?tab (low - 1))" "int (unat t)" "int (?tab low)" "int (?tab k)"] br side
      by (simp only: of_nat_less_iff of_nat_le_iff)
  qed
  then show ?thesis by (simp only: tl)
qed

lemma EncodeSrgbQ13_decode:
  assumes k: "k < 256"
  shows "unat (EncodeSrgbQ13 (int ((unat (kSrgbToLinearQ16 ! k) + 4) div 8))) = k"
proof (rule ccontr)
  define n where "n = (unat (kSrgbToLinearQ16 ! k) + 4) div 8"
  define c where "c = unat (EncodeSrgbQ13 (int n))"
  assume "unat (EncodeSrgbQ13 (int ((unat (kSrgbToLinearQ16 ! k) + 4) div 8))) \<noteq> k"
  then have ne: "c \<noteq> k" by (simp add: c_def n_def)
  have n: "8 * n \<le> unat (kSrgbToLinearQ16 ! k) + 4" "unat (kSrgbToLinearQ16 ! k) + 4 < 8 * n + 8"
    unfolding n_def by simp_all
  then have "n \<le> 8192" using unat_u16_le [of "kSrgbToLinearQ16 ! k"] by linarith
  then have near: "\<bar>int (unat (kSrgbToLinearQ16 ! c)) - 8 * int n\<bar> \<le> \<bar>int (unat (kSrgbToLinearQ16 ! k)) - 8 * int n\<bar>"
    using EncodeSrgbQ13_nearest [of "int n" k] k by (simp add: c_def)
  have "c < 256" by (simp add: c_def)
  with ne k have "unat (kSrgbToLinearQ16 ! c) + 19 \<le> unat (kSrgbToLinearQ16 ! k) \<or>
      unat (kSrgbToLinearQ16 ! k) + 19 \<le> unat (kSrgbToLinearQ16 ! c)"
    using table_step [of c k] table_step [of k c] by linarith
  with near n show False by linarith
qed

section \<open>Interpolation\<close>

text \<open>The reference: the fraction \<open>m * e / d\<close> rounded to nearest, halves up.\<close>

definition round_fraction :: "nat \<Rightarrow> nat \<Rightarrow> nat \<Rightarrow> nat" where
  "round_fraction m e d = (2 * m * e + d) div (2 * d)"

lemma round_fraction_split:
  assumes "0 < d"
  shows "round_fraction m e d =
    m div d * e + m mod d * e div d + (if d \<le> m mod d * e mod d * 2 then 1 else 0)"
proof -
  define a where "a = m mod d * e div d"
  define b where "b = m mod d * e mod d"
  have re: "m mod d * e = a * d + b" by (simp add: a_def b_def)
  have "m * e = (m div d * d + m mod d) * e" by simp
  also have "\<dots> = m div d * e * d + m mod d * e" by (simp only: add_mult_distrib) (simp only: ac_simps)
  also have "\<dots> = (m div d * e + a) * d + b" unfolding re by (simp only: add_mult_distrib add.assoc)
  finally have "2 * m * e + d = (m div d * e + a) * (2 * d) + (2 * b + d)" by simp
  then have "round_fraction m e d = ((2 * b + d) + (m div d * e + a) * (2 * d)) div (2 * d)"
    by (simp only: round_fraction_def add.commute)
  then have "round_fraction m e d = m div d * e + a + (2 * b + d) div (2 * d)"
    using assms by (simp only: div_mult_self1)
  moreover have "(2 * b + d) div (2 * d) = (if d \<le> b * 2 then 1 else 0)"
    using assms mod_less_divisor [of d "m mod d * e"] unfolding b_def [symmetric]
    by (auto intro: div_nat_eqI)
  ultimately show ?thesis by (simp add: a_def b_def)
qed

lemma round_fraction_le: "0 < d \<Longrightarrow> e \<le> d \<Longrightarrow> round_fraction m e d \<le> m"
proof -
  assume d: "0 < d" "e \<le> d"
  then have "2 * m * e + d \<le> m * (2 * d) + d" by simp
  then have "round_fraction m e d \<le> (m * (2 * d) + d) div (2 * d)"
    unfolding round_fraction_def by (rule div_le_mono)
  with d show ?thesis by simp
qed

lemma round_fraction_ends: "0 < d \<Longrightarrow> round_fraction m 0 d = 0" "0 < d \<Longrightarrow> round_fraction m d d = m"
proof -
  assume d: "0 < d"
  then show "round_fraction m 0 d = 0" by (simp add: round_fraction_def)
  have "2 * m * d + d = m * (2 * d) + d" by simp
  then show "round_fraction m d d = m"
    unfolding round_fraction_def by (simp only:) (use d in simp)
qed

lemma round_fraction_mono: "e \<le> e' \<Longrightarrow> round_fraction m e d \<le> round_fraction m e' d"
  by (simp add: round_fraction_def div_le_mono mult_le_mono)

lemma unat_InterpolateMagnitude:
  assumes ed: "unat e < unat d"
  shows "unat (InterpolateMagnitude m e d) = round_fraction (unat m) (unat e) (unat d)"
proof -
  define w where "w = m div ucast d"
  define r where "r = m mod ucast d"
  have w: "unat w = unat m div unat d" and r: "unat r = unat m mod unat d"
    by (simp_all add: w_def r_def unat_div_distrib unat_mod_distrib word_nat)
  have rd: "unat r < unat d" using ed by (simp add: r)
  have "unat r * unat e \<le> 65535 * 65535"
    using rd unat_u16_le [of d] unat_u16_le [of e] by (intro mult_le_mono) linarith+
  then have p: "unat (r * ucast e) = unat r * unat e"
    by (simp add: unat_mult_u32 word_nat)
  have "unat w * unat e \<le> unat w * unat d" using ed by simp
  also have "\<dots> \<le> unat m" by (simp add: w)
  finally have we: "unat w * unat e \<le> unat m" .
  then have wu: "unat (w * ucast e) = unat w * unat e"
    using unat_u32_lt [of m] by (simp add: unat_mult_u32 word_nat del: unat_u32_lt)
  have tot: "unat w * unat e + unat r * unat e div unat d
      + (if unat d \<le> unat r * unat e mod unat d * 2 then 1 else 0)
      = round_fraction (unat m) (unat e) (unat d)"
    using ed by (simp add: round_fraction_split w r)
  moreover have "round_fraction (unat m) (unat e) (unat d) \<le> unat m"
    using ed by (simp add: round_fraction_le)
  ultimately have lim: "unat w * unat e + unat r * unat e div unat d
      + (if unat d \<le> unat r * unat e mod unat d * 2 then 1 else 0) < 4294967296"
    using unat_u32_lt [of m] by linarith
  define s where "s = w * ucast e + r * ucast e div ucast d"
  have s: "unat s = unat w * unat e + unat r * unat e div unat d"
    using lim by (simp add: s_def unat_add_u32 wu p unat_div_distrib word_nat)
  have "unat (r * ucast e mod ucast d :: u32) < 65536"
    using ed by (simp add: unat_mod_distrib word_nat less_trans [OF mod_less_divisor unat_u16_lt])
  then have f: "unat ((r * ucast e mod ucast d) * 2 :: u32) = unat r * unat e mod unat d * 2"
    by (simp add: unat_mult_u32 unat_mod_distrib word_nat p)
  have "unat (InterpolateMagnitude m e d) =
      (if unat d \<le> unat r * unat e mod unat d * 2 then unat (s + 1) else unat s)"
    by (simp add: InterpolateMagnitude_def Let_def word_le_nat_alt f word_nat flip: w_def r_def s_def)
  also have "\<dots> = unat s + (if unat d \<le> unat r * unat e mod unat d * 2 then 1 else 0)"
    using lim by (simp add: unat_add_u32 s split: if_splits)
  finally show ?thesis by (simp add: s tot)
qed

lemma sint_small_u32: "unat (w :: u32) < 2147483648 \<Longrightarrow> sint w = int (unat w)"
proof -
  assume "unat w < 2147483648"
  then have "- (2 ^ 31) \<le> int (unat w)" "int (unat w) < 2 ^ 31" by (simp_all del: of_nat_unat)
  then have "signed_take_bit 31 (int (unat w)) = int (unat w)" by (rule signed_take_bit_int_eq_self)
  then show ?thesis by (simp add: sint_uint)
qed

lemma InterpolateComponent_eq:
  assumes d: "d \<noteq> 0" "e \<le> d" and fit: "fits_i16 source" "fits_i16 target"
  shows "InterpolateComponent source target e d =
    source + sgn (target - source) * int (round_fraction (nat \<bar>target - source\<bar>) (unat e) (unat d))"
proof -
  have dpos: "0 < unat d" using d(1) by (simp add: unat_gt_0)
  consider "e = d" | "e \<noteq> d" "e = 0" | "e \<noteq> d" "e \<noteq> 0" by blast
  then show ?thesis
  proof cases
    case 1
    then show ?thesis using dpos by (simp add: InterpolateComponent_def round_fraction_ends sgn_if)
  next
    case 2
    then show ?thesis using dpos by (simp add: InterpolateComponent_def round_fraction_ends)
  next
    case 3
    then have ed: "unat e < unat d" using d(2) by (simp add: word_le_nat_alt word_unat_eq_iff)
    define k where "k = nat \<bar>target - source\<bar>"
    define m where "m = (word_of_int (if target - source < 0 then - (target - source) else target - source) :: u32)"
    have klim: "k \<le> 65535" using fit by (auto simp: k_def fits_i16_def)
    have "m = of_nat k" by (simp add: m_def k_def)
    then have m: "unat m = k" using klim by (simp add: unsigned_of_nat take_bit_nat_eq_self)
    define g where "g = round_fraction k (unat e) (unat d)"
    have g: "g \<le> k" using ed by (simp add: g_def round_fraction_le)
    have "unat (InterpolateMagnitude m e d) = g" by (simp add: unat_InterpolateMagnitude [OF ed] m g_def)
    then have ch: "sint (InterpolateMagnitude m e d) = int g"
      using g klim by (simp add: sint_small_u32)
    have v: "InterpolateComponent source target e d
        = i16 (if target - source < 0 then source - int g else source + int g)"
    proof -
      have c: "\<not> (d = 0 \<or> d \<le> e)" using d ed by (simp add: word_le_nat_alt)
      show ?thesis
        unfolding InterpolateComponent_def Let_def m_def [symmetric] ch using c 3 by (simp only: if_False)
    qed
    also have "\<dots> = (if target - source < 0 then source - int g else source + int g)"
      using g fit by (intro i16_id) (auto simp: fits_i16_def k_def)
    also have "\<dots> = source + sgn (target - source) * int g"
      using g by (auto simp: sgn_if k_def)
    finally show ?thesis by (simp add: g_def k_def)
  qed
qed

section \<open>Checked arithmetic\<close>

text \<open>
  The routines with signed 32-bit arithmetic once more, from the same lines, with the result of
  every multiplication, addition, subtraction and negation on an \<^verbatim>\<open>int32_t\<close>, in the order C++
  evaluates it, checked to be representable, and every narrowing to \<^verbatim>\<open>int16_t\<close> checked to keep the
  value. \<open>None\<close> is undefined behaviour or a changed value. Divisions are by a positive constant, so
  they cannot overflow.
\<close>

definition in_i32 :: "int \<Rightarrow> int option" where
  "in_i32 x = (if fits_i32 x then Some x else None)"

definition in_i16 :: "int \<Rightarrow> int option" where
  "in_i16 x = (if fits_i16 x then Some x else None)"

definition RoundDivideSigned_checked :: "int \<Rightarrow> int \<Rightarrow> int option" where
  "RoundDivideSigned_checked numerator denominator =
     (if 0 \<le> numerator then do {
        sum \<leftarrow> in_i32 (numerator + cdiv denominator 2);
        Some (cdiv sum denominator)
      } else do {
        negated \<leftarrow> in_i32 (- numerator);
        sum \<leftarrow> in_i32 (negated + cdiv denominator 2);
        in_i32 (- cdiv sum denominator)
      })"

definition dot3_checked :: "int list \<Rightarrow> int \<Rightarrow> int \<Rightarrow> int \<Rightarrow> int option" where
  "dot3_checked coefficients x y z = do {
     px \<leftarrow> in_i32 (coefficients ! 0 * x);
     py \<leftarrow> in_i32 (coefficients ! 1 * y);
     pxy \<leftarrow> in_i32 (px + py);
     pz \<leftarrow> in_i32 (coefficients ! 2 * z);
     in_i32 (pxy + pz)
   }"

definition Dot3Q13_checked :: "int list \<Rightarrow> int \<Rightarrow> int \<Rightarrow> int \<Rightarrow> int option" where
  "Dot3Q13_checked coefficients x y z = do {
     sum \<leftarrow> dot3_checked coefficients x y z;
     RoundDivideSigned_checked sum kQ13One
   }"

definition Dot3Q12CoefficientsToQ13_checked :: "int list \<Rightarrow> int \<Rightarrow> int \<Rightarrow> int \<Rightarrow> int option" where
  "Dot3Q12CoefficientsToQ13_checked coefficients x y z = do {
     sum \<leftarrow> dot3_checked coefficients x y z;
     RoundDivideSigned_checked sum kQ12CoefficientScale
   }"

definition CubeQ13_checked :: "int \<Rightarrow> int option" where
  "CubeQ13_checked value = do {
     product \<leftarrow> in_i32 (value * value);
     sum \<leftarrow> in_i32 (product + cdiv kQ13One 2);
     let square = cdiv sum kQ13One;
     product' \<leftarrow> in_i32 (square * value);
     sum' \<leftarrow> in_i32 (product' + cdiv kQ13One 2);
     Some (cdiv sum' kQ13One)
   }"

definition FromOklab_checked :: "OklabColor \<Rightarrow> RgbColor option" where
  "FromOklab_checked c = do {
     dl \<leftarrow> Dot3Q13_checked kOklabToLmsRootQ13 (lab_l c) (lab_a c) (lab_b c);
     dm \<leftarrow> Dot3Q13_checked (drop 3 kOklabToLmsRootQ13) (lab_l c) (lab_a c) (lab_b c);
     ds \<leftarrow> Dot3Q13_checked (drop 6 kOklabToLmsRootQ13) (lab_l c) (lab_a c) (lab_b c);
     l \<leftarrow> CubeQ13_checked (ClampQ13Root dl);
     m \<leftarrow> CubeQ13_checked (ClampQ13Root dm);
     s \<leftarrow> CubeQ13_checked (ClampQ13Root ds);
     red \<leftarrow> Dot3Q12CoefficientsToQ13_checked kLmsCubeToLinearRgbQ12 l m s;
     green \<leftarrow> Dot3Q12CoefficientsToQ13_checked (drop 3 kLmsCubeToLinearRgbQ12) l m s;
     blue \<leftarrow> Dot3Q12CoefficientsToQ13_checked (drop 6 kLmsCubeToLinearRgbQ12) l m s;
     Some (rgb (EncodeSrgbQ13 (ClampQ13Root red)) (EncodeSrgbQ13 (ClampQ13Root green)) (EncodeSrgbQ13 (ClampQ13Root blue)))
   }"

definition ToOklab_checked :: "RgbColor \<Rightarrow> OklabColor option" where
  "ToOklab_checked c =
     (let r = kSrgbToLinearQ16 ! unat (red c);
          g = kSrgbToLinearQ16 ! unat (green c);
          b = kSrgbToLinearQ16 ! unat (blue c);
          l_root = LmsRoot (SumQ16Products kLinearRgbToLmsQ16 r g b);
          m_root = LmsRoot (SumQ16Products (drop 3 kLinearRgbToLmsQ16) r g b);
          s_root = LmsRoot (SumQ16Products (drop 6 kLinearRgbToLmsQ16) r g b)
      in do {
        l \<leftarrow> Option.bind (Dot3Q13_checked kLmsRootToOklabQ13 l_root m_root s_root) in_i16;
        a \<leftarrow> Option.bind (Dot3Q13_checked (drop 3 kLmsRootToOklabQ13) l_root m_root s_root) in_i16;
        b \<leftarrow> Option.bind (Dot3Q13_checked (drop 6 kLmsRootToOklabQ13) l_root m_root s_root) in_i16;
        Some (lab l a b)
      })"

definition InterpolateComponent_checked :: "int \<Rightarrow> int \<Rightarrow> u16 \<Rightarrow> u16 \<Rightarrow> int option" where
  "InterpolateComponent_checked source target elapsed_ms duration_ms =
     (if duration_ms = 0 \<or> duration_ms \<le> elapsed_ms then Some target
      else if elapsed_ms = 0 then Some source
      else do {
        difference \<leftarrow> in_i32 (target - source);
        distance \<leftarrow> (if difference < 0 then in_i32 (- difference) else Some difference);
        let magnitude = (word_of_int distance :: u32);
        change \<leftarrow> in_i32 (uint (InterpolateMagnitude magnitude elapsed_ms duration_ms));
        result \<leftarrow> in_i32 (if difference < 0 then source - change else source + change);
        in_i16 result
      })"

definition Interpolate_checked :: "OklabColor \<Rightarrow> OklabColor \<Rightarrow> u16 \<Rightarrow> u16 \<Rightarrow> OklabColor option" where
  "Interpolate_checked source target elapsed_ms duration_ms =
     (if duration_ms = 0 \<or> duration_ms \<le> elapsed_ms then Some target
      else if elapsed_ms = 0 then Some source
      else do {
        l \<leftarrow> InterpolateComponent_checked (lab_l source) (lab_l target) elapsed_ms duration_ms;
        a \<leftarrow> InterpolateComponent_checked (lab_a source) (lab_a target) elapsed_ms duration_ms;
        b \<leftarrow> InterpolateComponent_checked (lab_b source) (lab_b target) elapsed_ms duration_ms;
        Some (lab l a b)
      })"

definition InterpolateRgb_checked :: "RgbColor \<Rightarrow> RgbColor \<Rightarrow> u16 \<Rightarrow> u16 \<Rightarrow> RgbColor option" where
  "InterpolateRgb_checked source target elapsed_ms duration_ms =
     (if duration_ms = 0 \<or> duration_ms \<le> elapsed_ms then Some target
      else if elapsed_ms = 0 then Some source
      else do {
        from_lab \<leftarrow> ToOklab_checked source;
        to_lab \<leftarrow> ToOklab_checked target;
        sample \<leftarrow> Interpolate_checked from_lab to_lab elapsed_ms duration_ms;
        FromOklab_checked sample
      })"

section \<open>No signed overflow\<close>

lemma in_range [simp]: "fits_i32 x \<Longrightarrow> in_i32 x = Some x" "fits_i16 x \<Longrightarrow> in_i16 x = Some x"
  by (simp_all add: in_i32_def in_i16_def)

lemma fits_i32_abs: "\<bar>x\<bar> \<le> 2147483647 \<Longrightarrow> fits_i32 x"
  by (auto simp: fits_i32_def)

lemma RoundDivideSigned_fits:
  assumes "0 < d" "d \<le> 8192" "\<bar>n\<bar> \<le> 2147479551"
  shows "RoundDivideSigned_checked n d = Some (RoundDivideSigned n d)"
proof -
  have h: "0 \<le> cdiv d 2" "cdiv d 2 \<le> 4096" using assms(1,2) by (simp_all add: cdiv_nonneg)
  have c: "\<bar>cdiv (- n + cdiv d 2) d\<bar> \<le> 2147483647" if "n < 0"
  proof (rule cdiv_bounds [OF assms(1)])
    have "2147483647 * 1 \<le> 2147483647 * d" using assms(1) by (intro mult_left_mono) simp_all
    then show "\<bar>- n + cdiv d 2\<bar> \<le> 2147483647 * d" using assms(3) h that by linarith
  qed
  have "0 \<le> n \<Longrightarrow> fits_i32 (n + cdiv d 2)" "fits_i32 (- n)" "n < 0 \<Longrightarrow> fits_i32 (- n + cdiv d 2)"
    using assms(3) h by (simp_all only: fits_i32_def) linarith+
  moreover have "n < 0 \<Longrightarrow> fits_i32 (- cdiv (- n + cdiv d 2) d)" using c by (intro fits_i32_abs) simp
  ultimately show ?thesis by (simp add: RoundDivideSigned_checked_def RoundDivideSigned_def)
qed

lemma dot3_fits:
  assumes "\<bar>c0 * x\<bar> + \<bar>c1 * y\<bar> + \<bar>c2 * z\<bar> \<le> 2147479551"
  shows "dot3_checked (c0 # c1 # c2 # cs) x y z = Some (dot3 (c0 # c1 # c2 # cs) x y z)"
    and "\<bar>dot3 (c0 # c1 # c2 # cs) x y z\<bar> \<le> 2147479551"
proof -
  have "fits_i32 (c0 * x)" "fits_i32 (c1 * y)" "fits_i32 (c2 * z)" "fits_i32 (c0 * x + c1 * y)"
    "fits_i32 (c0 * x + c1 * y + c2 * z)"
    using assms by (auto simp: fits_i32_def)
  then show "dot3_checked (c0 # c1 # c2 # cs) x y z = Some (dot3 (c0 # c1 # c2 # cs) x y z)"
    by (simp add: dot3_checked_def dot3_def numeral_2_eq_2)
  show "\<bar>dot3 (c0 # c1 # c2 # cs) x y z\<bar> \<le> 2147479551"
    using assms by (auto simp: dot3_def numeral_2_eq_2)
qed

lemma Dot3_fits:
  assumes "\<bar>c0 * x\<bar> + \<bar>c1 * y\<bar> + \<bar>c2 * z\<bar> \<le> 2147479551"
  shows "Dot3Q13_checked (c0 # c1 # c2 # cs) x y z = Some (Dot3Q13 (c0 # c1 # c2 # cs) x y z)"
    and "Dot3Q12CoefficientsToQ13_checked (c0 # c1 # c2 # cs) x y z = Some (Dot3Q12CoefficientsToQ13 (c0 # c1 # c2 # cs) x y z)"
  using RoundDivideSigned_fits [OF _ _ dot3_fits(2) [OF assms]]
  by (simp_all add: Dot3Q13_checked_def Dot3Q12CoefficientsToQ13_checked_def dot3_fits(1) [OF assms]
      Dot3Q13_def Dot3Q12CoefficientsToQ13_def kQ13One_def kQ12CoefficientScale_def)

text \<open>The products of each matrix with a vector its static assertion admits.\<close>

lemma abs_product_le: "\<bar>x\<bar> \<le> b \<Longrightarrow> \<bar>c * x\<bar> \<le> \<bar>c\<bar> * (b :: int)"
  by (simp add: abs_mult mult_left_mono)

lemma Dot3_row_fits:
  assumes "\<bar>x\<bar> \<le> b" "\<bar>y\<bar> \<le> b" "\<bar>z\<bar> \<le> b" "(\<bar>c0\<bar> + \<bar>c1\<bar> + \<bar>c2\<bar>) * b \<le> 2147479551"
  shows "Dot3Q13_checked (c0 # c1 # c2 # cs) x y z = Some (Dot3Q13 (c0 # c1 # c2 # cs) x y z)"
    and "Dot3Q12CoefficientsToQ13_checked (c0 # c1 # c2 # cs) x y z = Some (Dot3Q12CoefficientsToQ13 (c0 # c1 # c2 # cs) x y z)"
  using assms(4) abs_product_le [OF assms(1), of c0] abs_product_le [OF assms(2), of c1] abs_product_le [OF assms(3), of c2]
  by (auto simp only: distrib_right intro!: Dot3_fits)

lemma matrix_rows_fit:
  shows "\<bar>x\<bar> \<le> 32768 \<Longrightarrow> \<bar>y\<bar> \<le> 32768 \<Longrightarrow> \<bar>z\<bar> \<le> 32768 \<Longrightarrow> k \<in> {0, 3, 6} \<Longrightarrow>
      Dot3Q13_checked (drop k kOklabToLmsRootQ13) x y z = Some (Dot3Q13 (drop k kOklabToLmsRootQ13) x y z)"
    and "\<bar>x\<bar> \<le> 8192 \<Longrightarrow> \<bar>y\<bar> \<le> 8192 \<Longrightarrow> \<bar>z\<bar> \<le> 8192 \<Longrightarrow> k \<in> {0, 3, 6} \<Longrightarrow>
      Dot3Q13_checked (drop k kLmsRootToOklabQ13) x y z = Some (Dot3Q13 (drop k kLmsRootToOklabQ13) x y z)"
    and "\<bar>x\<bar> \<le> 8192 \<Longrightarrow> \<bar>y\<bar> \<le> 8192 \<Longrightarrow> \<bar>z\<bar> \<le> 8192 \<Longrightarrow> k \<in> {0, 3, 6} \<Longrightarrow>
      Dot3Q12CoefficientsToQ13_checked (drop k kLmsCubeToLinearRgbQ12) x y z
        = Some (Dot3Q12CoefficientsToQ13 (drop k kLmsCubeToLinearRgbQ12) x y z)"
  by (elim insertE emptyE; simp add: matrix_defs Dot3_row_fits [where b = 32768] Dot3_row_fits [where b = 8192])+

lemma CubeQ13_fits:
  assumes "x \<in> {0..8192}"
  shows "CubeQ13_checked x = Some (CubeQ13 x)"
proof -
  define q where "q = cdiv (x * x + cdiv kQ13One 2) kQ13One"
  have half: "cdiv kQ13One 2 = 4096" by (simp add: kQ13One_def cdiv_nonneg)
  have xx: "0 \<le> x * x" "x * x \<le> 8192 * 8192" using assms by (simp, intro mult_mono) simp_all
  then have "0 \<le> q" "q \<le> 8192" by (simp_all add: q_def half kQ13One_def cdiv_nonneg pos_imp_zdiv_nonneg_iff)
  then have qx: "0 \<le> q * x" "q * x \<le> 8192 * 8192" using assms by (simp, intro mult_mono) simp_all
  have "fits_i32 (x * x)" "fits_i32 (x * x + 4096)" "fits_i32 (q * x)" "fits_i32 (q * x + 4096)"
    unfolding fits_i32_def using xx qx by linarith+
  then show ?thesis by (simp add: CubeQ13_checked_def CubeQ13_def Let_def half flip: q_def)
     (simp add: q_def half)
qed

lemma ClampQ13Root_abs: "\<bar>ClampQ13Root x\<bar> \<le> 8192"
  using ClampQ13Root_range [of x] by simp

lemma CubeQ13_abs: "\<bar>CubeQ13 (ClampQ13Root x)\<bar> \<le> 8192"
  using CubeQ13_range [OF ClampQ13Root_range, of x] by simp

lemma FromOklab_fits:
  assumes "fits_i16 (lab_l c)" "fits_i16 (lab_a c)" "fits_i16 (lab_b c)"
  shows "FromOklab_checked c = Some (FromOklab c)"
proof -
  have "\<bar>lab_l c\<bar> \<le> 32768" "\<bar>lab_a c\<bar> \<le> 32768" "\<bar>lab_b c\<bar> \<le> 32768"
    using assms by (auto simp: fits_i16_def)
  note roots = matrix_rows_fit(1) [OF this]
  note linear = matrix_rows_fit(3) [OF CubeQ13_abs CubeQ13_abs CubeQ13_abs]
  show ?thesis
    using roots [of 0] roots [of 3] roots [of 6]
    by (simp add: FromOklab_checked_def FromOklab_def Let_def CubeQ13_fits [OF ClampQ13Root_range]
        linear [of 0, simplified] linear [of 3] linear [of 6])
qed

lemma Dot3Q13_fits_i16: "\<bar>dot3 cs x y z\<bar> \<le> k * 8192 \<Longrightarrow> k \<le> 32767 \<Longrightarrow> fits_i16 (Dot3Q13 cs x y z)"
  using RoundDivideSigned_abs [of 8192 "dot3 cs x y z" k]
  by (simp add: Dot3Q13_def kQ13One_def fits_i16_def abs_le_iff)

lemma ToOklab_fits:
  "ToOklab_checked c = Some (ToOklab c) \<and> fits_i16 (lab_l (ToOklab c)) \<and> fits_i16 (lab_a (ToOklab c)) \<and> fits_i16 (lab_b (ToOklab c))"
proof -
  have root: "\<bar>LmsRoot x\<bar> \<le> 8192" for x using LmsRoot_range [of x] by simp
  note rows = matrix_rows_fit(2) [OF root root root]
  note fit = Dot3Q13_fits_i16 [OF forward_rows(1) [OF LmsRoot_range LmsRoot_range LmsRoot_range]]
    Dot3Q13_fits_i16 [OF forward_rows(2) [OF LmsRoot_range LmsRoot_range LmsRoot_range]]
    Dot3Q13_fits_i16 [OF forward_rows(3) [OF LmsRoot_range LmsRoot_range LmsRoot_range]]
  show ?thesis
    by (simp add: ToOklab_checked_def ToOklab_def Let_def rows [of 0, simplified] rows [of 3] rows [of 6] fit i16_id)
qed


text \<open>The change of one coordinate is at most the distance of two 16-bit values.\<close>

lemma InterpolateComponent_fits:
  assumes fit: "fits_i16 source" "fits_i16 target"
  shows "InterpolateComponent_checked source target e d = Some (InterpolateComponent source target e d)"
    and "fits_i16 (InterpolateComponent source target e d)"
proof -
  have "InterpolateComponent_checked source target e d = Some (InterpolateComponent source target e d)
      \<and> fits_i16 (InterpolateComponent source target e d)"
  proof (cases "d = 0 \<or> d \<le> e \<or> e = 0")
    case True
    then show ?thesis using fit by (auto simp: InterpolateComponent_checked_def InterpolateComponent_def)
  next
    case False
    define dist where "dist = (if target - source < 0 then - (target - source) else target - source)"
    define change where "change = uint (InterpolateMagnitude (word_of_int dist) e d)"
    have dist: "0 \<le> dist" "dist \<le> 65535" using fit by (auto simp: dist_def fits_i16_def)
    have ed: "unat e < unat d" using False by (auto simp: word_le_nat_alt)
    have "unat (InterpolateMagnitude (word_of_int dist) e d) \<le> nat dist"
      using ed dist round_fraction_le [of "unat d" "unat e" "nat dist"]
      by (simp add: unat_InterpolateMagnitude unsigned_of_int take_bit_int_eq_self)
    moreover have nat: "int (unat (InterpolateMagnitude (word_of_int dist) e d)) = change" by (simp add: change_def)
    ultimately have ch: "0 \<le> change" "change \<le> dist" using dist(1) by linarith+
    have s: "sint (InterpolateMagnitude (word_of_int dist) e d) = change"
      unfolding nat [symmetric] using ch dist nat by (intro sint_small_u32) linarith
    let ?v = "if target - source < 0 then source - change else source + change"
    have small: "fits_i32 (target - source)" "fits_i32 dist" "fits_i32 change"
      using fit ch dist unfolding fits_i16_def fits_i32_def by linarith+
    have v16: "fits_i16 ?v"
    proof (cases "target - source < 0")
      case True
      then have "dist = source - target" by (simp add: dist_def)
      then have "fits_i16 (source - change)" using fit ch unfolding fits_i16_def by linarith
      then show ?thesis using True by simp
    next
      case False
      then have "dist = target - source" by (simp add: dist_def)
      then have "fits_i16 (source + change)" using fit ch unfolding fits_i16_def by linarith
      then show ?thesis using False by simp
    qed
    then have v32: "fits_i32 ?v" unfolding fits_i16_def fits_i32_def by linarith
    have "InterpolateComponent source target e d = ?v"
      unfolding InterpolateComponent_def Let_def dist_def [symmetric] s i16_id [OF v16] using False by simp
    moreover have "InterpolateComponent_checked source target e d = Some ?v"
    proof -
      have "(if target - source < 0 then in_i32 (- (target - source)) else Some (target - source)) = Some dist"
        using small(2) by (simp only: dist_def if_split) simp
      then show ?thesis
        using False small v16 v32
        by (simp only: InterpolateComponent_checked_def Let_def in_range bind.bind_lunit change_def if_False) simp
    qed
    ultimately show ?thesis using v16 by simp
  qed
  then show "InterpolateComponent_checked source target e d = Some (InterpolateComponent source target e d)"
    "fits_i16 (InterpolateComponent source target e d)" by blast+
qed

lemma Interpolate_fits:
  assumes "fits_i16 (lab_l s)" "fits_i16 (lab_a s)" "fits_i16 (lab_b s)"
    and "fits_i16 (lab_l t)" "fits_i16 (lab_a t)" "fits_i16 (lab_b t)"
  shows "Interpolate_checked s t e d = Some (Interpolate s t e d) \<and> fits_i16 (lab_l (Interpolate s t e d))
    \<and> fits_i16 (lab_a (Interpolate s t e d)) \<and> fits_i16 (lab_b (Interpolate s t e d))"
  using assms by (simp add: Interpolate_checked_def Interpolate_def InterpolateComponent_fits)

lemma InterpolateRgb_fits: "InterpolateRgb_checked s t e d = Some (InterpolateRgb s t e d)"
  using Interpolate_fits [of "ToOklab s" "ToOklab t" e d] FromOklab_fits ToOklab_fits [of s] ToOklab_fits [of t]
  by (simp add: InterpolateRgb_checked_def InterpolateRgb_def)

section \<open>Claims\<close>

text \<open>
  The 16-bit fractional multiplication is the exact product divided by \<open>65536\<close>, rounded half
  up; the saturation in the code is never needed.
\<close>

theorem MultiplyQ16_rounds: "unat (MultiplyQ16 a b) = (unat a * unat b + 32768) div 65536"
  by (rule unat_MultiplyQ16)

text \<open>
  C32. The integer cube root is optimal: no 16-bit value has a cube closer to the argument than
  the one returned.
\<close>

theorem CubeRootQ16_optimal:
  "\<bar>uint (CubeQ16 (CubeRootQ16 v)) - uint v\<bar> \<le> \<bar>uint (CubeQ16 x) - uint v\<bar>"
  by (rule CubeRootQ16_nearest)

text \<open>
  For every sRGB color the OKLab coordinates are the rounded matrix products of three cube
  roots in \<open>[0, 1]\<close>, so the casts to 16 bits lose nothing, and they stay inside the bounds that
  the range analysis of the source states.
\<close>

theorem ToOklab_exact_range:
  "(\<exists>l \<in> {0..8192}. \<exists>m \<in> {0..8192}. \<exists>s \<in> {0..8192}.
      lab_l (ToOklab c) = Dot3Q13 kLmsRootToOklabQ13 l m s \<and>
      lab_a (ToOklab c) = Dot3Q13 (drop 3 kLmsRootToOklabQ13) l m s \<and>
      lab_b (ToOklab c) = Dot3Q13 (drop 6 kLmsRootToOklabQ13) l m s) \<and>
   \<bar>lab_l (ToOklab c)\<bar> \<le> 8225 \<and> \<bar>lab_a (ToOklab c)\<bar> \<le> 19895 \<and> \<bar>lab_b (ToOklab c)\<bar> \<le> 6625"
proof -
  obtain l m s where r: "l \<in> {0..8192}" "m \<in> {0..8192}" "s \<in> {0..8192}"
    and c: "lab_l (ToOklab c) = Dot3Q13 kLmsRootToOklabQ13 l m s"
      "lab_a (ToOklab c) = Dot3Q13 (drop 3 kLmsRootToOklabQ13) l m s"
      "lab_b (ToOklab c) = Dot3Q13 (drop 6 kLmsRootToOklabQ13) l m s"
    by (rule ToOklab_coordinates)
  have lim: "\<bar>Dot3Q13 cs l m s\<bar> \<le> k" if "\<bar>dot3 cs l m s\<bar> \<le> k * 8192" for cs k
    using RoundDivideSigned_abs [of 8192 _ k] that by (simp add: Dot3Q13_def kQ13One_def)
  note rows = forward_rows [OF r]
  show ?thesis
    unfolding c using r lim [OF rows(1)] lim [OF rows(2)] lim [OF rows(3)] by blast
qed

text \<open>
  C30. No signed operation of the OKLab arithmetic overflows. The conversion of any 16-bit OKLab
  sample back to sRGB, with the result of every 32-bit product, sum, rounding addition and negation
  checked, never fails a check and returns what \<open>FromOklab\<close> returns; and so does the whole
  interpolation between any two colors at any time, conversion to OKLab, narrowing to 16 bits and
  the signed difference of the coordinates included.
\<close>

theorem FromOklab_no_overflow:
  assumes "fits_i16 (lab_l c)" "fits_i16 (lab_a c)" "fits_i16 (lab_b c)"
  shows "FromOklab_checked c = Some (FromOklab c)
    \<and> ToOklab_checked source = Some (ToOklab source)
    \<and> InterpolateRgb_checked source target elapsed_ms duration_ms
        = Some (InterpolateRgb source target elapsed_ms duration_ms)"
  using FromOklab_fits [OF assms] ToOklab_fits InterpolateRgb_fits by blast

theorem FromOklab_no_overflow_witness:
  "FromOklab_checked (lab 32767 (- 32768) (- 32768)) = Some (FromOklab (lab 32767 (- 32768) (- 32768)))
   \<and> FromOklab_checked (lab 0 0 0) = Some (rgb 0 0 0)"
proof -
  have f: "fits_i16 32767" "fits_i16 (- 32768)" "fits_i16 0" by (simp_all add: fits_i16_def)
  have black: "FromOklab (lab 0 0 0) = rgb 0 0 0" by code_simp
  show ?thesis
    using FromOklab_no_overflow [of "lab 32767 (- 32768) (- 32768)"] FromOklab_no_overflow [of "lab 0 0 0"] f
    by (simp add: black)
qed

text \<open>The checks can fail: a coordinate wider than 16 bits overflows the first product.\<close>

lemma checks_detect_overflow: "FromOklab_checked (lab 262144 0 0) = None"
  by code_simp

text \<open>
  C31. Encoding a linear channel returns the sRGB code whose decoded value is nearest, and every
  code survives decoding to the 13-bit linear scale and encoding again.
\<close>

theorem EncodeSrgbQ13_correct:
  assumes "k < 256"
  shows "(linear \<in> {0..8192} \<longrightarrow>
            \<bar>int (unat (kSrgbToLinearQ16 ! unat (EncodeSrgbQ13 linear))) - 8 * linear\<bar>
            \<le> \<bar>int (unat (kSrgbToLinearQ16 ! k)) - 8 * linear\<bar>) \<and>
         unat (EncodeSrgbQ13 (int ((unat (kSrgbToLinearQ16 ! k) + 4) div 8))) = k"
  using EncodeSrgbQ13_nearest [OF _ assms] EncodeSrgbQ13_decode [OF assms] by blast

theorem EncodeSrgbQ13_correct_witness:
  "unat (EncodeSrgbQ13 (int ((unat (kSrgbToLinearQ16 ! 200) + 4) div 8))) = 200 \<and>
   (4096::int) \<in> {0..8192} \<and>
   \<bar>int (unat (kSrgbToLinearQ16 ! unat (EncodeSrgbQ13 4096))) - 8 * 4096\<bar>
     \<le> \<bar>int (unat (kSrgbToLinearQ16 ! 200)) - 8 * 4096\<bar>"
proof -
  have k: "(200::nat) < 256" and l: "(4096::int) \<in> {0..8192}" by simp_all
  show ?thesis using EncodeSrgbQ13_correct [OF k, of 4096] l by blast
qed

text \<open>
  Interpolating one coordinate gives the source plus the fraction \<open>elapsed / duration\<close> of
  the signed difference, rounded to nearest with halves away from the source; the result lies
  between the endpoints, reaches the target exactly at the end, and never moves backwards as time
  passes.
\<close>

theorem InterpolateComponent_correct:
  assumes "d \<noteq> 0" "e \<le> e'" "e' \<le> d" "fits_i16 source" "fits_i16 target"
  shows "InterpolateComponent source target e d =
           source + sgn (target - source) * int (round_fraction (nat \<bar>target - source\<bar>) (unat e) (unat d)) \<and>
         \<bar>InterpolateComponent source target e d - source\<bar>
           \<le> \<bar>InterpolateComponent source target e' d - source\<bar> \<and>
         \<bar>InterpolateComponent source target e' d - source\<bar> \<le> \<bar>target - source\<bar> \<and>
         InterpolateComponent source target d d = target"
proof -
  let ?g = "\<lambda>t. round_fraction (nat \<bar>target - source\<bar>) (unat t) (unat d)"
  have ed: "e \<le> d" using assms(2,3) by (rule order.trans)
  note eq = InterpolateComponent_eq [OF assms(1) _ assms(4,5)]
  have "?g e \<le> ?g e'" using assms(2) by (simp add: round_fraction_mono word_le_nat_alt)
  moreover have "?g e' \<le> nat \<bar>target - source\<bar>"
    using assms(1,3) by (simp add: round_fraction_le word_le_nat_alt unat_gt_0)
  moreover have "InterpolateComponent source target d d = target"
    by (simp add: InterpolateComponent_def)
  ultimately show ?thesis
    by (auto simp: eq [OF ed] eq [OF assms(3)] abs_mult sgn_if)
qed

theorem InterpolateComponent_correct_witness:
  "(1000 :: u16) \<noteq> 0 \<and> (250 :: u16) \<le> 500 \<and> (500 :: u16) \<le> 1000 \<and>
   fits_i16 100 \<and> fits_i16 (- 300) \<and> InterpolateComponent 100 (- 300) 250 1000 = 0"
proof -
  have h: "(1000 :: u16) \<noteq> 0" "(250 :: u16) \<le> 500" "(500 :: u16) \<le> 1000"
    "fits_i16 100" "fits_i16 (- 300)" by (simp_all add: fits_i16_def)
  show ?thesis
    using InterpolateComponent_correct [OF h] h by (simp add: round_fraction_def)
qed

end
