(* ===== verification/Strip.thy ===== *)
theory Strip
  imports Color
begin

text \<open>
  The logical LED strip: the contract of src/include/prism/strip.hpp and its only product
  implementation, the StripManager of src/app/src/hw/strip_manager.cpp, which stages colors for
  the APP task and hands committed frames to the app_hw task through a mailbox.

  The mailbox (oshal::EventMailbox) and the board strip (bal::Ws2812Strip) are not part of the
  repository: the operations on them are arguments of the definitions below, and what the code
  relies on is stated as \<open>mailbox_laws\<close> and \<open>backend_laws\<close>. The StripLedView objects hold their own
  index and the manager's address, so a view is its index here; \<open>StripView\<close> models the objects and
  proves the two equal.
\<close>

section \<open>Status codes and frames\<close>

datatype status =
    STATUS_OK
  | STATUS_ERR_NOT_READY
  | STATUS_ERR_INVALID_ARGUMENT
  | STATUS_ERR_DEVICE_UNAVAILABLE
  | StatusCode int

text \<open>The test \<open>status < 0\<close>: the named errors are negative codes, success is not.\<close>

fun is_negative :: "status \<Rightarrow> bool" where
  "is_negative STATUS_OK = False"
| "is_negative STATUS_ERR_NOT_READY = True"
| "is_negative STATUS_ERR_INVALID_ARGUMENT = True"
| "is_negative STATUS_ERR_DEVICE_UNAVAILABLE = True"
| "is_negative (StatusCode n) = (n < 0)"

definition kSharedFrameCapacity :: nat where "kSharedFrameCapacity = 16"

record SharedFrame =
  frame_led_count :: nat
  frame_colors :: "RgbColor list"

definition black :: RgbColor where "black = rgb 0 0 0"

definition empty_frame :: SharedFrame where
  "empty_frame = \<lparr>frame_led_count = 0, frame_colors = replicate kSharedFrameCapacity black\<rparr>"

section \<open>StripManager\<close>

record 'mb StripManager =
  strip_mailbox :: 'mb
  strip_ready :: bool
  strip_led_count :: nat
  strip_name :: string
  staged_frame :: SharedFrame

definition StripManager_init :: "'mb \<Rightarrow> 'mb StripManager" where
  "StripManager_init mb =
     \<lparr>strip_mailbox = mb, strip_ready = False, strip_led_count = 0,
      strip_name = ''prism_hw_strip'', staged_frame = empty_frame\<rparr>"

definition Configure :: "nat \<Rightarrow> string \<Rightarrow> 'mb StripManager \<Rightarrow> 'mb StripManager" where
  "Configure led_count nm s =
     s\<lparr>strip_led_count := led_count, strip_name := nm, strip_ready := True\<rparr>"

definition Led :: "'mb StripManager \<Rightarrow> nat \<Rightarrow> nat option" where
  "Led s index = (if strip_led_count s \<le> index then None else Some index)"

definition Fill :: "RgbColor \<Rightarrow> 'mb StripManager \<Rightarrow> status \<times> 'mb StripManager" where
  "Fill color s =
     (if \<not> strip_ready s then (STATUS_ERR_NOT_READY, s)
      else (STATUS_OK,
            s\<lparr>staged_frame := (staged_frame s)\<lparr>frame_colors :=
                fold (\<lambda>i cs. cs[i := color]) [0..<strip_led_count s] (frame_colors (staged_frame s))\<rparr>\<rparr>))"

definition SetLedColor :: "nat \<Rightarrow> RgbColor \<Rightarrow> 'mb StripManager \<Rightarrow> status \<times> 'mb StripManager" where
  "SetLedColor index color s =
     (if \<not> strip_ready s then (STATUS_ERR_NOT_READY, s)
      else if strip_led_count s \<le> index then (STATUS_ERR_INVALID_ARGUMENT, s)
      else (STATUS_OK,
            s\<lparr>staged_frame := (staged_frame s)\<lparr>frame_colors :=
                (frame_colors (staged_frame s))[index := color]\<rparr>\<rparr>))"

definition LedColor :: "'mb StripManager \<Rightarrow> nat \<Rightarrow> RgbColor" where
  "LedColor s index =
     (if strip_led_count s \<le> index then black else frame_colors (staged_frame s) ! index)"

definition Show ::
  "('mb \<Rightarrow> SharedFrame \<Rightarrow> status \<times> 'mb) \<Rightarrow> 'mb StripManager \<Rightarrow> status \<times> 'mb StripManager" where
  "Show send s =
     (if \<not> strip_ready s then (STATUS_ERR_NOT_READY, s)
      else
        let s1 = s\<lparr>staged_frame := (staged_frame s)\<lparr>frame_led_count := strip_led_count s\<rparr>\<rparr>;
            (st, mb) = send (strip_mailbox s1) (staged_frame s1)
        in (st, s1\<lparr>strip_mailbox := mb\<rparr>))"

text \<open>The statement \<^verbatim>\<open>if (led != nullptr) led->SetColor(color);\<close> of the color instructions.\<close>

definition set_led :: "'mb StripManager \<Rightarrow> nat \<Rightarrow> RgbColor \<Rightarrow> 'mb StripManager" where
  "set_led s index color =
     (case Led s index of None \<Rightarrow> s | Some view \<Rightarrow> snd (SetLedColor view color s))"

section \<open>The app_hw side\<close>

record 'b Ws2812Ops =
  ws_LedCount :: "'b \<Rightarrow> nat"
  ws_Led :: "'b \<Rightarrow> nat \<Rightarrow> bool"
  ws_IsReady :: "'b \<Rightarrow> nat \<Rightarrow> bool"
  ws_SetColor :: "nat \<Rightarrow> RgbColor \<Rightarrow> 'b \<Rightarrow> status \<times> 'b"
  ws_Show :: "'b \<Rightarrow> status \<times> 'b"

text \<open>The pixel loop: the first error ends it and is the result of the call.\<close>

fun apply_pixels :: "'b Ws2812Ops \<Rightarrow> SharedFrame \<Rightarrow> nat list \<Rightarrow> 'b \<Rightarrow> status option \<times> 'b" where
  "apply_pixels ops frame [] b = (None, b)"
| "apply_pixels ops frame (index # rest) b =
     (if \<not> ws_Led ops b index \<or> \<not> ws_IsReady ops b index
      then (Some STATUS_ERR_DEVICE_UNAVAILABLE, b)
      else
        let (set_ret, b1) = ws_SetColor ops index (frame_colors frame ! index) b
        in if is_negative set_ret then (Some set_ret, b1) else apply_pixels ops frame rest b1)"

definition ApplyFrame :: "'b Ws2812Ops \<Rightarrow> SharedFrame \<Rightarrow> 'b \<Rightarrow> status \<times> 'b" where
  "ApplyFrame ops frame b =
     (if ws_LedCount ops b < frame_led_count frame then (STATUS_ERR_INVALID_ARGUMENT, b)
      else case apply_pixels ops frame [0..<frame_led_count frame] b of
             (Some err, b1) \<Rightarrow> (err, b1)
           | (None, b1) \<Rightarrow> ws_Show ops b1)"

partial_function (option) TryApplyLatest ::
  "('mb \<Rightarrow> (SharedFrame \<times> 'mb) option) \<Rightarrow> 'b Ws2812Ops \<Rightarrow> 'mb \<Rightarrow> 'b \<Rightarrow> (bool \<times> 'mb \<times> 'b) option" where
  "TryApplyLatest receive ops mb b =
     (case receive mb of
        None \<Rightarrow> Some (True, mb, b)
      | Some (frame, mb1) \<Rightarrow>
          (case ApplyFrame ops frame b of
             (st, b1) \<Rightarrow> if is_negative st then Some (False, mb1, b1)
                         else TryApplyLatest receive ops mb1 b1))"

section \<open>What the external services promise\<close>

text \<open>
  A mailbox delivers, in order, exactly the messages whose sending succeeded; \<open>pending\<close> is its
  content.
\<close>

definition mailbox_laws ::
  "('mb \<Rightarrow> 'm \<Rightarrow> status \<times> 'mb) \<Rightarrow> ('mb \<Rightarrow> ('m \<times> 'mb) option) \<Rightarrow> ('mb \<Rightarrow> 'm list) \<Rightarrow> bool" where
  "mailbox_laws send receive pending \<longleftrightarrow>
     (\<forall>mb m. pending (snd (send mb m)) =
        (if fst (send mb m) = STATUS_OK then pending mb @ [m] else pending mb)) \<and>
     (\<forall>mb. receive mb = None \<longleftrightarrow> pending mb = []) \<and>
     (\<forall>mb m mb'. receive mb = Some (m, mb') \<longrightarrow> pending mb = m # pending mb')"

text \<open>
  A ready board strip: its pixels are present and ready, setting one succeeds and changes only
  that pixel, showing succeeds and latches the pixels.
\<close>

definition backend_laws :: "'b Ws2812Ops \<Rightarrow> ('b \<Rightarrow> nat \<Rightarrow> RgbColor) \<Rightarrow> ('b \<Rightarrow> nat \<Rightarrow> RgbColor) \<Rightarrow> bool" where
  "backend_laws ops pixel shown \<longleftrightarrow>
     (\<forall>b i. i < ws_LedCount ops b \<longrightarrow> ws_Led ops b i \<and> ws_IsReady ops b i) \<and>
     (\<forall>b i c. i < ws_LedCount ops b \<longrightarrow>
        \<not> is_negative (fst (ws_SetColor ops i c b)) \<and>
        pixel (snd (ws_SetColor ops i c b)) = (pixel b)(i := c) \<and>
        ws_LedCount ops (snd (ws_SetColor ops i c b)) = ws_LedCount ops b) \<and>
     (\<forall>b. \<not> is_negative (fst (ws_Show ops b)) \<and>
        pixel (snd (ws_Show ops b)) = pixel b \<and>
        shown (snd (ws_Show ops b)) = pixel b \<and>
        ws_LedCount ops (snd (ws_Show ops b)) = ws_LedCount ops b)"

section \<open>Invariant\<close>

definition strip_inv :: "'mb StripManager \<Rightarrow> bool" where
  "strip_inv s \<longleftrightarrow>
     strip_led_count s \<le> kSharedFrameCapacity \<and>
     length (frame_colors (staged_frame s)) = kSharedFrameCapacity \<and>
     (\<not> strip_ready s \<longrightarrow> strip_led_count s = 0)"

lemma strip_inv_init: "strip_inv (StripManager_init mb)"
  by (simp add: strip_inv_def StripManager_init_def empty_frame_def)

lemma strip_inv_Configure: "strip_inv s \<Longrightarrow> n \<le> kSharedFrameCapacity \<Longrightarrow> strip_inv (Configure n nm s)"
  by (simp add: strip_inv_def Configure_def)

lemma length_fold_update [simp]: "length (fold (\<lambda>i cs. cs[i := c]) is xs) = length xs"
  by (induction "is" arbitrary: xs) auto

lemma fold_update_nth:
  "j < length xs \<Longrightarrow> fold (\<lambda>i cs. cs[i := c]) is xs ! j = (if j \<in> set is then c else xs ! j)"
  by (induction "is" arbitrary: xs) auto

lemma strip_inv_Fill: "strip_inv s \<Longrightarrow> strip_inv (snd (Fill c s))"
  by (simp add: strip_inv_def Fill_def)

lemma strip_inv_Show: "strip_inv s \<Longrightarrow> strip_inv (snd (Show send s))"
  by (simp add: strip_inv_def Show_def Let_def split: prod.splits)

section \<open>The strip contract\<close>

text \<open>
  What the instructions need of a strip: staging one pixel changes that pixel only, and only when
  it exists.
\<close>

locale strip_contract =
  fixes invar :: "'s \<Rightarrow> bool"
    and count :: "'s \<Rightarrow> nat"
    and set_pixel :: "'s \<Rightarrow> nat \<Rightarrow> RgbColor \<Rightarrow> 's"
    and pixel :: "'s \<Rightarrow> nat \<Rightarrow> RgbColor"
  assumes invar_set: "invar s \<Longrightarrow> invar (set_pixel s i c)"
    and count_set: "count (set_pixel s i c) = count s"
    and pixel_set: "invar s \<Longrightarrow> pixel (set_pixel s i c) j = (if i = j \<and> j < count s then c else pixel s j)"
begin

lemma count_fold: "count (fold (\<lambda>i s. set_pixel s i c) is s) = count s"
  by (induction "is" arbitrary: s) (simp_all add: count_set)

lemma invar_fold: "invar s \<Longrightarrow> invar (fold (\<lambda>i s. set_pixel s i c) is s)"
  by (induction "is" arbitrary: s) (simp_all add: invar_set)

lemma pixel_fold:
  "invar s \<Longrightarrow> pixel (fold (\<lambda>i s. set_pixel s i c) is s) j
     = (if j \<in> set is \<and> j < count s then c else pixel s j)"
  by (induction "is" arbitrary: s) (auto simp: count_set invar_set pixel_set)

end

lemma set_led_unfold:
  "set_led s i c = (if i < strip_led_count s \<and> strip_ready s
     then s\<lparr>staged_frame := (staged_frame s)\<lparr>frame_colors := (frame_colors (staged_frame s))[i := c]\<rparr>\<rparr>
     else s)"
  by (simp add: set_led_def Led_def SetLedColor_def)

interpretation manager: strip_contract strip_inv strip_led_count set_led LedColor
  by unfold_locales
     (auto simp: set_led_unfold strip_inv_def LedColor_def nth_list_update)

text \<open>Staging pixels touches neither the mailbox nor the configuration.\<close>

lemma set_led_frame [simp]:
  "strip_mailbox (set_led s i c) = strip_mailbox s"
  "strip_ready (set_led s i c) = strip_ready s"
  "strip_led_count (set_led s i c) = strip_led_count s"
  by (simp_all add: set_led_unfold)

section \<open>Frame delivery\<close>

lemma apply_pixels_delivers:
  assumes laws: "backend_laws ops pixel shown"
    and fits: "\<forall>i\<in>set is. i < ws_LedCount ops b"
  shows "\<exists>b'. apply_pixels ops frame is b = (None, b') \<and> ws_LedCount ops b' = ws_LedCount ops b
     \<and> pixel b' = (\<lambda>i. if i \<in> set is then frame_colors frame ! i else pixel b i)"
  using fits
proof (induction "is" arbitrary: b)
  case Nil
  then show ?case by simp
next
  case (Cons i rest)
  let ?r = "ws_SetColor ops i (frame_colors frame ! i) b"
  have i: "ws_Led ops b i" "ws_IsReady ops b i" "\<not> is_negative (fst ?r)"
      "pixel (snd ?r) = (pixel b)(i := frame_colors frame ! i)"
      "ws_LedCount ops (snd ?r) = ws_LedCount ops b"
    using laws Cons.prems by (auto simp: backend_laws_def)
  have "\<forall>j\<in>set rest. j < ws_LedCount ops (snd ?r)"
    using Cons.prems i(5) by simp
  from Cons.IH [OF this] obtain b' where b':
    "apply_pixels ops frame rest (snd ?r) = (None, b')"
    "ws_LedCount ops b' = ws_LedCount ops (snd ?r)"
    "pixel b' = (\<lambda>j. if j \<in> set rest then frame_colors frame ! j else pixel (snd ?r) j)"
    by blast
  show ?case
    using i b' by (intro exI [of _ b']) (auto simp: split_beta fun_eq_iff)
qed

lemma ApplyFrame_delivers:
  assumes laws: "backend_laws ops pixel shown"
    and fits: "frame_led_count frame \<le> ws_LedCount ops b"
  shows "\<not> is_negative (fst (ApplyFrame ops frame b))"
    and "ws_LedCount ops (snd (ApplyFrame ops frame b)) = ws_LedCount ops b"
    and "\<forall>i < frame_led_count frame. shown (snd (ApplyFrame ops frame b)) i = frame_colors frame ! i"
proof -
  have "\<forall>i\<in>set [0..<frame_led_count frame]. i < ws_LedCount ops b"
    using fits by auto
  from apply_pixels_delivers [OF laws this, of frame] obtain b' where b':
    "apply_pixels ops frame [0..<frame_led_count frame] b = (None, b')"
    "ws_LedCount ops b' = ws_LedCount ops b"
    "pixel b' = (\<lambda>i. if i \<in> set [0..<frame_led_count frame] then frame_colors frame ! i else pixel b i)"
    by blast
  then have eq: "ApplyFrame ops frame b = ws_Show ops b'"
    using fits by (simp add: ApplyFrame_def)
  from laws have sh: "\<not> is_negative (fst (ws_Show ops b'))" "shown (snd (ws_Show ops b')) = pixel b'"
      "ws_LedCount ops (snd (ws_Show ops b')) = ws_LedCount ops b'"
    by (auto simp: backend_laws_def)
  show "\<not> is_negative (fst (ApplyFrame ops frame b))"
    and "ws_LedCount ops (snd (ApplyFrame ops frame b)) = ws_LedCount ops b"
    and "\<forall>i < frame_led_count frame. shown (snd (ApplyFrame ops frame b)) i = frame_colors frame ! i"
    using sh b' by (simp_all add: eq)
qed

text \<open>Draining returns, empties the mailbox, and leaves the last pending frame on the strip.\<close>

lemma TryApplyLatest_drains:
  assumes mail: "mailbox_laws send receive pending"
    and laws: "backend_laws ops pixel shown"
    and fits: "\<forall>f\<in>set (pending mb). frame_led_count f \<le> ws_LedCount ops b"
  shows "\<exists>mb' b'. TryApplyLatest receive ops mb b = Some (True, mb', b') \<and> pending mb' = [] \<and> ws_LedCount ops b' = ws_LedCount ops b
     \<and> (if pending mb = [] then b' = b else
        (\<forall>i < frame_led_count (last (pending mb)). shown b' i = frame_colors (last (pending mb)) ! i))"
  using fits
proof (induction "pending mb" arbitrary: mb b)
  case Nil
  then have "receive mb = None"
    using mail by (simp add: mailbox_laws_def)
  with Nil show ?case
    by (simp add: TryApplyLatest.simps)
next
  case (Cons f fs)
  from mail Cons(2) obtain m mb1 where rc: "receive mb = Some (m, mb1)"
    by (metis list.distinct(1) mailbox_laws_def option.exhaust surj_pair)
  with mail Cons(2) have m: "m = f" "pending mb1 = fs"
    unfolding mailbox_laws_def by (metis list.inject)+
  have f: "frame_led_count f \<le> ws_LedCount ops b"
    using Cons.prems Cons(2) by (metis list.set_intros(1))
  note step = ApplyFrame_delivers [OF laws f]
  have "\<forall>g\<in>set (pending mb1). frame_led_count g \<le> ws_LedCount ops (snd (ApplyFrame ops f b))"
    using Cons.prems Cons(2) m step(2) by (metis list.set_intros(2))
  from Cons(1) [OF m(2) [symmetric] this] obtain mb' b' where rest:
    "TryApplyLatest receive ops mb1 (snd (ApplyFrame ops f b)) = Some (True, mb', b')" "pending mb' = []"
    "ws_LedCount ops b' = ws_LedCount ops (snd (ApplyFrame ops f b))"
    "if pending mb1 = [] then b' = snd (ApplyFrame ops f b) else
        (\<forall>i < frame_led_count (last (pending mb1)). shown b' i = frame_colors (last (pending mb1)) ! i)"
    by blast
  have "TryApplyLatest receive ops mb b = Some (True, mb', b')"
    using rc m step(1) rest(1) by (subst TryApplyLatest.simps) (simp add: split_beta)
  with rest step(2,3) m Cons(2) [symmetric] show ?case
    by (auto split: if_splits)
qed

text \<open>
  C24. Staged pixels reach the board: when the APP task commits a frame and the mailbox accepts it,
  the app_hw task's drain returns success, leaves the mailbox empty, and the board strip shows for
  every pixel of the logical strip the color that was staged for it, whatever older frames were
  still waiting.
\<close>

theorem Show_TryApplyLatest_delivers:
  assumes "mailbox_laws send receive pending"
    and "backend_laws ops pixel shown"
    and "strip_inv s" and "strip_ready s"
    and "strip_led_count s \<le> ws_LedCount ops b"
    and "\<forall>f\<in>set (pending (strip_mailbox s)). frame_led_count f \<le> ws_LedCount ops b"
    and "fst (Show send s) = STATUS_OK"
  shows "\<exists>mb' b'. TryApplyLatest receive ops (strip_mailbox (snd (Show send s))) b = Some (True, mb', b')
     \<and> pending mb' = [] \<and> (\<forall>i < strip_led_count s. shown b' i = LedColor s i)"
proof -
  let ?f = "(staged_frame s)\<lparr>frame_led_count := strip_led_count s\<rparr>"
  have st: "fst (send (strip_mailbox s) ?f) = STATUS_OK"
      "strip_mailbox (snd (Show send s)) = snd (send (strip_mailbox s) ?f)"
    using assms(4,7) by (simp_all add: Show_def Let_def split_beta)
  then have p: "pending (strip_mailbox (snd (Show send s))) = pending (strip_mailbox s) @ [?f]"
    using assms(1) by (simp add: mailbox_laws_def)
  have "\<forall>f\<in>set (pending (strip_mailbox (snd (Show send s)))). frame_led_count f \<le> ws_LedCount ops b"
    using assms(5,6) by (auto simp: p)
  from TryApplyLatest_drains [OF assms(1,2) this] show ?thesis
    by (auto simp: p LedColor_def)
qed

text \<open>
  Staging is exact: filling a ready strip stages the color on every pixel, and setting one
  pixel changes that pixel alone; a strip that is not ready, and an index past its end, are
  reported with their status code and leave the staged frame as it was.
\<close>

theorem Fill_SetLedColor_correct:
  assumes "strip_inv s"
  shows "(\<forall>j. LedColor (snd (Fill c s)) j = (if strip_ready s \<and> j < strip_led_count s then c else LedColor s j))
     \<and> (\<forall>i j. LedColor (snd (SetLedColor i c s)) j
           = (if strip_ready s \<and> i = j \<and> j < strip_led_count s then c else LedColor s j))
     \<and> (fst (Fill c s) = STATUS_OK \<longleftrightarrow> strip_ready s)
     \<and> (\<forall>i. fst (SetLedColor i c s) = (if \<not> strip_ready s then STATUS_ERR_NOT_READY
           else if strip_led_count s \<le> i then STATUS_ERR_INVALID_ARGUMENT else STATUS_OK))
     \<and> strip_inv (snd (Fill c s)) \<and> (\<forall>i. strip_inv (snd (SetLedColor i c s)))"
  using assms strip_inv_Fill [OF assms, of c] fold_update_nth [of _ "frame_colors (staged_frame s)" c "[0..<strip_led_count s]"]
  by (auto simp: Fill_def SetLedColor_def LedColor_def strip_inv_def nth_list_update)

section \<open>Witnesses\<close>

text \<open>A bounded FIFO of depth one and a strip of plain pixels meet the laws.\<close>

definition fifo_send :: "SharedFrame list \<Rightarrow> SharedFrame \<Rightarrow> status \<times> SharedFrame list" where
  "fifo_send mb m = (if length mb < 1 then (STATUS_OK, mb @ [m]) else (StatusCode (- 11), mb))"

definition fifo_receive :: "'m list \<Rightarrow> ('m \<times> 'm list) option" where
  "fifo_receive mb = (case mb of [] \<Rightarrow> None | m # ms \<Rightarrow> Some (m, ms))"

definition plain_ops :: "nat \<Rightarrow> ((nat \<Rightarrow> RgbColor) \<times> (nat \<Rightarrow> RgbColor)) Ws2812Ops" where
  "plain_ops n = \<lparr>ws_LedCount = (\<lambda>b. n), ws_Led = (\<lambda>b i. i < n), ws_IsReady = (\<lambda>b i. True),
     ws_SetColor = (\<lambda>i c b. (STATUS_OK, ((fst b)(i := c), snd b))),
     ws_Show = (\<lambda>b. (STATUS_OK, (fst b, fst b)))\<rparr>"

lemma fifo_mailbox_laws: "mailbox_laws fifo_send fifo_receive (\<lambda>mb. mb)"
  by (auto simp: mailbox_laws_def fifo_send_def fifo_receive_def split: list.splits)

lemma plain_backend_laws: "backend_laws (plain_ops n) fst snd"
  by (auto simp: backend_laws_def plain_ops_def)

definition demo_strip :: "SharedFrame list StripManager" where
  "demo_strip = snd (SetLedColor 3 (rgb 1 2 3) (snd (Fill (rgb 9 9 9) (Configure 7 ''strip0'' (StripManager_init [])))))"

lemma demo_strip_simps:
  "strip_inv demo_strip" "strip_ready demo_strip" "strip_led_count demo_strip = 7"
  "strip_mailbox demo_strip = []" "fst (Show fifo_send demo_strip) = STATUS_OK"
  by (simp_all add: demo_strip_def SetLedColor_def Fill_def Configure_def StripManager_init_def
      strip_inv_def empty_frame_def kSharedFrameCapacity_def Show_def fifo_send_def)

theorem Show_TryApplyLatest_delivers_witness:
  "\<exists>mb' b'. TryApplyLatest fifo_receive (plain_ops 7) (strip_mailbox (snd (Show fifo_send demo_strip)))
      (\<lambda>i. black, \<lambda>i. black) = Some (True, mb', b')
    \<and> mb' = [] \<and> (\<forall>i < 7. snd b' i = LedColor demo_strip i)"
  using Show_TryApplyLatest_delivers [OF fifo_mailbox_laws plain_backend_laws [of 7], of demo_strip "(\<lambda>i. black, \<lambda>i. black)"]
  by (simp add: demo_strip_simps plain_ops_def)

theorem Fill_SetLedColor_correct_witness:
  "strip_inv demo_strip \<and> LedColor (snd (Fill (rgb 4 5 6) demo_strip)) 6 = rgb 4 5 6
    \<and> fst (SetLedColor 7 (rgb 4 5 6) demo_strip) = STATUS_ERR_INVALID_ARGUMENT"
  using Fill_SetLedColor_correct [OF demo_strip_simps(1), of "rgb 4 5 6"] by (simp add: demo_strip_simps)

end
