(* ===== verification/StripView.thy ===== *)
theory StripView
  imports Strip
begin

text \<open>
  The pixel views of strip_manager.cpp. A StripManager holds sixteen StripLedView objects, each with
  its index and a pointer back to the manager, and \<open>Led\<close> hands out the address of one of them; the
  instructions set colors through it. The other theories let the index stand for the view. Here the
  managers are objects in a memory, views point into it, and the theorems show that this is the same.
\<close>

section \<open>Objects\<close>

record StripLedView =
  view_manager :: "nat option"
  view_index :: nat

definition StripLedView_init :: StripLedView where
  "StripLedView_init = \<lparr>view_manager = None, view_index = 0\<rparr>"

definition SetIndex :: "nat \<Rightarrow> StripLedView \<Rightarrow> StripLedView" where
  "SetIndex i v = v\<lparr>view_index := i\<rparr>"

definition SetManager :: "nat \<Rightarrow> StripLedView \<Rightarrow> StripLedView" where
  "SetManager a v = v\<lparr>view_manager := Some a\<rparr>"

text \<open>A manager with its array of views, and the memory: the object at each address.\<close>

record 'mb StripObject =
  so_manager :: "'mb StripManager"
  so_views :: "StripLedView list"

type_synonym 'mb memory = "nat \<Rightarrow> 'mb StripObject"

text \<open>The constructor of the manager at address \<open>this\<close>.\<close>

definition wire_views :: "nat \<Rightarrow> StripLedView list \<Rightarrow> StripLedView list" where
  "wire_views this views =
     fold (\<lambda>i vs. vs[i := SetManager this (SetIndex i (vs ! i))]) [0..<length views] views"

definition StripObject_init :: "nat \<Rightarrow> 'mb \<Rightarrow> 'mb StripObject" where
  "StripObject_init this mb =
     \<lparr>so_manager = StripManager_init mb,
      so_views = wire_views this (replicate kSharedFrameCapacity StripLedView_init)\<rparr>"

section \<open>Operations\<close>

definition view_IsReady :: "'mb memory \<Rightarrow> StripLedView \<Rightarrow> bool" where
  "view_IsReady h v = (case view_manager v of None \<Rightarrow> False | Some a \<Rightarrow> strip_ready (so_manager (h a)))"

definition view_SetColor :: "RgbColor \<Rightarrow> StripLedView \<Rightarrow> 'mb memory \<Rightarrow> status \<times> 'mb memory" where
  "view_SetColor color v h =
     (case view_manager v of
        None \<Rightarrow> (STATUS_ERR_NOT_READY, h)
      | Some a \<Rightarrow>
          (case SetLedColor (view_index v) color (so_manager (h a)) of
             (st, s) \<Rightarrow> (st, h(a := (h a)\<lparr>so_manager := s\<rparr>))))"

definition view_Color :: "'mb memory \<Rightarrow> StripLedView \<Rightarrow> RgbColor" where
  "view_Color h v = (case view_manager v of None \<Rightarrow> black | Some a \<Rightarrow> LedColor (so_manager (h a)) (view_index v))"

definition Led_view :: "'mb memory \<Rightarrow> nat \<Rightarrow> nat \<Rightarrow> StripLedView option" where
  "Led_view h a index =
     (if strip_led_count (so_manager (h a)) \<le> index then None else Some (so_views (h a) ! index))"

text \<open>The statement \<^verbatim>\<open>if (led != nullptr) led->SetColor(color);\<close> on a strip at address \<open>a\<close>.\<close>

definition draw :: "nat \<Rightarrow> nat \<Rightarrow> RgbColor \<Rightarrow> 'mb memory \<Rightarrow> 'mb memory" where
  "draw a index color h = (case Led_view h a index of None \<Rightarrow> h | Some v \<Rightarrow> snd (view_SetColor color v h))"

section \<open>A view is its index\<close>

text \<open>The object at an address is a manager whose views are wired to it.\<close>

definition wired :: "nat \<Rightarrow> 'mb StripObject \<Rightarrow> bool" where
  "wired a o1 \<longleftrightarrow> strip_inv (so_manager o1)
     \<and> so_views o1 = map (\<lambda>i. \<lparr>view_manager = Some a, view_index = i\<rparr>) [0..<kSharedFrameCapacity]"

lemma wire_views_nth:
  "wire_views this views = map (\<lambda>i. SetManager this (SetIndex i (views ! i))) [0..<length views]"
proof -
  let ?f = "\<lambda>i vs. vs[i := SetManager this (SetIndex i (vs ! i))]"
  have "fold ?f [0..<n] views = map (\<lambda>i. SetManager this (SetIndex i (views ! i))) [0..<n] @ drop n views"
    if "n \<le> length views" for n
    using that
  proof (induction n)
    case (Suc n)
    then have "drop n views = views ! n # drop (Suc n) views" by (simp add: Cons_nth_drop_Suc)
    with Suc show ?case by (simp add: nth_append list_update_append)
  qed simp
  then show ?thesis by (simp add: wire_views_def)
qed

lemma wired_init: "wired a (StripObject_init a mb)"
  by (simp add: wired_def StripObject_init_def strip_inv_init wire_views_nth StripLedView_init_def SetIndex_def SetManager_def)

text \<open>The view that \<open>Led\<close> hands out: it is the pixel of that index of that strip, and of no other.\<close>

lemma Led_view_is_pixel:
  assumes "wired a (h a)"
  shows "case Led_view h a index of
      None \<Rightarrow> Led (so_manager (h a)) index = None
    | Some v \<Rightarrow> Led (so_manager (h a)) index = Some (view_index v)
        \<and> view_index v = index \<and> view_manager v = Some a
        \<and> view_IsReady h v = strip_ready (so_manager (h a))
        \<and> view_Color h v = LedColor (so_manager (h a)) index
        \<and> view_SetColor color v h = (fst (SetLedColor index color (so_manager (h a))),
            h(a := (h a)\<lparr>so_manager := snd (SetLedColor index color (so_manager (h a)))\<rparr>))"
proof (cases "strip_led_count (so_manager (h a)) \<le> index")
  case False
  then have "index < kSharedFrameCapacity" using assms by (simp add: wired_def strip_inv_def)
  then have v: "so_views (h a) ! index = \<lparr>view_manager = Some a, view_index = index\<rparr>" using assms by (simp add: wired_def)
  show ?thesis using False
    by (simp add: Led_view_def Led_def v view_IsReady_def view_Color_def view_SetColor_def case_prod_unfold)
qed (simp add: Led_view_def Led_def)

text \<open>
  Drawing through the views is drawing on the strip: any sequence of draws on any strips of a wired
  memory leaves every strip as the same sequence of \<open>set_led\<close> on it does, and the memory wired.
\<close>

lemma draw_is_set_led:
  assumes "wired a (h a)"
  shows "draw a index color h = h(a := (h a)\<lparr>so_manager := set_led (so_manager (h a)) index color\<rparr>)"
  using Led_view_is_pixel [where h = h and a = a, OF assms, where index = index and color = color]
  by (simp add: draw_def set_led_def split: option.splits)

lemma wired_set_led: "wired a o1 \<Longrightarrow> wired a (o1\<lparr>so_manager := set_led (so_manager o1) index color\<rparr>)"
  by (simp add: wired_def manager.invar_set)

theorem draws_are_set_leds:
  assumes "\<forall>a. wired a (h a)"
  shows "let h' = fold (\<lambda>(a, index, color). draw a index color) draws h in
    (\<forall>a. wired a (h' a) \<and> so_manager (h' a) =
       fold (\<lambda>(b, index, color) s. if b = a then set_led s index color else s) draws (so_manager (h a)))"
  using assms
proof (induction draws arbitrary: h)
  case (Cons d draws)
  obtain b index color where d: "d = (b, index, color)" by (cases d)
  define h1 where "h1 = draw b index color h"
  have h: "h1 = h(b := (h b)\<lparr>so_manager := set_led (so_manager (h b)) index color\<rparr>)"
    using Cons.prems by (simp add: h1_def draw_is_set_led)
  then have "\<forall>a. wired a (h1 a)" using Cons.prems by (simp add: wired_set_led)
  note ih = Cons.IH [OF this, unfolded Let_def]
  have "so_manager (h1 a) = (if b = a then set_led (so_manager (h a)) index color else so_manager (h a))" for a
    by (simp add: h)
  with ih show ?case by (simp add: d Let_def flip: h1_def)
qed simp

end
