(* ===== verification/Instruction.thy ===== *)
theory Instruction
  imports Oklab Strip
begin

text \<open>
  The retained instructions: instruction_types.hpp, controller_instruction.hpp, the concrete
  instructions of src/app/controller/instructions and the tagged union InstructionMemorySlot.

  An instruction is the base-class fields and a body, one constructor per concrete class; a slot
  is an optional instruction (the flag \<open>active_\<close> and the tag of the union). The product has one
  strip object, so the pointers \<open>strip\<close> and \<open>controller\<close> of an instruction are modelled by whether
  they are bound. Executing an instruction reads the controller's refresh period, may stage pixels
  on the strip, may request a Show, and returns the delay until it wants to run again.
\<close>

section \<open>Types and payloads\<close>

type_synonym Mark = u16
type_synonym GroupId = u32
type_synonym LoopCount = u16

definition kForeverLoopCount :: LoopCount where "kForeverLoopCount = 0xFFFF"
definition kMaxFiniteLoopCount :: LoopCount where "kMaxFiniteLoopCount = kForeverLoopCount - 1"
definition kMaxInstructions :: nat where "kMaxInstructions = 28"

datatype InstructionTag =
    kSetMultipleColor | kSetSingleColor | kSetMultipleColorHsv | kSetSingleColorHsv
  | kRunGroup | kFade | kGradient

fun InstructionToString :: "InstructionTag \<Rightarrow> string" where
  "InstructionToString kSetMultipleColor = ''SetMultipleColor''"
| "InstructionToString kSetSingleColor = ''SetSingleColor''"
| "InstructionToString kSetMultipleColorHsv = ''SetMultipleColorHsv''"
| "InstructionToString kSetSingleColorHsv = ''SetSingleColorHsv''"
| "InstructionToString kRunGroup = ''RunGroup''"
| "InstructionToString kFade = ''Fade''"
| "InstructionToString kGradient = ''Gradient''"

record Range =
  range_start :: u8
  range_end :: u8

record SetMultipleColorPayload =
  smc_mark :: Mark
  smc_r :: u8
  smc_g :: u8
  smc_b :: u8
  smc_range :: Range

record SetSingleColorPayload =
  ssc_mark :: Mark
  ssc_r :: u8
  ssc_g :: u8
  ssc_b :: u8
  ssc_index :: u8

record SetSingleColorHsvPayload =
  ssh_mark :: Mark
  ssh_h :: u8
  ssh_s :: u8
  ssh_v :: u8
  ssh_index :: u8

record SetMultipleColorHsvPayload =
  smh_mark :: Mark
  smh_h :: u8
  smh_s :: u8
  smh_v :: u8
  smh_range :: Range

record FadePayload =
  fp_mark :: Mark
  fp_percent :: u16
  fp_duration_ms :: u16
  fp_index :: u8
  fp_group_id :: GroupId

record GradientPayload =
  gp_mark :: Mark
  gp_r :: u8
  gp_g :: u8
  gp_b :: u8
  gp_duration_ms :: u16
  gp_index :: u8
  gp_group_id :: GroupId

record RunGroupPayload =
  rg_group_id :: GroupId
  rg_mark :: Mark
  rg_target_id :: GroupId
  rg_additional_repeats :: LoopCount

section \<open>Instructions\<close>

record Fade_data =
  fade_percent :: u16
  fade_duration_ms :: u16
  fade_index :: u8
  fade_started :: bool
  fade_start_time :: u32
  fade_start_color :: RgbColor
  fade_start_value :: u8
  fade_target_value :: u8

record Gradient_data =
  grad_target :: RgbColor
  grad_duration_ms :: u16
  grad_index :: u8
  grad_started :: bool
  grad_start_time :: u32
  grad_source_l :: int
  grad_source_a :: int
  grad_source_b :: int
  grad_target_l :: int
  grad_target_a :: int
  grad_target_b :: int

datatype instr_body =
    SetMultipleColor RgbColor Range
  | SetSingleColor RgbColor u8
  | SetMultipleColorHsv HsvColor Range
  | SetSingleColorHsv HsvColor u8
  | RunGroup GroupId LoopCount
  | Fade Fade_data
  | Gradient Gradient_data

record ControllerInstruction =
  i_mark :: Mark
  i_strip :: bool
  i_controller :: bool
  i_group_id :: GroupId
  i_body :: instr_body

definition instr :: "Mark \<Rightarrow> GroupId \<Rightarrow> instr_body \<Rightarrow> ControllerInstruction" where
  "instr m g body =
     \<lparr>i_mark = m, i_strip = False, i_controller = False, i_group_id = g, i_body = body\<rparr>"

definition mk_SetMultipleColor :: "SetMultipleColorPayload \<Rightarrow> ControllerInstruction" where
  "mk_SetMultipleColor p =
     instr (smc_mark p) 0 (SetMultipleColor (rgb (smc_r p) (smc_g p) (smc_b p)) (smc_range p))"

definition mk_SetSingleColor :: "SetSingleColorPayload \<Rightarrow> ControllerInstruction" where
  "mk_SetSingleColor p =
     instr (ssc_mark p) 0 (SetSingleColor (rgb (ssc_r p) (ssc_g p) (ssc_b p)) (ssc_index p))"

definition mk_SetMultipleColorHsv :: "SetMultipleColorHsvPayload \<Rightarrow> ControllerInstruction" where
  "mk_SetMultipleColorHsv p =
     instr (smh_mark p) 0 (SetMultipleColorHsv (hsv (smh_h p) (smh_s p) (smh_v p)) (smh_range p))"

definition mk_SetSingleColorHsv :: "SetSingleColorHsvPayload \<Rightarrow> ControllerInstruction" where
  "mk_SetSingleColorHsv p =
     instr (ssh_mark p) 0 (SetSingleColorHsv (hsv (ssh_h p) (ssh_s p) (ssh_v p)) (ssh_index p))"

definition mk_RunGroup :: "RunGroupPayload \<Rightarrow> ControllerInstruction" where
  "mk_RunGroup p = instr (rg_mark p) (rg_group_id p) (RunGroup (rg_target_id p) (rg_additional_repeats p))"

definition mk_Fade :: "FadePayload \<Rightarrow> ControllerInstruction" where
  "mk_Fade p = instr (fp_mark p) (fp_group_id p)
     (Fade \<lparr>fade_percent = fp_percent p, fade_duration_ms = fp_duration_ms p, fade_index = fp_index p,
        fade_started = False, fade_start_time = 0, fade_start_color = rgb 0 0 0,
        fade_start_value = 0, fade_target_value = 0\<rparr>)"

definition mk_Gradient :: "GradientPayload \<Rightarrow> ControllerInstruction" where
  "mk_Gradient p = instr (gp_mark p) (gp_group_id p)
     (Gradient \<lparr>grad_target = rgb (gp_r p) (gp_g p) (gp_b p), grad_duration_ms = gp_duration_ms p,
        grad_index = gp_index p, grad_started = False, grad_start_time = 0,
        grad_source_l = 0, grad_source_a = 0, grad_source_b = 0,
        grad_target_l = 0, grad_target_a = 0, grad_target_b = 0\<rparr>)"

fun body_tag :: "instr_body \<Rightarrow> InstructionTag" where
  "body_tag (SetMultipleColor c r) = kSetMultipleColor"
| "body_tag (SetSingleColor c i) = kSetSingleColor"
| "body_tag (SetMultipleColorHsv c r) = kSetMultipleColorHsv"
| "body_tag (SetSingleColorHsv c i) = kSetSingleColorHsv"
| "body_tag (RunGroup t n) = kRunGroup"
| "body_tag (Fade f) = kFade"
| "body_tag (Gradient g) = kGradient"

definition Tag :: "ControllerInstruction \<Rightarrow> InstructionTag" where
  "Tag i = body_tag (i_body i)"

subsection \<open>Color instructions\<close>

text \<open>
  The result of an execution: the delay, whether a Show was requested, the instruction afterwards,
  and the strip afterwards.
\<close>

type_synonym 'mb exec_result = "u32 \<times> bool \<times> instr_body \<times> 'mb StripManager"

definition range_indices :: "Range \<Rightarrow> nat list" where
  "range_indices r = [unat (range_start r)..<unat (range_end r)]"

definition set_range :: "RgbColor \<Rightarrow> Range \<Rightarrow> 'mb StripManager \<Rightarrow> 'mb StripManager" where
  "set_range color r s = fold (\<lambda>i s. set_led s i color) (range_indices r) s"

subsection \<open>Fade\<close>

definition InterpolateValue :: "u8 \<Rightarrow> u8 \<Rightarrow> u32 \<Rightarrow> u32 \<Rightarrow> u8" where
  "InterpolateValue start target elapsed duration =
     (let difference = (if start \<le> target then ucast target - ucast start else ucast start - ucast target) :: u32;
          change = (difference * elapsed + duration div 2) div duration;
          val = (if start \<le> target then ucast start + change else ucast start - change)
      in ucast val)"

definition scale_channel :: "u8 \<Rightarrow> u8 \<Rightarrow> u8 \<Rightarrow> u8" where
  "scale_channel val start_value channel =
     (let scaled = (ucast channel :: u32) * ucast val + ucast start_value div 2
      in ucast (scaled div ucast start_value))"

definition ScaleRgbColor :: "RgbColor \<Rightarrow> u8 \<Rightarrow> u8 \<Rightarrow> RgbColor" where
  "ScaleRgbColor start val start_value =
     (if start_value = 0 then rgb 0 0 0
      else rgb (scale_channel val start_value (red start))
               (scale_channel val start_value (green start))
               (scale_channel val start_value (blue start)))"

definition DelayToFadeUpdate :: "u32 \<Rightarrow> u32 \<Rightarrow> u32 \<Rightarrow> u32" where
  "DelayToFadeUpdate timestamp remaining_ms refresh_period_ms =
     (let phase = timestamp mod refresh_period_ms;
          until_grid = (if phase = 0 then refresh_period_ms else refresh_period_ms - phase)
      in if remaining_ms < until_grid then remaining_ms else until_grid)"

definition Fade_Execute :: "u32 \<Rightarrow> u32 \<Rightarrow> Fade_data \<Rightarrow> 'mb StripManager \<Rightarrow> 'mb exec_result" where
  "Fade_Execute refresh timestamp f s =
     (case Led s (unat (fade_index f)) of
        None \<Rightarrow> (0, False, Fade f, s)
      | Some led \<Rightarrow>
        if \<not> fade_started f then
          let start_color = LedColor s led;
              v0 = red start_color;
              v1 = (if v0 < green start_color then green start_color else v0);
              v2 = (if v1 < blue start_color then blue start_color else v1);
              scaled_value = ((ucast v2 :: u32) * ucast (fade_percent f) + 50) div 100;
              target_value = ucast (if 255 < scaled_value then 255 else scaled_value);
              f1 = f\<lparr>fade_start_color := start_color, fade_start_value := v2,
                     fade_target_value := target_value, fade_start_time := timestamp,
                     fade_started := True\<rparr>
          in if fade_duration_ms f = 0
             then (0, True, Fade f1, snd (SetLedColor led (ScaleRgbColor start_color target_value v2) s))
             else (DelayToFadeUpdate timestamp (ucast (fade_duration_ms f)) refresh, False, Fade f1, s)
        else
          let elapsed = timestamp - fade_start_time f;
              complete = (ucast (fade_duration_ms f) \<le> elapsed);
              val = (if complete then fade_target_value f
                     else InterpolateValue (fade_start_value f) (fade_target_value f) elapsed
                            (ucast (fade_duration_ms f)));
              s1 = snd (SetLedColor led (ScaleRgbColor (fade_start_color f) val (fade_start_value f)) s)
          in if complete then (0, True, Fade f, s1)
             else (DelayToFadeUpdate timestamp (ucast (fade_duration_ms f) - elapsed) refresh,
                   True, Fade f, s1))"

subsection \<open>Gradient\<close>

definition DelayToGradientUpdate :: "u32 \<Rightarrow> u32 \<Rightarrow> u32 \<Rightarrow> u32" where
  "DelayToGradientUpdate elapsed_ms remaining_ms refresh_period_ms =
     (let phase = elapsed_ms mod refresh_period_ms;
          until_grid = (if phase = 0 then refresh_period_ms else refresh_period_ms - phase)
      in if remaining_ms < until_grid then remaining_ms else until_grid)"

definition CachedOklab :: "int \<Rightarrow> int \<Rightarrow> int \<Rightarrow> OklabColor" where
  "CachedOklab l a b = lab l a b"

definition Gradient_Execute :: "u32 \<Rightarrow> u32 \<Rightarrow> Gradient_data \<Rightarrow> 'mb StripManager \<Rightarrow> 'mb exec_result" where
  "Gradient_Execute refresh timestamp g s =
     (case Led s (unat (grad_index g)) of
        None \<Rightarrow> (0, False, Gradient g, s)
      | Some led \<Rightarrow>
        if \<not> grad_started g then
          let source = LedColor s led;
              g1 = g\<lparr>grad_start_time := timestamp, grad_started := True\<rparr>
          in if grad_duration_ms g = 0
             then (0, True, Gradient g1, snd (SetLedColor led (grad_target g) s))
             else
               let source_lab = ToOklab source;
                   target_lab = ToOklab (grad_target g);
                   g2 = g1\<lparr>grad_source_l := lab_l source_lab, grad_source_a := lab_a source_lab,
                           grad_source_b := lab_b source_lab, grad_target_l := lab_l target_lab,
                           grad_target_a := lab_a target_lab, grad_target_b := lab_b target_lab\<rparr>
               in (DelayToGradientUpdate 0 (ucast (grad_duration_ms g)) refresh, False, Gradient g2, s)
        else
          let elapsed_ms = timestamp - grad_start_time g;
              complete = (ucast (grad_duration_ms g) \<le> elapsed_ms);
              sample = (if complete then grad_target g
                        else FromOklab (Interpolate
                               (CachedOklab (grad_source_l g) (grad_source_a g) (grad_source_b g))
                               (CachedOklab (grad_target_l g) (grad_target_a g) (grad_target_b g))
                               (ucast elapsed_ms) (grad_duration_ms g)));
              s1 = snd (SetLedColor led sample s)
          in if complete then (0, True, Gradient g, s1)
             else (DelayToGradientUpdate elapsed_ms (ucast (grad_duration_ms g) - elapsed_ms) refresh,
                   True, Gradient g, s1))"

subsection \<open>The virtual operations\<close>

definition SetMultipleColor_Execute :: "RgbColor \<Rightarrow> Range \<Rightarrow> 'mb StripManager \<Rightarrow> 'mb exec_result" where [simp]:
  "SetMultipleColor_Execute c r s = (0, True, SetMultipleColor c r, set_range c r s)"

definition SetSingleColor_Execute :: "RgbColor \<Rightarrow> u8 \<Rightarrow> 'mb StripManager \<Rightarrow> 'mb exec_result" where [simp]:
  "SetSingleColor_Execute c i s = (0, True, SetSingleColor c i, set_led s (unat i) c)"

definition SetMultipleColorHsv_Execute :: "HsvColor \<Rightarrow> Range \<Rightarrow> 'mb StripManager \<Rightarrow> 'mb exec_result" where [simp]:
  "SetMultipleColorHsv_Execute c r s = (0, True, SetMultipleColorHsv c r, set_range (HsvToRgb c) r s)"

definition SetSingleColorHsv_Execute :: "HsvColor \<Rightarrow> u8 \<Rightarrow> 'mb StripManager \<Rightarrow> 'mb exec_result" where [simp]:
  "SetSingleColorHsv_Execute c i s = (0, True, SetSingleColorHsv c i, set_led s (unat i) (HsvToRgb c))"

definition RunGroup_Execute :: "GroupId \<Rightarrow> LoopCount \<Rightarrow> 'mb StripManager \<Rightarrow> 'mb exec_result" where [simp]:
  "RunGroup_Execute t n s = (0, False, RunGroup t n, s)"

text \<open>
  The virtual call. The null checks on the controller and the strip, with which the methods begin,
  are in \<open>instr_Execute\<close>; RunGroup has none, and returns the same with or without it.
\<close>

fun body_Execute :: "u32 \<Rightarrow> u32 \<Rightarrow> instr_body \<Rightarrow> 'mb StripManager \<Rightarrow> 'mb exec_result" where
  "body_Execute refresh ts (SetMultipleColor c r) s = SetMultipleColor_Execute c r s"
| "body_Execute refresh ts (SetSingleColor c i) s = SetSingleColor_Execute c i s"
| "body_Execute refresh ts (SetMultipleColorHsv c r) s = SetMultipleColorHsv_Execute c r s"
| "body_Execute refresh ts (SetSingleColorHsv c i) s = SetSingleColorHsv_Execute c i s"
| "body_Execute refresh ts (RunGroup t n) s = RunGroup_Execute t n s"
| "body_Execute refresh ts (Fade f) s = Fade_Execute refresh ts f s"
| "body_Execute refresh ts (Gradient g) s = Gradient_Execute refresh ts g s"

definition instr_Execute ::
  "u32 \<Rightarrow> u32 \<Rightarrow> ControllerInstruction \<Rightarrow> 'mb StripManager \<Rightarrow> u32 \<times> bool \<times> ControllerInstruction \<times> 'mb StripManager" where
  "instr_Execute refresh ts i s =
     (if \<not> i_controller i \<or> \<not> i_strip i then (0, False, i, s)
      else case body_Execute refresh ts (i_body i) s of
             (delay, show, body, s1) \<Rightarrow> (delay, show, i\<lparr>i_body := body\<rparr>, s1))"

definition Fade_ResetForReplay :: "Fade_data \<Rightarrow> Fade_data" where [simp]:
  "Fade_ResetForReplay f =
     f\<lparr>fade_started := False, fade_start_time := 0, fade_start_color := rgb 0 0 0,
       fade_start_value := 0, fade_target_value := 0\<rparr>"

definition Gradient_ResetForReplay :: "Gradient_data \<Rightarrow> Gradient_data" where [simp]:
  "Gradient_ResetForReplay g =
     g\<lparr>grad_started := False, grad_start_time := 0,
       grad_source_l := 0, grad_source_a := 0, grad_source_b := 0,
       grad_target_l := 0, grad_target_a := 0, grad_target_b := 0\<rparr>"

fun body_ResetForReplay :: "instr_body \<Rightarrow> instr_body" where
  "body_ResetForReplay (Fade f) = Fade (Fade_ResetForReplay f)"
| "body_ResetForReplay (Gradient g) = Gradient (Gradient_ResetForReplay g)"
| "body_ResetForReplay body = body"

definition instr_ResetForReplay :: "ControllerInstruction \<Rightarrow> ControllerInstruction" where
  "instr_ResetForReplay i = i\<lparr>i_body := body_ResetForReplay (i_body i)\<rparr>"

fun body_HasPositiveSchedulingBoundary :: "instr_body \<Rightarrow> bool" where
  "body_HasPositiveSchedulingBoundary (Fade f) = (0 < fade_duration_ms f)"
| "body_HasPositiveSchedulingBoundary (Gradient g) = (0 < grad_duration_ms g)"
| "body_HasPositiveSchedulingBoundary body = False"

fun body_IsRunGroup :: "instr_body \<Rightarrow> bool" where
  "body_IsRunGroup (RunGroup t n) = True"
| "body_IsRunGroup body = False"

fun body_TargetGroupId :: "instr_body \<Rightarrow> GroupId" where
  "body_TargetGroupId (RunGroup t n) = t"
| "body_TargetGroupId body = 0"

fun body_AdditionalRepeats :: "instr_body \<Rightarrow> LoopCount" where
  "body_AdditionalRepeats (RunGroup t n) = n"
| "body_AdditionalRepeats body = 0"

section \<open>InstructionMemorySlot\<close>

type_synonym InstructionMemorySlot = "ControllerInstruction option"

text \<open>Set with a non-null pointer: every tag of the product build is supported.\<close>

definition slot_Set :: "ControllerInstruction option \<Rightarrow> InstructionMemorySlot \<Rightarrow> bool \<times> InstructionMemorySlot" where
  "slot_Set i slot = (case i of None \<Rightarrow> (False, None) | Some x \<Rightarrow> (True, Some x))"

definition slot_Clear :: "InstructionMemorySlot \<Rightarrow> InstructionMemorySlot" where
  "slot_Clear slot = None"

definition GetMark :: "InstructionMemorySlot \<Rightarrow> Mark" where
  "GetMark slot = (case slot of None \<Rightarrow> 0 | Some i \<Rightarrow> i_mark i)"

definition slot_SetStrip :: "bool \<Rightarrow> InstructionMemorySlot \<Rightarrow> InstructionMemorySlot" where
  "slot_SetStrip b slot = map_option (\<lambda>i. i\<lparr>i_strip := b\<rparr>) slot"

definition slot_SetController :: "bool \<Rightarrow> InstructionMemorySlot \<Rightarrow> InstructionMemorySlot" where
  "slot_SetController b slot = map_option (\<lambda>i. i\<lparr>i_controller := b\<rparr>) slot"

definition GetGroupId :: "InstructionMemorySlot \<Rightarrow> GroupId" where
  "GetGroupId slot = (case slot of None \<Rightarrow> 0 | Some i \<Rightarrow> i_group_id i)"

definition IsRunGroup :: "InstructionMemorySlot \<Rightarrow> bool" where
  "IsRunGroup slot = (case slot of None \<Rightarrow> False | Some i \<Rightarrow> body_IsRunGroup (i_body i))"

definition GetTargetGroupId :: "InstructionMemorySlot \<Rightarrow> GroupId" where
  "GetTargetGroupId slot = (case slot of None \<Rightarrow> 0 | Some i \<Rightarrow> body_TargetGroupId (i_body i))"

definition GetAdditionalRepeats :: "InstructionMemorySlot \<Rightarrow> LoopCount" where
  "GetAdditionalRepeats slot = (case slot of None \<Rightarrow> 0 | Some i \<Rightarrow> body_AdditionalRepeats (i_body i))"

definition HasPositiveSchedulingBoundary :: "InstructionMemorySlot \<Rightarrow> bool" where
  "HasPositiveSchedulingBoundary slot =
     (case slot of None \<Rightarrow> False | Some i \<Rightarrow> body_HasPositiveSchedulingBoundary (i_body i))"

definition slot_ResetForReplay :: "InstructionMemorySlot \<Rightarrow> InstructionMemorySlot" where
  "slot_ResetForReplay slot = map_option instr_ResetForReplay slot"

definition slot_Execute ::
  "u32 \<Rightarrow> u32 \<Rightarrow> InstructionMemorySlot \<Rightarrow> 'mb StripManager \<Rightarrow> u32 \<times> bool \<times> InstructionMemorySlot \<times> 'mb StripManager" where
  "slot_Execute refresh ts slot s =
     (case slot of
        None \<Rightarrow> (0, False, None, s)
      | Some i \<Rightarrow> (case instr_Execute refresh ts i s of (delay, show, i1, s1) \<Rightarrow> (delay, show, Some i1, s1)))"

section \<open>Scheduling delays\<close>

lemma DelayToGradientUpdate_eq: "DelayToGradientUpdate = DelayToFadeUpdate"
  by (intro ext) (simp add: DelayToGradientUpdate_def DelayToFadeUpdate_def)

lemma delay_update_cases:
  assumes "0 < p"
  shows "DelayToFadeUpdate t r p = r \<and> unat r < unat p - unat t mod unat p
     \<or> unat (DelayToFadeUpdate t r p) = unat p - unat t mod unat p \<and> unat p - unat t mod unat p \<le> unat r"
proof -
  have p: "0 < unat p" using assms by (simp add: word_less_nat_alt)
  then have "unat t mod unat p < unat p" by simp
  moreover have "unat (p - t mod p) = unat p - unat t mod unat p"
    using p by (simp add: unat_diff_u32 unat_mod_distrib less_imp_le)
  moreover have "(t mod p = 0) = (unat t mod unat p = 0)"
    by (simp add: unat_eq_zero [symmetric] unat_mod_distrib del: unat_eq_zero)
  ultimately show ?thesis
    by (auto simp: DelayToFadeUpdate_def Let_def word_less_nat_alt)
qed

lemma delay_update_bounds:
  assumes "0 < p" "0 < r"
  shows "0 < unat (DelayToFadeUpdate t r p)" "unat (DelayToFadeUpdate t r p) \<le> unat r"
    "unat (DelayToFadeUpdate t r p) \<le> unat p"
    "DelayToFadeUpdate t r p = r \<or> (unat t + unat (DelayToFadeUpdate t r p)) mod unat p = 0"
proof -
  have p: "0 < unat p" and r: "0 < unat r" using assms by (simp_all add: word_less_nat_alt)
  then have "unat t mod unat p < unat p" by simp
  with delay_update_cases [OF assms(1), of t r] r
  show "0 < unat (DelayToFadeUpdate t r p)" "unat (DelayToFadeUpdate t r p) \<le> unat r"
    "unat (DelayToFadeUpdate t r p) \<le> unat p" by auto
  have "unat t + (unat p - unat t mod unat p) = (unat t div unat p + 1) * unat p"
    using \<open>unat t mod unat p < unat p\<close> div_mult_mod_eq [of "unat t" "unat p"]
    unfolding add_mult_distrib mult_1 by linarith
  with delay_update_cases [OF assms(1), of t r]
  show "DelayToFadeUpdate t r p = r \<or> (unat t + unat (DelayToFadeUpdate t r p)) mod unat p = 0"
    by (metis mod_mult_self2_is_0)
qed

section \<open>Fade arithmetic\<close>

lemma round_fraction_half: "0 < d \<Longrightarrow> (m * e + d div 2) div d = round_fraction m e d"
proof -
  assume d: "0 < d"
  have "(m * e + d div 2) div d = (2 * (m * e + d div 2)) div (2 * d)"
    by (simp only: div_mult_mult1_if) simp
  also have "\<dots> = (2 * m * e + d) div (2 * d)"
  proof (cases "even d")
    case True
    then show ?thesis by (simp add: algebra_simps)
  next
    case False
    then obtain k where k: "d = 2 * k + 1" by (auto elim: oddE)
    have "2 * (m * e + d div 2) = 2 * (m * e + k)" "2 * m * e + d = Suc (2 * (m * e + k))"
      by (simp_all add: k)
    moreover have "Suc (2 * (m * e + k)) div (2 * d) = 2 * (m * e + k) div (2 * d)"
      by (simp add: div_mult2_eq)
    ultimately show ?thesis by (simp only:)
  qed
  finally show ?thesis by (simp add: round_fraction_def)
qed

lemma InterpolateValue_eq:
  assumes d: "0 < d" "unat d < 65536" and e: "e \<le> d"
  shows "int (unat (InterpolateValue a b e d)) =
     int (unat a) + sgn (int (unat b) - int (unat a))
       * int (round_fraction (nat \<bar>int (unat b) - int (unat a)\<bar>) (unat e) (unat d))"
proof -
  define diff where "diff = (if a \<le> b then ucast b - ucast a else ucast a - ucast b :: u32)"
  have diff: "unat diff = nat \<bar>int (unat b) - int (unat a)\<bar>"
    unfolding diff_def word_le_nat_alt
    by (cases "unat a \<le> unat b") (simp_all add: unat_diff_u32 word_nat nat_minus_as_int del: of_nat_unat)
  have d0: "0 < unat d" using d(1) by (simp add: word_less_nat_alt)
  have ed: "unat e \<le> unat d" using e by (simp add: word_le_nat_alt)
  have dl: "unat diff \<le> 255"
    using unat_u8_le [of a] unat_u8_le [of b] unfolding diff by linarith
  then have "unat diff * unat e \<le> 255 * 65535" using ed d(2) by (intro mult_le_mono) linarith+
  then have c: "unat ((diff * e + d div 2) div d) = round_fraction (unat diff) (unat e) (unat d)"
    using d by (simp add: unat_div_distrib unat_add_u32 unat_mult_u32 round_fraction_half [OF d0])
  define ch where "ch = (diff * e + d div 2) div d"
  have cl: "unat ch \<le> unat diff" unfolding ch_def c by (rule round_fraction_le [OF d0 ed])
  have "int (unat (InterpolateValue a b e d)) = int (unat a) + sgn (int (unat b) - int (unat a)) * int (unat ch)"
  proof (cases "a \<le> b")
    case True
    then have ab: "unat a \<le> unat b" by (simp add: word_le_nat_alt)
    have le: "unat a + unat ch \<le> unat b" using cl ab unfolding diff by linarith
    have "InterpolateValue a b e d = ucast (ucast a + ch)"
      using True by (simp add: InterpolateValue_def Let_def ch_def diff_def)
    then have "unat (InterpolateValue a b e d) = unat a + unat ch"
      using le unat_u8_lt [of b] by (simp add: word_nat unat_add_u32 del: unat_u8_lt)
    moreover have "unat b = unat a \<Longrightarrow> unat ch = 0" using le by simp
    ultimately show ?thesis using ab by (auto simp: sgn_if simp del: of_nat_unat)
  next
    case False
    then have ab: "unat b < unat a" by (simp add: word_le_nat_alt)
    have le: "unat ch \<le> unat a" using cl ab unfolding diff by linarith
    have "InterpolateValue a b e d = ucast (ucast a - ch)"
      using False by (simp add: InterpolateValue_def Let_def ch_def diff_def)
    then have "unat (InterpolateValue a b e d) = unat a - unat ch"
      using le unat_u8_lt [of a] by (simp add: word_nat unat_diff_u32 del: unat_u8_lt)
    then show ?thesis using ab le by (simp add: sgn_if del: of_nat_unat)
  qed
  then show ?thesis by (simp only: ch_def c diff)
qed

lemma scale_channel_eq:
  assumes "ch \<le> sv" "0 < sv"
  shows "unat (scale_channel v sv ch) = (unat ch * unat v + unat sv div 2) div unat sv"
    and "unat (scale_channel v sv ch) \<le> unat v"
proof -
  have sv: "0 < unat sv" "unat ch \<le> unat sv" using assms by (simp_all add: word_less_nat_alt word_le_nat_alt)
  have "unat ch * unat v \<le> 255 * 255" by (intro mult_le_mono) simp_all
  then have s: "unat ((ucast ch :: u32) * ucast v + ucast sv div 2) = unat ch * unat v + unat sv div 2"
    using unat_u8_le [of sv] by (simp add: unat_add_u32 unat_mult_u32 unat_div_distrib word_nat del: unat_u8_le)
  have "(unat ch * unat v + unat sv div 2) div unat sv \<le> (unat sv * unat v + unat sv div 2) div unat sv"
    using sv by (intro div_le_mono) simp
  also have "\<dots> = unat v" using sv by simp
  finally have le: "(unat ch * unat v + unat sv div 2) div unat sv \<le> unat v" .
  then have "(unat ch * unat v + unat sv div 2) div unat sv < 256"
    using unat_u8_lt [of v] by linarith
  then show eq: "unat (scale_channel v sv ch) = (unat ch * unat v + unat sv div 2) div unat sv"
    by (simp add: scale_channel_def Let_def word_nat unat_div_distrib s)
  show "unat (scale_channel v sv ch) \<le> unat v" using le by (simp add: eq)
qed

lemma scale_channel_max: "0 < sv \<Longrightarrow> scale_channel v sv sv = v"
  by (simp add: u8_eq_iff scale_channel_eq word_less_nat_alt)

text \<open>Scaling a color keeps its hue: its brightest channel becomes exactly the requested value.\<close>

lemma max3_ScaleRgbColor:
  assumes "0 < max3 c"
  shows "max3 (ScaleRgbColor c v (max3 c)) = v"
proof -
  have le: "red c \<le> max3 c" "green c \<le> max3 c" "blue c \<le> max3 c"
    by (auto simp: max3_def le_max_iff_disj)
  have "red c = max3 c \<or> green c = max3 c \<or> blue c = max3 c"
    by (auto simp: max3_def max_def)
  then have "scale_channel v (max3 c) (red c) = v \<or> scale_channel v (max3 c) (green c) = v
      \<or> scale_channel v (max3 c) (blue c) = v"
    using scale_channel_max [OF assms] by metis
  moreover have "scale_channel v (max3 c) (red c) \<le> v" "scale_channel v (max3 c) (green c) \<le> v"
      "scale_channel v (max3 c) (blue c) \<le> v"
    using scale_channel_eq(2) [OF le(1) assms] scale_channel_eq(2) [OF le(2) assms]
      scale_channel_eq(2) [OF le(3) assms] by (simp_all add: word_le_nat_alt)
  ultimately show ?thesis
    using assms unfolding ScaleRgbColor_def
    by (auto simp: rgb_def max3_def [of "\<lparr>red = _, green = _, blue = _\<rparr>"] max_def)
qed

section \<open>Frame facts of an execution\<close>

text \<open>
  What never changes while instructions run: the mark, the group, the bindings, and of the body
  everything but the run-time fields of a fade or a gradient, which is what remains after
  ResetForReplay.
\<close>

lemma set_range_frame [simp]:
  "strip_mailbox (set_range c r s) = strip_mailbox s"
  "strip_ready (set_range c r s) = strip_ready s"
  "strip_led_count (set_range c r s) = strip_led_count s"
proof -
  have "strip_mailbox (fold (\<lambda>i s. set_led s i c) is s) = strip_mailbox s \<and>
      strip_ready (fold (\<lambda>i s. set_led s i c) is s) = strip_ready s \<and>
      strip_led_count (fold (\<lambda>i s. set_led s i c) is s) = strip_led_count s" for "is"
    by (induction "is" arbitrary: s) auto
  then show "strip_mailbox (set_range c r s) = strip_mailbox s"
    "strip_ready (set_range c r s) = strip_ready s"
    "strip_led_count (set_range c r s) = strip_led_count s" by (auto simp: set_range_def)
qed

lemma strip_inv_set_range: "strip_inv s \<Longrightarrow> strip_inv (set_range c r s)"
  unfolding set_range_def by (rule manager.invar_fold)

lemma SetLedColor_as_set_led: "Led s i = Some k \<Longrightarrow> snd (SetLedColor k c s) = set_led s i c"
  by (simp add: set_led_def)

lemma body_Execute_strip:
  "body_Execute p ts b s = (d, sh, b', s') \<Longrightarrow> strip_mailbox s' = strip_mailbox s
   \<and> strip_ready s' = strip_ready s \<and> strip_led_count s' = strip_led_count s \<and> (strip_inv s \<longrightarrow> strip_inv s')"
  by (cases b)
     (auto simp: strip_inv_set_range manager.invar_set Fade_Execute_def Gradient_Execute_def Let_def
        SetLedColor_as_set_led split: option.splits if_splits)

lemma body_Execute_static:
  "body_Execute p ts b s = (d, sh, b', s') \<Longrightarrow> body_ResetForReplay b' = body_ResetForReplay b"
  by (cases b)
     (auto simp: Fade_Execute_def Gradient_Execute_def Let_def split: option.splits if_splits)

lemma ResetForReplay_facts:
  "body_IsRunGroup (body_ResetForReplay b) = body_IsRunGroup b"
  "body_TargetGroupId (body_ResetForReplay b) = body_TargetGroupId b"
  "body_AdditionalRepeats (body_ResetForReplay b) = body_AdditionalRepeats b"
  "body_HasPositiveSchedulingBoundary (body_ResetForReplay b) = body_HasPositiveSchedulingBoundary b"
  "body_ResetForReplay (body_ResetForReplay b) = body_ResetForReplay b"
  by (cases b; simp)+

lemma static_body_facts:
  assumes "body_ResetForReplay b' = body_ResetForReplay b"
  shows "body_IsRunGroup b' = body_IsRunGroup b" "body_TargetGroupId b' = body_TargetGroupId b"
    "body_AdditionalRepeats b' = body_AdditionalRepeats b"
    "body_HasPositiveSchedulingBoundary b' = body_HasPositiveSchedulingBoundary b"
  using assms ResetForReplay_facts by metis+

lemma delay_update_remaining:
  assumes "0 < p"
  shows "unat (DelayToFadeUpdate t (ucast (r :: u16)) p) \<le> 65535"
    and "e < ucast r \<Longrightarrow> unat (DelayToFadeUpdate t (ucast (r :: u16) - e) p) \<le> 65535"
proof -
  have le: "unat (DelayToFadeUpdate t x p) \<le> unat x" for x
    using delay_update_cases [OF assms, of t x] by auto
  show "unat (DelayToFadeUpdate t (ucast (r :: u16)) p) \<le> 65535"
    using le [of "ucast r"] unat_u16_le [of r] by (simp add: word_nat del: unat_u16_le)
  assume "e < ucast r"
  then have "unat (ucast r - e :: u32) \<le> unat r"
    by (subst unat_diff_u32) (simp_all add: word_less_nat_alt word_nat)
  then show "unat (DelayToFadeUpdate t (ucast (r :: u16) - e) p) \<le> 65535"
    using le [of "ucast r - e"] unat_u16_le [of r] by linarith
qed

lemma body_Execute_delay:
  "body_Execute p ts b s = (d, sh, b', s') \<Longrightarrow> 0 < p \<Longrightarrow> unat d \<le> 65535"
  by (cases b)
     (auto simp: Fade_Execute_def Gradient_Execute_def Let_def not_le DelayToGradientUpdate_eq
        delay_update_remaining split: option.splits if_splits)

text \<open>The facts about slots that the controller uses.\<close>

lemma slot_Reset_facts [simp]:
  "GetMark (slot_ResetForReplay a) = GetMark a"
  "GetGroupId (slot_ResetForReplay a) = GetGroupId a"
  "IsRunGroup (slot_ResetForReplay a) = IsRunGroup a"
  "GetTargetGroupId (slot_ResetForReplay a) = GetTargetGroupId a"
  "GetAdditionalRepeats (slot_ResetForReplay a) = GetAdditionalRepeats a"
  "HasPositiveSchedulingBoundary (slot_ResetForReplay a) = HasPositiveSchedulingBoundary a"
  "slot_ResetForReplay (slot_ResetForReplay a) = slot_ResetForReplay a"
  by (cases a; simp add: slot_ResetForReplay_def instr_ResetForReplay_def GetMark_def GetGroupId_def
      IsRunGroup_def GetTargetGroupId_def GetAdditionalRepeats_def HasPositiveSchedulingBoundary_def
      ResetForReplay_facts)+

lemma slot_static_facts:
  assumes "slot_ResetForReplay a = slot_ResetForReplay b"
  shows "GetMark a = GetMark b" "GetGroupId a = GetGroupId b" "IsRunGroup a = IsRunGroup b"
    "GetTargetGroupId a = GetTargetGroupId b" "GetAdditionalRepeats a = GetAdditionalRepeats b"
    "HasPositiveSchedulingBoundary a = HasPositiveSchedulingBoundary b"
  using assms slot_Reset_facts by metis+

lemma slot_Execute_facts:
  assumes "slot_Execute p ts a s = (d, sh, a', s')" "0 < p"
  shows "slot_ResetForReplay a' = slot_ResetForReplay a" "unat d \<le> 65535"
    "strip_mailbox s' = strip_mailbox s \<and> strip_ready s' = strip_ready s
       \<and> strip_led_count s' = strip_led_count s \<and> (strip_inv s \<longrightarrow> strip_inv s')"
  using assms
  by (auto simp: slot_Execute_def instr_Execute_def slot_ResetForReplay_def
      instr_ResetForReplay_def split: option.splits if_splits prod.splits
      dest: body_Execute_static body_Execute_delay body_Execute_strip)

section \<open>Behaviour of the instructions\<close>

lemma manager_pixel: "strip_inv s \<Longrightarrow> LedColor (set_led s i c) j = (if i = j \<and> j < strip_led_count s then c else LedColor s j)"
  by (rule manager.pixel_set)

lemma max3_chain:
  "(let v0 = red c; v1 = (if v0 < green c then green c else v0) in (if v1 < blue c then blue c else v1)) = max3 c"
  by (auto simp: max3_def max_def Let_def)

text \<open>The target brightness of a fade that starts at brightness \<open>v\<close>.\<close>

definition fade_target :: "u8 \<Rightarrow> u16 \<Rightarrow> nat" where
  "fade_target v percent = min 255 ((unat v * unat percent + 50) div 100)"

lemma unat_fade_target:
  "unat (ucast (if 255 < ((ucast v :: u32) * ucast percent + 50) div 100 then 255
      else ((ucast v :: u32) * ucast percent + 50) div 100) :: u8) = fade_target v percent"
proof -
  have "unat v * unat percent \<le> 255 * 65535" by (intro mult_le_mono) simp_all
  then have "unat (((ucast v :: u32) * ucast percent + 50) div 100) = (unat v * unat percent + 50) div 100"
    by (simp add: unat_div_distrib unat_add_u32 unat_mult_u32 word_nat)
  then show ?thesis by (auto simp: fade_target_def word_less_nat_alt word_nat)
qed

lemma Fade_Execute_first:
  assumes "unat (fade_index f) < strip_led_count s" "\<not> fade_started f" "fade_duration_ms f \<noteq> 0"
  shows "\<exists>f1. Fade_Execute p ts f s
       = (DelayToFadeUpdate ts (ucast (fade_duration_ms f)) p, False, Fade f1, s)
     \<and> fade_started f1 \<and> fade_start_time f1 = ts \<and> fade_index f1 = fade_index f
     \<and> fade_duration_ms f1 = fade_duration_ms f
     \<and> fade_start_color f1 = LedColor s (unat (fade_index f))
     \<and> fade_start_value f1 = max3 (LedColor s (unat (fade_index f)))
     \<and> unat (fade_target_value f1) = fade_target (max3 (LedColor s (unat (fade_index f)))) (fade_percent f)"
  using assms unat_fade_target
  by (simp add: Fade_Execute_def Led_def Let_def max3_chain [unfolded Let_def] del: if_split cong: if_cong)

lemma Fade_Execute_later:
  assumes "strip_inv s" "strip_ready s" "unat (fade_index f) < strip_led_count s" "fade_started f"
    and "fade_start_value f = max3 (fade_start_color f)" "0 < max3 (fade_start_color f)"
    and "fade_duration_ms f \<noteq> 0"
  shows "\<exists>d s' v. Fade_Execute p ts f s = (d, True, Fade f, s')
     \<and> max3 (LedColor s' (unat (fade_index f))) = v
     \<and> (\<forall>j. j \<noteq> unat (fade_index f) \<longrightarrow> LedColor s' j = LedColor s j)
     \<and> (if ucast (fade_duration_ms f) \<le> ts - fade_start_time f then d = 0 \<and> v = fade_target_value f
        else d = DelayToFadeUpdate ts (ucast (fade_duration_ms f) - (ts - fade_start_time f)) p
          \<and> int (unat v) = int (unat (fade_start_value f))
              + sgn (int (unat (fade_target_value f)) - int (unat (fade_start_value f)))
                * int (round_fraction (nat \<bar>int (unat (fade_target_value f)) - int (unat (fade_start_value f))\<bar>)
                         (unat (ts - fade_start_time f)) (unat (fade_duration_ms f))))"
proof -
  let ?e = "ts - fade_start_time f" and ?d = "ucast (fade_duration_ms f) :: u32"
  have d: "0 < ?d" "unat ?d < 65536"
    using assms(7) by (simp_all add: word_less_nat_alt word_nat unat_gt_0)
  note v = InterpolateValue_eq [OF d, of ?e "fade_start_value f" "fade_target_value f"]
  show ?thesis
    using assms v
    by (simp add: Fade_Execute_def Led_def Let_def SetLedColor_as_set_led [unfolded Led_def, of s "unat (fade_index f)" "unat (fade_index f)"]
        manager_pixel max3_ScaleRgbColor word_nat)
qed

text \<open>
  C25. A fade is a linear ramp of brightness: executed at any time after its start, it sets its
  pixel to the start color scaled so that its brightest channel is the start brightness plus the
  rounded fraction of the change that has elapsed, and from the end of its duration on to exactly
  the requested percentage of the start brightness, limited to 255; it asks to be run again
  exactly while it is unfinished, and touches no other pixel.
\<close>

theorem Fade_Execute_ramp:
  assumes "\<not> fade_started f" "fade_duration_ms f \<noteq> 0" "0 < p"
    and "unat (fade_index f) < strip_led_count s0"
    and "Fade_Execute p t0 f s0 = (d0, sh0, Fade f1, s0')"
    and "strip_inv s" "strip_ready s" "unat (fade_index f) < strip_led_count s"
    and "v0 = max3 (LedColor s0 (unat (fade_index f)))" "0 < v0"
    and "Fade_Execute p ts f1 s = (d, sh, b, s')"
  shows "int (unat (max3 (LedColor s' (unat (fade_index f))))) =
      (let target = int (fade_target v0 (fade_percent f)); start = int (unat v0)
       in if ucast (fade_duration_ms f) \<le> ts - t0 then target
          else start + sgn (target - start)
            * int (round_fraction (nat \<bar>target - start\<bar>) (unat (ts - t0)) (unat (fade_duration_ms f))))
    \<and> (d = 0 \<longleftrightarrow> ucast (fade_duration_ms f) \<le> ts - t0)
    \<and> sh \<and> (\<forall>j. j \<noteq> unat (fade_index f) \<longrightarrow> LedColor s' j = LedColor s j)"
proof -
  from Fade_Execute_first [OF assms(4,1,2), of p t0] assms(5,9)
  have f1: "fade_started f1" "fade_start_time f1 = t0" "fade_index f1 = fade_index f"
    "fade_duration_ms f1 = fade_duration_ms f" "fade_start_value f1 = max3 (fade_start_color f1)"
    "fade_start_value f1 = v0" "unat (fade_target_value f1) = fade_target v0 (fade_percent f)"
    by auto
  have pos: "0 < max3 (fade_start_color f1)" using f1 assms(10) by simp
  have dn: "d \<noteq> 0" if "d = DelayToFadeUpdate ts (ucast (fade_duration_ms f) - (ts - t0)) p"
      "\<not> ucast (fade_duration_ms f) \<le> ts - t0"
  proof -
    have "0 < ucast (fade_duration_ms f) - (ts - t0)"
      using that(2) by (simp add: word_gt_0 not_le)
    from delay_update_bounds(1) [OF assms(3) this, of ts] that(1) show ?thesis by auto
  qed
  from Fade_Execute_later [of s f1 p ts] assms(2,6,7,8,11) f1 pos
  obtain v where v: "max3 (LedColor s' (unat (fade_index f))) = v" "sh"
     "\<forall>j. j \<noteq> unat (fade_index f) \<longrightarrow> LedColor s' j = LedColor s j"
     "if ucast (fade_duration_ms f) \<le> ts - t0 then d = 0 \<and> v = fade_target_value f1
        else d = DelayToFadeUpdate ts (ucast (fade_duration_ms f) - (ts - t0)) p
          \<and> int (unat v) = int (unat v0)
              + sgn (int (unat (fade_target_value f1)) - int (unat v0))
                * int (round_fraction (nat \<bar>int (unat (fade_target_value f1)) - int (unat v0)\<bar>)
                         (unat (ts - t0)) (unat (fade_duration_ms f)))"
    unfolding f1 by fastforce
  show ?thesis
    using v dn f1(7) by (auto simp: Let_def simp del: of_nat_unat split: if_splits)
qed

lemma Gradient_Execute_first:
  assumes "unat (grad_index g) < strip_led_count s" "\<not> grad_started g" "grad_duration_ms g \<noteq> 0"
  shows "\<exists>g1. Gradient_Execute p ts g s
       = (DelayToGradientUpdate 0 (ucast (grad_duration_ms g)) p, False, Gradient g1, s)
     \<and> grad_started g1 \<and> grad_start_time g1 = ts \<and> grad_index g1 = grad_index g
     \<and> grad_duration_ms g1 = grad_duration_ms g \<and> grad_target g1 = grad_target g
     \<and> CachedOklab (grad_source_l g1) (grad_source_a g1) (grad_source_b g1)
         = ToOklab (LedColor s (unat (grad_index g)))
     \<and> CachedOklab (grad_target_l g1) (grad_target_a g1) (grad_target_b g1) = ToOklab (grad_target g)"
  using assms by (simp add: Gradient_Execute_def Led_def Let_def CachedOklab_def lab_def)

text \<open>
  C26. A gradient that caches the OKLab coordinates of its endpoints when it starts shows, at every
  later time, the color the reference interpolation between the captured color and the target
  gives, ends exactly on the target, asks to be run again exactly while it is unfinished, and
  touches no other pixel.
\<close>

theorem Gradient_Execute_refines:
  assumes "\<not> grad_started g" "grad_duration_ms g \<noteq> 0" "0 < p"
    and "unat (grad_index g) < strip_led_count s0"
    and "Gradient_Execute p t0 g s0 = (d0, sh0, Gradient g1, s0')"
    and "strip_inv s" "strip_ready s" "unat (grad_index g) < strip_led_count s"
    and "ts \<noteq> t0"
    and "Gradient_Execute p ts g1 s = (d, sh, b, s')"
  shows "LedColor s' (unat (grad_index g)) =
      (if ucast (grad_duration_ms g) \<le> ts - t0 then grad_target g
       else InterpolateRgb (LedColor s0 (unat (grad_index g))) (grad_target g) (ucast (ts - t0)) (grad_duration_ms g))
    \<and> (d = 0 \<longleftrightarrow> ucast (grad_duration_ms g) \<le> ts - t0)
    \<and> sh \<and> (\<forall>j. j \<noteq> unat (grad_index g) \<longrightarrow> LedColor s' j = LedColor s j)"
proof -
  from Gradient_Execute_first [OF assms(4,1,2), of p t0] assms(5)
  have g1: "grad_started g1" "grad_start_time g1 = t0" "grad_index g1 = grad_index g"
    "grad_duration_ms g1 = grad_duration_ms g" "grad_target g1 = grad_target g"
    "CachedOklab (grad_source_l g1) (grad_source_a g1) (grad_source_b g1)
         = ToOklab (LedColor s0 (unat (grad_index g)))"
    "CachedOklab (grad_target_l g1) (grad_target_a g1) (grad_target_b g1) = ToOklab (grad_target g)"
    by auto
  have dn: "DelayToFadeUpdate (ts - t0) (ucast (grad_duration_ms g) - (ts - t0)) p \<noteq> 0"
    if "\<not> ucast (grad_duration_ms g) \<le> ts - t0"
  proof -
    have "0 < ucast (grad_duration_ms g) - (ts - t0)"
      using that by (simp add: word_gt_0 not_le)
    from delay_update_bounds(1) [OF assms(3) this, of "ts - t0"] show ?thesis by auto
  qed
  have e: "ucast (ts - t0) \<noteq> (0 :: u16) \<and> \<not> grad_duration_ms g \<le> ucast (ts - t0)"
    if "\<not> ucast (grad_duration_ms g) \<le> ts - t0"
  proof -
    have "unat (ts - t0) < unat (grad_duration_ms g)"
      using that by (simp add: word_le_nat_alt word_nat)
    moreover have "unat (ts - t0) \<noteq> 0" using assms(9) by (simp add: unat_gt_0)
    ultimately show ?thesis
      using unat_u16_lt [of "grad_duration_ms g"]
      by (simp add: word_le_nat_alt word_nat unat_eq_0 [symmetric] del: unat_eq_0 unat_u16_lt)
  qed
  show ?thesis
    using assms(2,6,7,8,10) g1 dn e
    by (auto simp: Gradient_Execute_def Led_def Let_def manager_pixel InterpolateRgb_def
        SetLedColor_as_set_led [unfolded Led_def, of s "unat (grad_index g)" "unat (grad_index g)"]
        DelayToGradientUpdate_eq split: if_splits)
qed

text \<open>The pixels a color instruction addresses and the color it gives them.\<close>

fun color_effect :: "instr_body \<Rightarrow> ((nat \<Rightarrow> bool) \<times> RgbColor) option" where
  "color_effect (SetMultipleColor c r) = Some (\<lambda>j. unat (range_start r) \<le> j \<and> j < unat (range_end r), c)"
| "color_effect (SetSingleColor c i) = Some (\<lambda>j. j = unat i, c)"
| "color_effect (SetMultipleColorHsv c r) =
     Some (\<lambda>j. unat (range_start r) \<le> j \<and> j < unat (range_end r), HsvToRgb c)"
| "color_effect (SetSingleColorHsv c i) = Some (\<lambda>j. j = unat i, HsvToRgb c)"
| "color_effect body = None"

lemma LedColor_set_range:
  "strip_inv s \<Longrightarrow> LedColor (set_range c r s) j =
     (if unat (range_start r) \<le> j \<and> j < unat (range_end r) \<and> j < strip_led_count s then c else LedColor s j)"
  unfolding set_range_def by (subst manager.pixel_fold) (auto simp: range_indices_def)

text \<open>
  C27. Each of the four color instructions, bound to a strip, stages its color on exactly the
  pixels it names that the strip has, changes no other pixel, requests one Show, leaves itself
  unchanged and never asks to be resumed.
\<close>

theorem color_instructions_exact:
  assumes "strip_inv s" "i_controller i" "i_strip i" "color_effect (i_body i) = Some (addressed, c)"
  shows "\<exists>s'. instr_Execute p ts i s = (0, True, i, s') \<and> strip_inv s'
     \<and> (\<forall>j. LedColor s' j = (if addressed j \<and> j < strip_led_count s then c else LedColor s j))"
  using assms(2-4) strip_inv_set_range [OF assms(1)] manager.invar_set [OF assms(1)]
  by (cases "i_body i")
     (auto simp: instr_Execute_def LedColor_set_range [OF assms(1)] manager_pixel [OF assms(1)])

text \<open>
  The executions of one instruction over time, each at its own refresh period, timestamp and
  strip.
\<close>

fun execute_many :: "(u32 \<times> u32 \<times> 'mb StripManager) list \<Rightarrow> ControllerInstruction \<Rightarrow> ControllerInstruction" where
  "execute_many [] i = i"
| "execute_many ((p, ts, s) # rest) i = execute_many rest (fst (snd (snd (instr_Execute p ts i s))))"

lemma instr_Execute_static:
  "instr_ResetForReplay (fst (snd (snd (instr_Execute p ts i s)))) = instr_ResetForReplay i"
  by (auto simp: instr_Execute_def instr_ResetForReplay_def split: prod.splits dest: body_Execute_static)

text \<open>
  C28. Replay starts afresh: whatever an instruction has executed, ResetForReplay leaves no trace
  of it; in particular a fade and a gradient are again as their payload constructed them.
\<close>

theorem ResetForReplay_forgets:
  "instr_ResetForReplay (execute_many runs i) = instr_ResetForReplay i
   \<and> instr_ResetForReplay (execute_many runs (mk_Fade fp)) = mk_Fade fp
   \<and> instr_ResetForReplay (execute_many runs (mk_Gradient gp)) = mk_Gradient gp"
proof -
  have forget: "instr_ResetForReplay (execute_many runs i) = instr_ResetForReplay i" for i
    by (induction runs arbitrary: i) (auto simp: instr_Execute_static)
  show ?thesis
    by (simp add: forget) (simp add: mk_Fade_def mk_Gradient_def instr_ResetForReplay_def instr_def)
qed

text \<open>
  The wait a running fade or gradient asks for is positive, never passes the end of the
  instruction nor one refresh period, and ends on the refresh grid unless the instruction ends
  before the next grid point; so a resumed instruction is due exactly when it asked to be.
\<close>

theorem update_delay_on_grid:
  assumes "0 < p" "0 < r"
  shows "DelayToGradientUpdate t r p = DelayToFadeUpdate t r p
    \<and> 0 < unat (DelayToFadeUpdate t r p) \<and> unat (DelayToFadeUpdate t r p) \<le> min (unat r) (unat p)
    \<and> (DelayToFadeUpdate t r p = r \<or> (unat t + unat (DelayToFadeUpdate t r p)) mod unat p = 0)"
  using delay_update_bounds [OF assms, of t] by (simp add: DelayToGradientUpdate_eq)

section \<open>Witnesses\<close>

definition demo_fade :: Fade_data where
  "demo_fade = \<lparr>fade_percent = 200, fade_duration_ms = 1000, fade_index = 0, fade_started = False,
     fade_start_time = 0, fade_start_color = rgb 0 0 0, fade_start_value = 0, fade_target_value = 0\<rparr>"

definition demo_fade_started :: Fade_data where
  "demo_fade_started = demo_fade\<lparr>fade_started := True, fade_start_time := 100,
     fade_start_color := rgb 9 9 9, fade_start_value := 9, fade_target_value := 18\<rparr>"

lemma demo_strip_pixel: "LedColor demo_strip 0 = rgb 9 9 9"
  by (simp add: demo_strip_def SetLedColor_def Fill_def Configure_def StripManager_init_def
      empty_frame_def kSharedFrameCapacity_def LedColor_def upt_rec)

lemma demo_fade_start:
  "Fade_Execute 20 100 demo_fade demo_strip = (20, False, Fade demo_fade_started, demo_strip)"
  by (simp add: Fade_Execute_def demo_fade_def demo_fade_started_def Led_def demo_strip_simps
      demo_strip_pixel rgb_def DelayToFadeUpdate_def Let_def)

theorem Fade_Execute_ramp_witness:
  "uint (max3 (LedColor (snd (snd (snd (Fade_Execute 20 600 demo_fade_started demo_strip)))) 0)) = 14"
proof -
  obtain d sh b s' where r: "Fade_Execute 20 600 demo_fade_started demo_strip = (d, sh, b, s')"
    by (metis prod.exhaust)
  have "0 < (9 :: u8)" "(9 :: u8) = max3 (LedColor demo_strip (unat (fade_index demo_fade)))"
    by (simp_all add: demo_fade_def demo_strip_pixel max3_def rgb_def)
  from Fade_Execute_ramp [OF _ _ _ _ demo_fade_start _ _ _ this(2) this(1) r]
  show ?thesis
    unfolding r by (simp add: demo_fade_def demo_strip_simps fade_target_def round_fraction_def Let_def)
qed

definition demo_gradient :: Gradient_data where
  "demo_gradient = \<lparr>grad_target = rgb 1 1 1, grad_duration_ms = 100, grad_index = 0, grad_started = False,
     grad_start_time = 0, grad_source_l = 0, grad_source_a = 0, grad_source_b = 0,
     grad_target_l = 0, grad_target_a = 0, grad_target_b = 0\<rparr>"

theorem Gradient_Execute_refines_witness:
  "\<exists>g1 d0 sh0 s0' d sh b s'. Gradient_Execute 20 100 demo_gradient demo_strip = (d0, sh0, Gradient g1, s0')
     \<and> Gradient_Execute 20 150 g1 demo_strip = (d, sh, b, s')
     \<and> LedColor s' 0 = InterpolateRgb (rgb 9 9 9) (rgb 1 1 1) 50 100 \<and> d \<noteq> 0"
proof -
  have h: "\<not> grad_started demo_gradient" "grad_duration_ms demo_gradient \<noteq> 0"
      "unat (grad_index demo_gradient) < strip_led_count demo_strip"
    by (simp_all add: demo_gradient_def demo_strip_simps)
  obtain g1 where g1: "Gradient_Execute 20 100 demo_gradient demo_strip
      = (DelayToGradientUpdate 0 (ucast (grad_duration_ms demo_gradient)) 20, False, Gradient g1, demo_strip)"
    using Gradient_Execute_first [OF h(3,1,2)] by blast
  obtain d sh b s' where r: "Gradient_Execute 20 150 g1 demo_strip = (d, sh, b, s')"
    by (metis prod.exhaust)
  from Gradient_Execute_refines [OF h(1,2) _ h(3) g1 demo_strip_simps(1,2) h(3) _ r]
  have "LedColor s' 0 = InterpolateRgb (rgb 9 9 9) (rgb 1 1 1) 50 100" "d \<noteq> 0"
    by (simp_all add: demo_gradient_def demo_strip_pixel)
  with g1 r show ?thesis by blast
qed

definition demo_color :: ControllerInstruction where
  "demo_color = \<lparr>i_mark = 0, i_strip = True, i_controller = True, i_group_id = 0,
     i_body = SetMultipleColor (rgb 7 8 9) \<lparr>range_start = 2, range_end = 200\<rparr>\<rparr>"

theorem color_instructions_exact_witness:
  "\<exists>s'. instr_Execute 20 0 demo_color demo_strip = (0, True, demo_color, s')
     \<and> LedColor s' 6 = rgb 7 8 9 \<and> LedColor s' 0 = rgb 9 9 9"
  using color_instructions_exact [OF demo_strip_simps(1), of demo_color _ _ 20 0]
  by (force simp: demo_color_def demo_strip_simps demo_strip_pixel)

theorem update_delay_on_grid_witness:
  "unat (DelayToFadeUpdate 105 100 20) \<le> min 100 20
    \<and> (DelayToFadeUpdate 105 100 20 = 100 \<or> (105 + unat (DelayToFadeUpdate 105 100 20)) mod 20 = 0)"
  using update_delay_on_grid [of 20 100 105] by simp

end
