(* ===== verification/SlotLayout.thy ===== *)
theory SlotLayout
  imports Instruction
begin

text \<open>
  The storage of InstructionMemorySlot as instruction_memory_slot.cpp has it: a union of the seven
  instruction classes, the tag of the member that is live and the flag \<open>active_\<close>. Every access names
  a member; naming one that is not live, casting an instruction to a class that is not its own,
  destroying a member that is not live, or constructing one over a live one is undefined in C++ and
  the value \<open>Inl\<close> here. The theorems show that no sequence of the slot's operations gets there, and
  that the slot behaves as the optional instruction of \<^theory_text>\<open>Instruction\<close>, over which the other
  theories are stated.
\<close>

section \<open>The union\<close>

datatype UnionMember =
    set_multiple_color | set_single_color | set_multiple_color_hsv | set_single_color_hsv
  | run_group | fade | gradient

datatype union_storage = NoMember | Live UnionMember ControllerInstruction

datatype union_error = BadCast | NotLive | StillLive

record TaggedSlot =
  u_storage :: union_storage
  u_tag :: InstructionTag
  u_active :: bool

text \<open>The class each member is declared with.\<close>

fun member_class :: "UnionMember \<Rightarrow> InstructionTag" where
  "member_class set_multiple_color = kSetMultipleColor"
| "member_class set_single_color = kSetSingleColor"
| "member_class set_multiple_color_hsv = kSetMultipleColorHsv"
| "member_class set_single_color_hsv = kSetSingleColorHsv"
| "member_class run_group = kRunGroup"
| "member_class fade = kFade"
| "member_class gradient = kGradient"

text \<open>
  Placement new of a copy of \<open>*static_cast<const T*>(instr)\<close>, the address of a member used as a
  pointer to the base class, and the explicit destructor call.
\<close>

definition place_member :: "UnionMember \<Rightarrow> ControllerInstruction \<Rightarrow> union_storage \<Rightarrow> union_error + union_storage" where
  "place_member m i u =
     (if Tag i \<noteq> member_class m then Inl BadCast
      else if u \<noteq> NoMember then Inl StillLive
      else Inr (Live m i))"

definition access_member :: "UnionMember \<Rightarrow> union_storage \<Rightarrow> union_error + ControllerInstruction" where
  "access_member m u =
     (case u of NoMember \<Rightarrow> Inl NotLive | Live m' i \<Rightarrow> if m' = m then Inr i else Inl NotLive)"

definition destroy_member :: "UnionMember \<Rightarrow> union_storage \<Rightarrow> union_error + union_storage" where
  "destroy_member m u = (case access_member m u of Inl e \<Rightarrow> Inl e | Inr i \<Rightarrow> Inr NoMember)"

text \<open>A write through the base pointer: the member stays, the object changes.\<close>

fun store_object :: "ControllerInstruction \<Rightarrow> union_storage \<Rightarrow> union_storage" where
  "store_object i NoMember = NoMember"
| "store_object i (Live m _) = Live m i"

section \<open>The operations\<close>

text \<open>The enumeration's value zero, to which \<open>tag = {}\<close> resets.\<close>

definition zero_tag :: InstructionTag where
  "zero_tag = kSetMultipleColor"

definition tagged_new :: TaggedSlot where
  "tagged_new = \<lparr>u_storage = NoMember, u_tag = zero_tag, u_active = False\<rparr>"

definition tagged_Destroy :: "TaggedSlot \<Rightarrow> union_error + TaggedSlot" where
  "tagged_Destroy s =
     (if \<not> u_active s then Inr s
      else case (case u_tag s of
                   kSetMultipleColor \<Rightarrow> destroy_member set_multiple_color (u_storage s)
                 | kSetSingleColor \<Rightarrow> destroy_member set_single_color (u_storage s)
                 | kSetMultipleColorHsv \<Rightarrow> destroy_member set_multiple_color_hsv (u_storage s)
                 | kSetSingleColorHsv \<Rightarrow> destroy_member set_single_color_hsv (u_storage s)
                 | kRunGroup \<Rightarrow> destroy_member run_group (u_storage s)
                 | kFade \<Rightarrow> destroy_member fade (u_storage s)
                 | kGradient \<Rightarrow> destroy_member gradient (u_storage s)) of
             Inl e \<Rightarrow> Inl e
           | Inr u \<Rightarrow> Inr (s\<lparr>u_storage := u, u_active := False, u_tag := zero_tag\<rparr>))"

definition tagged_Set :: "ControllerInstruction option \<Rightarrow> TaggedSlot \<Rightarrow> union_error + bool \<times> TaggedSlot" where
  "tagged_Set src s =
     (case tagged_Destroy s of
        Inl e \<Rightarrow> Inl e
      | Inr s1 \<Rightarrow>
          (case src of
             None \<Rightarrow> Inr (False, s1)
           | Some i \<Rightarrow>
               (case (case Tag i of
                        kSetMultipleColor \<Rightarrow> place_member set_multiple_color i (u_storage s1)
                      | kSetSingleColor \<Rightarrow> place_member set_single_color i (u_storage s1)
                      | kSetMultipleColorHsv \<Rightarrow> place_member set_multiple_color_hsv i (u_storage s1)
                      | kSetSingleColorHsv \<Rightarrow> place_member set_single_color_hsv i (u_storage s1)
                      | kRunGroup \<Rightarrow> place_member run_group i (u_storage s1)
                      | kFade \<Rightarrow> place_member fade i (u_storage s1)
                      | kGradient \<Rightarrow> place_member gradient i (u_storage s1)) of
                  Inl e \<Rightarrow> Inl e
                | Inr u \<Rightarrow> Inr (True, s1\<lparr>u_storage := u, u_tag := Tag i, u_active := True\<rparr>))))"

definition tagged_Clear :: "TaggedSlot \<Rightarrow> union_error + TaggedSlot" where
  "tagged_Clear s = tagged_Destroy s"

definition tagged_Active :: "TaggedSlot \<Rightarrow> union_error + ControllerInstruction option" where
  "tagged_Active s =
     (if \<not> u_active s then Inr None
      else case (case u_tag s of
                   kSetMultipleColor \<Rightarrow> access_member set_multiple_color (u_storage s)
                 | kSetSingleColor \<Rightarrow> access_member set_single_color (u_storage s)
                 | kSetMultipleColorHsv \<Rightarrow> access_member set_multiple_color_hsv (u_storage s)
                 | kSetSingleColorHsv \<Rightarrow> access_member set_single_color_hsv (u_storage s)
                 | kRunGroup \<Rightarrow> access_member run_group (u_storage s)
                 | kFade \<Rightarrow> access_member fade (u_storage s)
                 | kGradient \<Rightarrow> access_member gradient (u_storage s)) of
             Inl e \<Rightarrow> Inl e
           | Inr i \<Rightarrow> Inr (Some i))"

text \<open>The two shapes of the remaining methods: a question to the active object, and a change of it.\<close>

definition ask :: "'a \<Rightarrow> (ControllerInstruction \<Rightarrow> 'a) \<Rightarrow> TaggedSlot \<Rightarrow> union_error + 'a" where
  "ask d f s =
     (case tagged_Active s of
        Inl e \<Rightarrow> Inl e
      | Inr None \<Rightarrow> Inr d
      | Inr (Some i) \<Rightarrow> Inr (f i))"

definition change :: "(ControllerInstruction \<Rightarrow> ControllerInstruction) \<Rightarrow> TaggedSlot \<Rightarrow> union_error + TaggedSlot" where
  "change f s =
     (case tagged_Active s of
        Inl e \<Rightarrow> Inl e
      | Inr None \<Rightarrow> Inr s
      | Inr (Some i) \<Rightarrow> Inr (s\<lparr>u_storage := store_object (f i) (u_storage s)\<rparr>))"

definition tagged_GetMark :: "TaggedSlot \<Rightarrow> union_error + Mark" where
  "tagged_GetMark = ask 0 i_mark"

definition tagged_SetStrip :: "bool \<Rightarrow> TaggedSlot \<Rightarrow> union_error + TaggedSlot" where
  "tagged_SetStrip b = change (\<lambda>i. i\<lparr>i_strip := b\<rparr>)"

definition tagged_SetController :: "bool \<Rightarrow> TaggedSlot \<Rightarrow> union_error + TaggedSlot" where
  "tagged_SetController b = change (\<lambda>i. i\<lparr>i_controller := b\<rparr>)"

definition tagged_GetGroupId :: "TaggedSlot \<Rightarrow> union_error + GroupId" where
  "tagged_GetGroupId = ask 0 i_group_id"

definition tagged_IsRunGroup :: "TaggedSlot \<Rightarrow> union_error + bool" where
  "tagged_IsRunGroup = ask False (\<lambda>i. body_IsRunGroup (i_body i))"

definition tagged_GetTargetGroupId :: "TaggedSlot \<Rightarrow> union_error + GroupId" where
  "tagged_GetTargetGroupId = ask 0 (\<lambda>i. body_TargetGroupId (i_body i))"

definition tagged_GetAdditionalRepeats :: "TaggedSlot \<Rightarrow> union_error + LoopCount" where
  "tagged_GetAdditionalRepeats = ask 0 (\<lambda>i. body_AdditionalRepeats (i_body i))"

definition tagged_HasPositiveSchedulingBoundary :: "TaggedSlot \<Rightarrow> union_error + bool" where
  "tagged_HasPositiveSchedulingBoundary = ask False (\<lambda>i. body_HasPositiveSchedulingBoundary (i_body i))"

definition tagged_ResetForReplay :: "TaggedSlot \<Rightarrow> union_error + TaggedSlot" where
  "tagged_ResetForReplay = change instr_ResetForReplay"

definition tagged_Execute ::
  "u32 \<Rightarrow> u32 \<Rightarrow> TaggedSlot \<Rightarrow> 'mb StripManager \<Rightarrow> union_error + u32 \<times> bool \<times> TaggedSlot \<times> 'mb StripManager" where
  "tagged_Execute refresh ts s strip =
     (case tagged_Active s of
        Inl e \<Rightarrow> Inl e
      | Inr None \<Rightarrow> Inr (0, False, s, strip)
      | Inr (Some i) \<Rightarrow>
          (case instr_Execute refresh ts i strip of
             (delay, show, i1, strip1) \<Rightarrow>
               Inr (delay, show, s\<lparr>u_storage := store_object i1 (u_storage s)\<rparr>, strip1)))"

section \<open>What the slot holds\<close>

text \<open>
  The invariant: an inactive slot holds no object and has the tag zero; in an active slot the
  member that is live is the one the tag names, and the object in it is of that class.
\<close>

definition tagged_ok :: "TaggedSlot \<Rightarrow> bool" where
  "tagged_ok s =
     (if u_active s
      then (case u_storage s of
              NoMember \<Rightarrow> False
            | Live m i \<Rightarrow> member_class m = u_tag s \<and> Tag i = u_tag s)
      else u_storage s = NoMember \<and> u_tag s = zero_tag)"

definition tagged_abs :: "TaggedSlot \<Rightarrow> InstructionMemorySlot" where
  "tagged_abs s = (case u_storage s of NoMember \<Rightarrow> None | Live m i \<Rightarrow> Some i)"

lemma member_class_inject: "member_class m = member_class m' \<Longrightarrow> m = m'"
  by (cases m; cases m') simp_all

lemma tagged_okE:
  assumes "tagged_ok s"
  obtains (empty) "s = tagged_new"
    | (full) m i where "s = \<lparr>u_storage = Live m i, u_tag = member_class m, u_active = True\<rparr>"
        "Tag i = member_class m"
  using assms by (cases s) (auto simp: tagged_ok_def tagged_new_def split: if_splits union_storage.splits)

lemma body_tag_Execute: "body_tag (fst (snd (snd (body_Execute p ts b s)))) = body_tag b"
  by (cases b) (auto simp: Fade_Execute_def Gradient_Execute_def Let_def split: option.split)

lemma Tag_simps [simp]:
  "Tag (i\<lparr>i_strip := b\<rparr>) = Tag i" "Tag (i\<lparr>i_controller := b\<rparr>) = Tag i"
  "Tag (instr_ResetForReplay i) = Tag i"
  by (simp_all add: Tag_def instr_ResetForReplay_def) (cases "i_body i"; simp)

lemma Tag_Execute: "Tag (fst (snd (snd (instr_Execute p ts i s)))) = Tag i"
  using body_tag_Execute [of p ts "i_body i" s]
  by (auto simp: instr_Execute_def Tag_def case_prod_unfold)

section \<open>Each operation refines its twin\<close>

lemma tagged_new_ok: "tagged_ok tagged_new" "tagged_abs tagged_new = None"
  by (simp_all add: tagged_ok_def tagged_abs_def tagged_new_def)

lemma tagged_Active_ok: "tagged_ok s \<Longrightarrow> tagged_Active s = Inr (tagged_abs s)"
proof (erule tagged_okE)
  fix m i
  assume "s = \<lparr>u_storage = Live m i, u_tag = member_class m, u_active = True\<rparr>"
  then show "tagged_Active s = Inr (tagged_abs s)"
    by (cases m) (simp_all add: tagged_Active_def tagged_abs_def access_member_def)
qed (simp add: tagged_Active_def tagged_abs_def tagged_new_def)

lemma tagged_Destroy_ok: "tagged_ok s \<Longrightarrow> tagged_Destroy s = Inr tagged_new"
proof (erule tagged_okE)
  fix m i
  assume "s = \<lparr>u_storage = Live m i, u_tag = member_class m, u_active = True\<rparr>"
  then show "tagged_Destroy s = Inr tagged_new"
    by (cases m) (simp_all add: tagged_Destroy_def destroy_member_def access_member_def tagged_new_def)
qed (simp add: tagged_Destroy_def tagged_new_def)

lemma ask_ok:
  "tagged_ok s \<Longrightarrow> ask d f s = Inr (case tagged_abs s of None \<Rightarrow> d | Some i \<Rightarrow> f i)"
  by (auto simp: ask_def tagged_Active_ok split: option.split)

lemma store_ok:
  assumes "tagged_ok s" "tagged_abs s = Some i" "Tag i' = Tag i"
  shows "tagged_ok (s\<lparr>u_storage := store_object i' (u_storage s)\<rparr>)"
    "tagged_abs (s\<lparr>u_storage := store_object i' (u_storage s)\<rparr>) = Some i'"
  using assms by (auto simp: tagged_ok_def tagged_abs_def split: if_splits union_storage.splits)

lemma change_ok:
  assumes "tagged_ok s" "\<And>i. Tag (f i) = Tag i"
  shows "\<exists>s'. change f s = Inr s' \<and> tagged_ok s' \<and> tagged_abs s' = map_option f (tagged_abs s)"
  using assms store_ok [OF assms(1)]
  by (auto simp: change_def tagged_Active_ok split: option.split)

lemma tagged_Set_ok:
  assumes "tagged_ok s"
  shows "\<exists>s'. tagged_Set i s = Inr (fst (slot_Set i (tagged_abs s)), s') \<and> tagged_ok s'
           \<and> tagged_abs s' = snd (slot_Set i (tagged_abs s))"
proof (cases i)
  case None
  then show ?thesis
    using assms tagged_new_ok by (simp add: tagged_Set_def tagged_Destroy_ok slot_Set_def)
next
  case (Some x)
  show ?thesis
    using assms Some
    by (cases "Tag x")
       (auto simp: tagged_Set_def tagged_Destroy_ok slot_Set_def tagged_new_def place_member_def
          tagged_ok_def tagged_abs_def)
qed

lemma tagged_Execute_ok:
  assumes "tagged_ok s" and e: "slot_Execute p ts (tagged_abs s) strip = (delay, show, slot, strip')"
  shows "\<exists>s'. tagged_Execute p ts s strip = Inr (delay, show, s', strip') \<and> tagged_ok s'
           \<and> tagged_abs s' = slot"
proof (cases "tagged_abs s")
  case None
  with assms show ?thesis by (auto simp: tagged_Execute_def tagged_Active_ok slot_Execute_def)
next
  case (Some i)
  obtain d b i' t where x: "instr_Execute p ts i strip = (d, b, i', t)" by (rule prod_cases4)
  with Tag_Execute [of p ts i strip] have "Tag i' = Tag i" by simp
  note * = store_ok [OF assms(1) Some this]
  show ?thesis
    using e x * by (auto simp: tagged_Execute_def tagged_Active_ok [OF assms(1)] Some slot_Execute_def)
qed

section \<open>Whole lives of a slot\<close>

text \<open>
  One call of a method, its answer, and a sequence of calls on the slot and the strip its
  instruction draws on; the same calls on the optional instruction.
\<close>

datatype slot_call =
    CallSet "ControllerInstruction option" | CallClear | CallSetStrip bool | CallSetController bool
  | CallGetMark | CallGetGroupId | CallIsRunGroup | CallGetTargetGroupId | CallGetAdditionalRepeats
  | CallHasPositiveSchedulingBoundary | CallResetForReplay | CallExecute u32 u32

datatype slot_answer =
    NoAnswer | BoolAnswer bool | MarkAnswer Mark | GroupAnswer GroupId | LoopAnswer LoopCount
  | DelayAnswer u32 bool

fun tagged_call ::
  "slot_call \<Rightarrow> TaggedSlot \<times> 'mb StripManager \<Rightarrow> union_error + slot_answer \<times> TaggedSlot \<times> 'mb StripManager" where
  "tagged_call (CallSet i) (s, t) = map_sum id (\<lambda>(b, s'). (BoolAnswer b, s', t)) (tagged_Set i s)"
| "tagged_call CallClear (s, t) = map_sum id (\<lambda>s'. (NoAnswer, s', t)) (tagged_Clear s)"
| "tagged_call (CallSetStrip b) (s, t) = map_sum id (\<lambda>s'. (NoAnswer, s', t)) (tagged_SetStrip b s)"
| "tagged_call (CallSetController b) (s, t) =
     map_sum id (\<lambda>s'. (NoAnswer, s', t)) (tagged_SetController b s)"
| "tagged_call CallGetMark (s, t) = map_sum id (\<lambda>x. (MarkAnswer x, s, t)) (tagged_GetMark s)"
| "tagged_call CallGetGroupId (s, t) = map_sum id (\<lambda>x. (GroupAnswer x, s, t)) (tagged_GetGroupId s)"
| "tagged_call CallIsRunGroup (s, t) = map_sum id (\<lambda>x. (BoolAnswer x, s, t)) (tagged_IsRunGroup s)"
| "tagged_call CallGetTargetGroupId (s, t) =
     map_sum id (\<lambda>x. (GroupAnswer x, s, t)) (tagged_GetTargetGroupId s)"
| "tagged_call CallGetAdditionalRepeats (s, t) =
     map_sum id (\<lambda>x. (LoopAnswer x, s, t)) (tagged_GetAdditionalRepeats s)"
| "tagged_call CallHasPositiveSchedulingBoundary (s, t) =
     map_sum id (\<lambda>x. (BoolAnswer x, s, t)) (tagged_HasPositiveSchedulingBoundary s)"
| "tagged_call CallResetForReplay (s, t) = map_sum id (\<lambda>s'. (NoAnswer, s', t)) (tagged_ResetForReplay s)"
| "tagged_call (CallExecute p ts) (s, t) =
     map_sum id (\<lambda>(d, b, s', t'). (DelayAnswer d b, s', t')) (tagged_Execute p ts s t)"

fun option_call ::
  "slot_call \<Rightarrow> InstructionMemorySlot \<times> 'mb StripManager \<Rightarrow> slot_answer \<times> InstructionMemorySlot \<times> 'mb StripManager" where
  "option_call (CallSet i) (s, t) = (case slot_Set i s of (b, s') \<Rightarrow> (BoolAnswer b, s', t))"
| "option_call CallClear (s, t) = (NoAnswer, slot_Clear s, t)"
| "option_call (CallSetStrip b) (s, t) = (NoAnswer, slot_SetStrip b s, t)"
| "option_call (CallSetController b) (s, t) = (NoAnswer, slot_SetController b s, t)"
| "option_call CallGetMark (s, t) = (MarkAnswer (GetMark s), s, t)"
| "option_call CallGetGroupId (s, t) = (GroupAnswer (GetGroupId s), s, t)"
| "option_call CallIsRunGroup (s, t) = (BoolAnswer (IsRunGroup s), s, t)"
| "option_call CallGetTargetGroupId (s, t) = (GroupAnswer (GetTargetGroupId s), s, t)"
| "option_call CallGetAdditionalRepeats (s, t) = (LoopAnswer (GetAdditionalRepeats s), s, t)"
| "option_call CallHasPositiveSchedulingBoundary (s, t) =
     (BoolAnswer (HasPositiveSchedulingBoundary s), s, t)"
| "option_call CallResetForReplay (s, t) = (NoAnswer, slot_ResetForReplay s, t)"
| "option_call (CallExecute p ts) (s, t) =
     (case slot_Execute p ts s t of (d, b, s', t') \<Rightarrow> (DelayAnswer d b, s', t'))"

fun tagged_calls ::
  "slot_call list \<Rightarrow> TaggedSlot \<times> 'mb StripManager \<Rightarrow> union_error + slot_answer list \<times> TaggedSlot \<times> 'mb StripManager" where
  "tagged_calls [] st = Inr ([], st)"
| "tagged_calls (c # cs) st =
     (case tagged_call c st of
        Inl e \<Rightarrow> Inl e
      | Inr (a, st1) \<Rightarrow> map_sum id (\<lambda>(as, st2). (a # as, st2)) (tagged_calls cs st1))"

fun option_calls ::
  "slot_call list \<Rightarrow> InstructionMemorySlot \<times> 'mb StripManager \<Rightarrow> slot_answer list \<times> InstructionMemorySlot \<times> 'mb StripManager" where
  "option_calls [] st = ([], st)"
| "option_calls (c # cs) st =
     (case option_call c st of (a, st1) \<Rightarrow> (case option_calls cs st1 of (as, st2) \<Rightarrow> (a # as, st2)))"

lemmas tagged_getters =
  tagged_GetMark_def tagged_GetGroupId_def tagged_IsRunGroup_def tagged_GetTargetGroupId_def
  tagged_GetAdditionalRepeats_def tagged_HasPositiveSchedulingBoundary_def
  GetMark_def GetGroupId_def IsRunGroup_def GetTargetGroupId_def GetAdditionalRepeats_def
  HasPositiveSchedulingBoundary_def

lemma tagged_call_ok:
  assumes ok: "tagged_ok s" and c: "option_call call (tagged_abs s, t) = (a, slot, t')"
  shows "\<exists>s'. tagged_call call (s, t) = Inr (a, s', t') \<and> tagged_ok s' \<and> tagged_abs s' = slot"
proof (cases call)
  case (CallSet i)
  from tagged_Set_ok [OF ok, of i] c CallSet show ?thesis by (fastforce split: prod.splits)
next
  case CallClear
  with ok c tagged_new_ok show ?thesis by (auto simp: tagged_Clear_def tagged_Destroy_ok slot_Clear_def)
next
  case (CallSetStrip b)
  with c change_ok [OF ok, of "\<lambda>i. i\<lparr>i_strip := b\<rparr>"] show ?thesis
    by (auto simp: tagged_SetStrip_def slot_SetStrip_def)
next
  case (CallSetController b)
  with c change_ok [OF ok, of "\<lambda>i. i\<lparr>i_controller := b\<rparr>"] show ?thesis
    by (auto simp: tagged_SetController_def slot_SetController_def)
next
  case CallResetForReplay
  with c change_ok [OF ok, of instr_ResetForReplay] show ?thesis
    by (auto simp: tagged_ResetForReplay_def slot_ResetForReplay_def)
next
  case (CallExecute p ts)
  obtain d b s1 t1 where e: "slot_Execute p ts (tagged_abs s) t = (d, b, s1, t1)" by (rule prod_cases4)
  from tagged_Execute_ok [OF ok e] e c CallExecute show ?thesis by auto
qed (use ok c in \<open>auto simp: tagged_getters ask_ok\<close>)

lemma tagged_calls_ok:
  "tagged_ok s \<Longrightarrow> option_calls calls (tagged_abs s, t) = (as, slot, t') \<Longrightarrow>
     \<exists>s'. tagged_calls calls (s, t) = Inr (as, s', t') \<and> tagged_ok s' \<and> tagged_abs s' = slot"
proof (induction calls arbitrary: s t as)
  case (Cons c cs)
  obtain a slot1 t1 where c: "option_call c (tagged_abs s, t) = (a, slot1, t1)" by (rule prod_cases3)
  with tagged_call_ok [OF Cons.prems(1) this] obtain s1
    where s1: "tagged_call c (s, t) = Inr (a, s1, t1)" "tagged_ok s1" "tagged_abs s1 = slot1" by blast
  obtain as1 st where r: "option_calls cs (slot1, t1) = (as1, st)" by (cases "option_calls cs (slot1, t1)")
  with Cons.prems(2) c have "as = a # as1" "st = (slot, t')" by auto
  with Cons.IH [of s1 t1 as1] r s1 show ?case by auto
qed auto

text \<open>
  C29. Whatever calls are made on a slot, from its construction on, no call names a member of the
  union that is not live, casts an instruction to another class or constructs over a live member;
  every answer, and what is drawn on the strip, is that of the optional instruction; and the
  destructor at the end finds a slot it can destroy.
\<close>

theorem tagged_slot_refines_option:
  "case option_calls calls (None, strip) of (answers, slot, strip') \<Rightarrow>
     \<exists>s. tagged_calls calls (tagged_new, strip) = Inr (answers, s, strip')
         \<and> tagged_ok s \<and> tagged_abs s = slot \<and> tagged_Destroy s = Inr tagged_new"
proof (cases "option_calls calls (None, strip)")
  case (fields answers slot strip')
  with tagged_calls_ok [OF tagged_new_ok(1), of calls strip answers slot strip'] show ?thesis
    by (auto simp: tagged_new_ok tagged_Destroy_ok)
qed

end
