(* ===== verification/Preflight.thy ===== *)
theory Preflight
  imports Instruction
begin

text \<open>
  Preflight of a retained program: group_record.hpp and the part of
  src/app/controller/controller.cpp that Start uses to group the instructions, sort each group by
  mark, and validate the call graph and the repeat policies.

  The scratch structure GroupBuildState is a record of fixed-size arrays as in the source. Array
  indexes and counts are natural numbers: they never exceed 29. An early return is \<open>Inl\<close> of its
  status. The instructions are the controller's slot array and its instruction count.
\<close>

section \<open>Definitions\<close>

definition kMaxGroups :: nat where "kMaxGroups = kMaxInstructions + 1"

datatype ControllerStatus =
    kSuccess | kInvalidArgument | kBusy | kCapacityExhausted | kInvalidProgram | kAlreadyActiveGroup

record GroupRecord =
  gr_id :: GroupId
  gr_index_begin :: nat
  gr_instruction_count :: nat

definition GroupRecord_init :: GroupRecord where
  "GroupRecord_init = \<lparr>gr_id = 0, gr_index_begin = 0, gr_instruction_count = 0\<rparr>"

record GroupBuildState =
  b_groups :: "GroupRecord list"
  b_instruction_indices :: "nat list"
  b_index_write_positions :: "nat list"
  b_call_graph :: "u32 list"
  b_has_positive_boundary :: "bool list"
  b_group_count :: nat

definition GroupBuildState_init :: GroupBuildState where
  "GroupBuildState_init =
     \<lparr>b_groups = replicate kMaxGroups GroupRecord_init,
      b_instruction_indices = replicate kMaxInstructions 0,
      b_index_write_positions = replicate kMaxGroups 0,
      b_call_graph = replicate kMaxGroups 0,
      b_has_positive_boundary = replicate kMaxGroups False,
      b_group_count = 1\<rparr>"

definition FindGroup :: "GroupRecord list \<Rightarrow> nat \<Rightarrow> GroupId \<Rightarrow> nat" where
  "FindGroup groups group_count gid =
     (case find (\<lambda>i. gr_id (groups ! i) = gid) [0..<group_count] of
        Some i \<Rightarrow> i
      | None \<Rightarrow> kMaxGroups)"

subsection \<open>Group table\<close>

definition BuildGroupTable_step ::
  "InstructionMemorySlot list \<Rightarrow> nat \<Rightarrow> GroupBuildState \<Rightarrow> ControllerStatus + GroupBuildState" where
  "BuildGroupTable_step slots i build =
     (let group_id = GetGroupId (slots ! i);
          found = FindGroup (b_groups build) (b_group_count build) group_id
      in if found = kMaxGroups \<and> kMaxGroups \<le> b_group_count build then Inl kCapacityExhausted
         else
           let (group_index, build1) =
                 (if found = kMaxGroups
                  then (b_group_count build,
                        build\<lparr>b_group_count := b_group_count build + 1,
                              b_groups := (b_groups build)[b_group_count build :=
                                (b_groups build ! b_group_count build)\<lparr>gr_id := group_id\<rparr>]\<rparr>)
                  else (found, build));
               g = b_groups build1 ! group_index
           in Inr (build1\<lparr>b_groups := (b_groups build1)[group_index :=
                     g\<lparr>gr_instruction_count := gr_instruction_count g + 1\<rparr>]\<rparr>))"

definition BuildGroupTable ::
  "InstructionMemorySlot list \<Rightarrow> nat \<Rightarrow> GroupBuildState \<Rightarrow> ControllerStatus + GroupBuildState" where
  "BuildGroupTable slots n build =
     fold_err (BuildGroupTable_step slots) [0..<n]
       (build\<lparr>b_groups := (b_groups build)[0 := (b_groups build ! 0)\<lparr>gr_id := 0\<rparr>]\<rparr>)"

subsection \<open>Index pool\<close>

definition prefix_step :: "nat \<Rightarrow> nat \<times> GroupBuildState \<Rightarrow> ControllerStatus + (nat \<times> GroupBuildState)" where
  "prefix_step i st =
     (case st of (index_cursor, build) \<Rightarrow>
        let g = b_groups build ! i;
            build1 = build\<lparr>b_groups := (b_groups build)[i := g\<lparr>gr_index_begin := index_cursor\<rparr>],
                           b_index_write_positions := (b_index_write_positions build)[i := index_cursor]\<rparr>;
            index_cursor1 = index_cursor + gr_instruction_count g
        in if kMaxInstructions < index_cursor1 then Inl kCapacityExhausted
           else Inr (index_cursor1, build1))"

definition scatter_step :: "InstructionMemorySlot list \<Rightarrow> nat \<Rightarrow> GroupBuildState \<Rightarrow> GroupBuildState" where
  "scatter_step slots i build =
     (let group_index = FindGroup (b_groups build) (b_group_count build) (GetGroupId (slots ! i));
          pos = b_index_write_positions build ! group_index
      in build\<lparr>b_instruction_indices := (b_instruction_indices build)[pos := i],
               b_index_write_positions := (b_index_write_positions build)[group_index := pos + 1]\<rparr>)"

text \<open>The inner while loop of the insertion sort, and the write after it.\<close>

fun insert_shift :: "InstructionMemorySlot list \<Rightarrow> nat \<Rightarrow> nat \<Rightarrow> nat \<Rightarrow> nat list \<Rightarrow> nat list" where
  "insert_shift slots index_begin instruction_index ins indices =
     (if index_begin < ins \<and>
         GetMark (slots ! instruction_index) < GetMark (slots ! (indices ! (ins - 1)))
      then insert_shift slots index_begin instruction_index (ins - 1)
             (indices[ins := indices ! (ins - 1)])
      else indices[ins := instruction_index])"

declare insert_shift.simps [simp del]

definition sort_range :: "InstructionMemorySlot list \<Rightarrow> nat \<Rightarrow> nat \<Rightarrow> nat list \<Rightarrow> nat list" where
  "sort_range slots index_begin index_end indices =
     fold (\<lambda>i xs. insert_shift slots index_begin (xs ! i) i xs) [index_begin + 1..<index_end] indices"

definition sort_groups :: "InstructionMemorySlot list \<Rightarrow> GroupBuildState \<Rightarrow> GroupBuildState" where
  "sort_groups slots build =
     build\<lparr>b_instruction_indices :=
       fold (\<lambda>g xs. sort_range slots (gr_index_begin (b_groups build ! g))
                      (gr_index_begin (b_groups build ! g) + gr_instruction_count (b_groups build ! g)) xs)
         [0..<b_group_count build] (b_instruction_indices build)\<rparr>"

definition BuildGroupIndexPool ::
  "InstructionMemorySlot list \<Rightarrow> nat \<Rightarrow> GroupBuildState \<Rightarrow> ControllerStatus + GroupBuildState" where
  "BuildGroupIndexPool slots n build =
     (case fold_err prefix_step [0..<b_group_count build] (0, build) of
        Inl e \<Rightarrow> Inl e
      | Inr (index_cursor, build1) \<Rightarrow>
          Inr (sort_groups slots (fold (scatter_step slots) [0..<n] build1)))"

subsection \<open>Call graph\<close>

definition BuildGroupCallGraph_step ::
  "InstructionMemorySlot list \<Rightarrow> nat \<Rightarrow> GroupBuildState \<Rightarrow> ControllerStatus + GroupBuildState" where
  "BuildGroupCallGraph_step slots i build =
     (if \<not> IsRunGroup (slots ! i) then Inr build
      else
        let target_id = GetTargetGroupId (slots ! i);
            source_index = FindGroup (b_groups build) (b_group_count build) (GetGroupId (slots ! i));
            target_index = FindGroup (b_groups build) (b_group_count build) target_id
        in if target_id = 0 then Inl kInvalidProgram
           else if source_index = kMaxGroups \<or> target_index = kMaxGroups then Inl kInvalidProgram
           else Inr (build\<lparr>b_call_graph := (b_call_graph build)[source_index :=
                       b_call_graph build ! source_index OR push_bit target_index 1]\<rparr>))"

definition BuildGroupCallGraph ::
  "InstructionMemorySlot list \<Rightarrow> nat \<Rightarrow> GroupBuildState \<Rightarrow> ControllerStatus + GroupBuildState" where
  "BuildGroupCallGraph slots n build = fold_err (BuildGroupCallGraph_step slots) [0..<n] build"

definition close_step :: "nat \<Rightarrow> nat \<Rightarrow> u32 list \<Rightarrow> u32 list" where
  "close_step through source graph =
     (if graph ! source AND push_bit through 1 = 0 then graph
      else graph[source := graph ! source OR graph ! through])"

definition close_graph :: "nat \<Rightarrow> u32 list \<Rightarrow> u32 list" where
  "close_graph group_count graph =
     fold (\<lambda>through graph. fold (close_step through) [0..<group_count] graph) [0..<group_count] graph"

definition ValidateGroupCallGraph :: "GroupBuildState \<Rightarrow> ControllerStatus + GroupBuildState" where
  "ValidateGroupCallGraph build =
     (let graph = close_graph (b_group_count build) (b_call_graph build)
      in if \<exists>i \<in> set [0..<b_group_count build]. graph ! i AND push_bit i 1 \<noteq> 0
         then Inl kInvalidProgram
         else Inr (build\<lparr>b_call_graph := graph\<rparr>))"

subsection \<open>Repeat boundaries\<close>

definition own_boundary_step :: "InstructionMemorySlot list \<Rightarrow> nat \<Rightarrow> GroupBuildState \<Rightarrow> GroupBuildState" where
  "own_boundary_step slots i build =
     (let group_index = FindGroup (b_groups build) (b_group_count build) (GetGroupId (slots ! i))
      in if 0 < GetMark (slots ! i) \<or> HasPositiveSchedulingBoundary (slots ! i)
         then build\<lparr>b_has_positive_boundary := (b_has_positive_boundary build)[group_index := True]\<rparr>
         else build)"

definition boundary_edge :: "u32 list \<Rightarrow> nat \<times> nat \<Rightarrow> bool \<times> bool list \<Rightarrow> bool \<times> bool list" where
  "boundary_edge graph e st =
     (case (e, st) of ((source, target), (changed, has)) \<Rightarrow>
        if graph ! source AND push_bit target 1 \<noteq> 0 \<and> has ! target \<and> \<not> has ! source
        then (True, has[source := True])
        else (changed, has))"

definition boundary_pass :: "u32 list \<Rightarrow> nat \<Rightarrow> bool list \<Rightarrow> bool \<times> bool list" where
  "boundary_pass graph group_count has =
     fold (boundary_edge graph) (List.product [0..<group_count] [0..<group_count]) (False, has)"

fun boundary_passes :: "u32 list \<Rightarrow> nat \<Rightarrow> nat \<Rightarrow> bool list \<Rightarrow> bool list" where
  "boundary_passes graph group_count 0 has = has"
| "boundary_passes graph group_count (Suc passes) has =
     (case boundary_pass graph group_count has of
        (changed, has1) \<Rightarrow> if changed then boundary_passes graph group_count passes has1 else has1)"

definition repeat_violation :: "InstructionMemorySlot list \<Rightarrow> GroupBuildState \<Rightarrow> nat \<Rightarrow> bool" where
  "repeat_violation slots build i \<longleftrightarrow>
     IsRunGroup (slots ! i) \<and> GetAdditionalRepeats (slots ! i) \<noteq> 0 \<and>
     (let target_index = FindGroup (b_groups build) (b_group_count build) (GetTargetGroupId (slots ! i))
      in target_index = kMaxGroups \<or> \<not> b_has_positive_boundary build ! target_index)"

definition ValidateRepeatBoundaries ::
  "InstructionMemorySlot list \<Rightarrow> nat \<Rightarrow> GroupBuildState \<Rightarrow> LoopCount \<Rightarrow> ControllerStatus + GroupBuildState" where
  "ValidateRepeatBoundaries slots n build root_additional_repeats =
     (let build1 = fold (own_boundary_step slots) [0..<n] build;
          build2 = build1\<lparr>b_has_positive_boundary :=
                     boundary_passes (b_call_graph build1) (b_group_count build1) (b_group_count build1)
                       (b_has_positive_boundary build1)\<rparr>
      in if \<exists>i \<in> set [0..<n]. repeat_violation slots build2 i then Inl kInvalidProgram
         else if root_additional_repeats \<noteq> 0 \<and> \<not> b_has_positive_boundary build2 ! 0 then Inl kInvalidProgram
         else Inr build2)"

text \<open>BuildAndValidateGroups up to the commit, which the controller does.\<close>

definition build_and_validate ::
  "InstructionMemorySlot list \<Rightarrow> nat \<Rightarrow> LoopCount \<Rightarrow> ControllerStatus + GroupBuildState" where
  "build_and_validate slots n root_additional_repeats =
     (case BuildGroupTable slots n GroupBuildState_init of Inl e \<Rightarrow> Inl e | Inr build1 \<Rightarrow>
     (case BuildGroupIndexPool slots n build1 of Inl e \<Rightarrow> Inl e | Inr build2 \<Rightarrow>
     (case BuildGroupCallGraph slots n build2 of Inl e \<Rightarrow> Inl e | Inr build3 \<Rightarrow>
     (case ValidateGroupCallGraph build3 of Inl e \<Rightarrow> Inl e | Inr build4 \<Rightarrow>
      ValidateRepeatBoundaries slots n build4 root_additional_repeats))))"

section \<open>Group table\<close>

lemmas capacity_simps = kMaxGroups_def kMaxInstructions_def

lemma FindGroup_cases:
  obtains (found) i where "FindGroup groups n gid = i" "i < n" "gr_id (groups ! i) = gid"
      "\<And>j. j < i \<Longrightarrow> gr_id (groups ! j) \<noteq> gid"
  | (absent) "FindGroup groups n gid = kMaxGroups" "\<And>j. j < n \<Longrightarrow> gr_id (groups ! j) \<noteq> gid"
proof (cases "find (\<lambda>i. gr_id (groups ! i) = gid) [0..<n]")
  case None
  then show thesis by (intro absent) (simp add: FindGroup_def, auto simp: find_None_iff)
next
  case (Some i)
  then show thesis by (intro found [of i]) (simp add: FindGroup_def, auto simp: find_Some_iff)
qed

text \<open>
  After the first \<open>k\<close> instructions: the labels of the valid records are distinct, the root comes
  first, every label seen has its record, and each record counts its instructions.
\<close>

definition table_ok :: "InstructionMemorySlot list \<Rightarrow> nat \<Rightarrow> GroupRecord list \<Rightarrow> nat \<Rightarrow> bool" where
  "table_ok slots k groups n \<longleftrightarrow>
     length groups = kMaxGroups \<and> 1 \<le> n \<and> n \<le> k + 1 \<and> gr_id (groups ! 0) = 0 \<and>
     (\<forall>g<n. \<forall>h<n. gr_id (groups ! g) = gr_id (groups ! h) \<longrightarrow> g = h) \<and>
     (\<forall>i<k. \<exists>g<n. gr_id (groups ! g) = GetGroupId (slots ! i)) \<and>
     (\<forall>g<n. 0 < g \<longrightarrow> (\<exists>i<k. GetGroupId (slots ! i) = gr_id (groups ! g))) \<and>
     (\<forall>g<n. gr_instruction_count (groups ! g) =
        length (filter (\<lambda>i. GetGroupId (slots ! i) = gr_id (groups ! g)) [0..<k])) \<and>
     (\<forall>g. n \<le> g \<longrightarrow> g < kMaxGroups \<longrightarrow> groups ! g = GroupRecord_init)"

lemma FindGroup_unique:
  assumes "table_ok slots k groups n" "g < n"
  shows "FindGroup groups n (gr_id (groups ! g)) = g"
  using assms
  by (cases n "gr_id (groups ! g)" rule: FindGroup_cases [of groups]) (auto simp: table_ok_def)

lemma table_ok_le: "table_ok slots k groups n \<Longrightarrow> k \<le> kMaxInstructions \<Longrightarrow> n \<le> kMaxGroups"
  by (auto simp: table_ok_def kMaxGroups_def)

lemma table_ok_found:
  assumes ok: "table_ok slots k groups n" and n: "n \<le> kMaxGroups"
    and i: "i < n" "gr_id (groups ! i) = GetGroupId (slots ! k)"
  shows "table_ok slots (Suc k) (groups[i := (groups ! i)\<lparr>gr_instruction_count := gr_instruction_count (groups ! i) + 1\<rparr>]) n"
    (is "table_ok _ _ ?gs _")
proof -
  have len: "length groups = kMaxGroups" using ok by (simp add: table_ok_def)
  have ids: "gr_id (?gs ! g) = gr_id (groups ! g)" for g
    using i(1) n len by (simp add: nth_list_update)
  have cnt: "gr_instruction_count (?gs ! g) = gr_instruction_count (groups ! g) + (if g = i then 1 else 0)" for g
    using i(1) n len by (simp add: nth_list_update)
  have inj: "g = i" if "g < n" "gr_id (groups ! g) = GetGroupId (slots ! k)" for g
    using that i ok unfolding table_ok_def by metis
  have "gr_instruction_count (?gs ! g)
      = length (filter (\<lambda>j. GetGroupId (slots ! j) = gr_id (groups ! g)) [0..<Suc k])" if "g < n" for g
    using that ok i inj [of g] unfolding cnt table_ok_def by auto
  moreover have "\<exists>g<n. gr_id (groups ! g) = GetGroupId (slots ! j)" if "j < Suc k" for j
    using that ok i less_Suc_eq unfolding table_ok_def by metis
  moreover have "?gs ! g = groups ! g" if "n \<le> g" for g
    using that i(1) by simp
  ultimately show ?thesis
    using ok unfolding table_ok_def ids by (simp add: le_SucI) (metis less_SucI)
qed

lemma table_ok_new:
  assumes ok: "table_ok slots k groups n" and n: "n < kMaxGroups"
    and new: "\<And>j. j < n \<Longrightarrow> gr_id (groups ! j) \<noteq> GetGroupId (slots ! k)"
  shows "table_ok slots (Suc k) (groups[n := (groups ! n)\<lparr>gr_id := GetGroupId (slots ! k), gr_instruction_count := gr_instruction_count (groups ! n) + 1\<rparr>]) (Suc n)"
proof -
  define gs where "gs = groups[n := (groups ! n)\<lparr>gr_id := GetGroupId (slots ! k), gr_instruction_count := gr_instruction_count (groups ! n) + 1\<rparr>]"
  have len: "length groups = kMaxGroups" and n1: "1 \<le> n" using ok by (simp_all add: table_ok_def)
  have "gr_instruction_count (groups ! n) = 0"
    using ok n by (simp add: table_ok_def GroupRecord_init_def)
  then have at: "gr_id (gs ! n) = GetGroupId (slots ! k)" "gr_instruction_count (gs ! n) = 1"
    using n len by (simp_all add: gs_def)
  have old: "gs ! g = groups ! g" if "g \<noteq> n" for g using that by (simp add: gs_def)
  have seen: "\<exists>g<n. gr_id (groups ! g) = GetGroupId (slots ! i)" if "i < k" for i
    using ok that by (simp add: table_ok_def)
  have inj: "g = h" if "g < n" "h < n" "gr_id (groups ! g) = gr_id (groups ! h)" for g h
    using ok that unfolding table_ok_def by blast
  have fresh: "filter (\<lambda>i. GetGroupId (slots ! i) = GetGroupId (slots ! k)) [0..<k] = []"
    using seen new by (auto simp: filter_empty_conv) metis
  have "gr_instruction_count (gs ! g)
      = length (filter (\<lambda>j. GetGroupId (slots ! j) = gr_id (gs ! g)) [0..<Suc k])" if "g < Suc n" for g
  proof (cases "g = n")
    case True
    then show ?thesis using fresh by (simp only: at) simp
  next
    case False
    then have "g < n" using that by simp
    then show ?thesis using ok new [of g] unfolding old [OF False] table_ok_def by auto
  qed
  moreover have "\<exists>g<Suc n. gr_id (gs ! g) = GetGroupId (slots ! j)" if "j < Suc k" for j
  proof (cases "j = k")
    case False
    then obtain g where "g < n" "gr_id (groups ! g) = GetGroupId (slots ! j)" using seen [of j] \<open>j < Suc k\<close> by auto
    then show ?thesis using old [of g] by (intro exI [of _ g]) simp
  qed (use at in auto)
  moreover have "\<exists>j<Suc k. GetGroupId (slots ! j) = gr_id (gs ! g)" if gn: "g < Suc n" "0 < g" for g
  proof (cases "g = n")
    case False
    then have "g < n" using gn by simp
    then obtain j where "j < k" "GetGroupId (slots ! j) = gr_id (groups ! g)"
      using ok gn by (auto simp: table_ok_def)
    then show ?thesis using old [OF False] by (intro exI [of _ j]) simp
  qed (use at in auto)
  moreover have "g = h" if "g < Suc n" "h < Suc n" "gr_id (gs ! g) = gr_id (gs ! h)" for g h
    using that at(1) old inj new less_Suc_eq by metis
  moreover have "gr_id (gs ! 0) = 0" using ok n1 old [of 0] by (simp add: table_ok_def)
  moreover have "gs ! g = GroupRecord_init" if "Suc n \<le> g" "g < kMaxGroups" for g
    using ok that old [of g] by (simp add: table_ok_def)
  moreover have "length gs = kMaxGroups" "1 \<le> Suc n" "Suc n \<le> Suc k + 1"
    using ok by (simp_all add: table_ok_def gs_def)
  ultimately show ?thesis unfolding gs_def [symmetric] table_ok_def by blast
qed

lemma BuildGroupTable_step_ok:
  assumes "k < kMaxInstructions" "table_ok slots k (b_groups build) (b_group_count build)"
  shows "\<exists>groups n. BuildGroupTable_step slots k build = Inr (build\<lparr>b_groups := groups, b_group_count := n\<rparr>)
    \<and> table_ok slots (Suc k) groups n"
proof (cases "b_group_count build" "GetGroupId (slots ! k)" rule: FindGroup_cases [of "b_groups build"])
  case (found i)
  have n: "b_group_count build \<le> kMaxGroups" using table_ok_le [OF assms(2)] assms(1) by simp
  with found table_ok_found [OF assms(2) n found(2,3)] show ?thesis
    by (intro exI [of _ "(b_groups build)[i := (b_groups build ! i)\<lparr>gr_instruction_count := gr_instruction_count (b_groups build ! i) + 1\<rparr>]"]
          exI [of _ "b_group_count build"])
       (simp add: BuildGroupTable_step_def Let_def)
next
  case absent
  have n: "b_group_count build < kMaxGroups"
    using assms by (auto simp: table_ok_def kMaxGroups_def)
  have len: "length (b_groups build) = kMaxGroups" using assms(2) by (simp add: table_ok_def)
  from absent n table_ok_new [OF assms(2) n absent(2)] len show ?thesis
    by (intro exI [of _ "(b_groups build)[b_group_count build :=
          (b_groups build ! b_group_count build)\<lparr>gr_id := GetGroupId (slots ! k),
             gr_instruction_count := gr_instruction_count (b_groups build ! b_group_count build) + 1\<rparr>]"]
          exI [of _ "Suc (b_group_count build)"])
       (simp add: BuildGroupTable_step_def Let_def)
qed

lemma BuildGroupTable_ok:
  assumes "n \<le> kMaxInstructions"
  shows "\<exists>groups gc. BuildGroupTable slots n GroupBuildState_init
      = Inr (GroupBuildState_init\<lparr>b_groups := groups, b_group_count := gc\<rparr>) \<and> table_ok slots n groups gc"
proof -
  let ?P = "\<lambda>k build. \<exists>groups gc. build = GroupBuildState_init\<lparr>b_groups := groups, b_group_count := gc\<rparr>
      \<and> table_ok slots k groups gc"
  let ?b0 = "GroupBuildState_init\<lparr>b_groups := (b_groups GroupBuildState_init)[0 := (b_groups GroupBuildState_init ! 0)\<lparr>gr_id := 0\<rparr>]\<rparr>"
  have "table_ok slots 0 (b_groups ?b0) 1"
    by (auto simp: table_ok_def GroupBuildState_init_def capacity_simps GroupRecord_init_def nth_Cons' nth_list_update)
  then have "?P 0 ?b0"
    by (intro exI [of _ "b_groups ?b0"] exI [of _ 1]) (simp add: GroupBuildState_init_def)
  then have "\<exists>b. fold_err (BuildGroupTable_step slots) [0..<n] ?b0 = Inr b \<and> ?P n b"
  proof (rule fold_err_upt_invariant)
    fix k b assume k: "k < n" and "?P k b"
    then obtain groups gc where b: "b = GroupBuildState_init\<lparr>b_groups := groups, b_group_count := gc\<rparr>"
      and ok: "table_ok slots k groups gc" by blast
    from BuildGroupTable_step_ok [of k slots b] k assms ok b
    show "\<exists>b'. BuildGroupTable_step slots k b = Inr b' \<and> ?P (Suc k) b'" by auto
  qed
  then show ?thesis unfolding BuildGroupTable_def by blast
qed

section \<open>Index pool\<close>

definition layout_ok :: "GroupRecord list \<Rightarrow> nat \<Rightarrow> bool" where
  "layout_ok groups n \<longleftrightarrow> (\<forall>g<n. gr_index_begin (groups ! g) = (\<Sum>h<g. gr_instruction_count (groups ! h)))"

lemma layout_disjoint:
  assumes "layout_ok groups n" "g < h" "h < n"
  shows "gr_index_begin (groups ! g) + gr_instruction_count (groups ! g) \<le> gr_index_begin (groups ! h)"
proof -
  have "(\<Sum>i<Suc g. gr_instruction_count (groups ! i)) \<le> (\<Sum>i<h. gr_instruction_count (groups ! i))"
    using assms(2) by (intro sum_mono2) auto
  then show ?thesis using assms by (simp add: layout_ok_def)
qed

lemma layout_total:
  assumes "layout_ok groups n" "g < n"
  shows "gr_index_begin (groups ! g) + gr_instruction_count (groups ! g) \<le> (\<Sum>i<n. gr_instruction_count (groups ! i))"
proof -
  have "(\<Sum>i<Suc g. gr_instruction_count (groups ! i)) \<le> (\<Sum>i<n. gr_instruction_count (groups ! i))"
    using assms(2) by (intro sum_mono2) auto
  then show ?thesis using assms by (simp add: layout_ok_def)
qed

lemma table_owner:
  assumes "table_ok slots n groups gc" "i < n"
  obtains g where "g < gc" "\<And>h. h < gc \<Longrightarrow> GetGroupId (slots ! i) = gr_id (groups ! h) \<longleftrightarrow> h = g"
    "FindGroup groups gc (GetGroupId (slots ! i)) = g"
proof -
  obtain g where g: "g < gc" "gr_id (groups ! g) = GetGroupId (slots ! i)"
    using assms unfolding table_ok_def by blast
  then have "GetGroupId (slots ! i) = gr_id (groups ! h) \<longleftrightarrow> h = g" if "h < gc" for h
    using that assms(1) unfolding table_ok_def by metis
  with g FindGroup_unique [OF assms(1) g(1)] show thesis by (intro that) auto
qed

lemma table_total:
  assumes ok: "table_ok slots n groups gc"
  shows "(\<Sum>g<gc. gr_instruction_count (groups ! g)) = n"
proof -
  have "(\<Sum>g<gc. length (filter (\<lambda>i. GetGroupId (slots ! i) = gr_id (groups ! g)) [0..<k])) = k"
    if "k \<le> n" for k
    using that
  proof (induction k)
    case (Suc k)
    obtain g where g: "g < gc" "\<And>h. h < gc \<Longrightarrow> GetGroupId (slots ! k) = gr_id (groups ! h) \<longleftrightarrow> h = g"
      using table_owner [OF ok, of k] Suc.prems by (metis Suc_le_lessD)
    have "(\<Sum>h<gc. length (filter (\<lambda>i. GetGroupId (slots ! i) = gr_id (groups ! h)) [0..<Suc k]))
        = (\<Sum>h<gc. length (filter (\<lambda>i. GetGroupId (slots ! i) = gr_id (groups ! h)) [0..<k]) + (if h = g then 1 else 0))"
      using g(2) by (intro sum.cong) auto
    also have "\<dots> = k + 1" using Suc g(1) by (simp add: sum.distrib)
    finally show ?case by simp
  qed simp
  with ok show ?thesis unfolding table_ok_def by (metis (no_types, lifting) le_refl lessThan_iff sum.cong)
qed

lemma prefix_ok:
  assumes ok: "table_ok slots n (b_groups build) (b_group_count build)" and n: "n \<le> kMaxInstructions"
    and wp: "length (b_index_write_positions build) = kMaxGroups"
  shows "\<exists>cur groups ps. fold_err prefix_step [0..<b_group_count build] (0, build)
      = Inr (cur, build\<lparr>b_groups := groups, b_index_write_positions := ps\<rparr>)
    \<and> table_ok slots n groups (b_group_count build) \<and> layout_ok groups (b_group_count build)
    \<and> length ps = kMaxGroups \<and> (\<forall>g < b_group_count build. ps ! g = gr_index_begin (groups ! g))"
proof -
  let ?gc = "b_group_count build" and ?cnt = "\<lambda>g. gr_instruction_count (b_groups build ! g)"
  let ?sum = "\<lambda>k. \<Sum>h<k. ?cnt h"
  let ?P = "\<lambda>k st. \<exists>groups ps. st = (?sum k, build\<lparr>b_groups := groups, b_index_write_positions := ps\<rparr>)
      \<and> length groups = kMaxGroups \<and> length ps = kMaxGroups
      \<and> (\<forall>g. gr_id (groups ! g) = gr_id (b_groups build ! g) \<and> gr_instruction_count (groups ! g) = ?cnt g)
      \<and> (\<forall>g<k. gr_index_begin (groups ! g) = ?sum g \<and> ps ! g = ?sum g)
      \<and> (\<forall>g\<ge>?gc. groups ! g = b_groups build ! g)"
  have len: "length (b_groups build) = kMaxGroups" and gc: "?gc \<le> kMaxGroups"
    using ok table_ok_le [OF ok n] by (simp_all add: table_ok_def)
  have "?P 0 (0, build)"
    using len wp by (intro exI [of _ "b_groups build"] exI [of _ "b_index_write_positions build"]) simp
  then have "\<exists>st. fold_err prefix_step [0..<?gc] (0, build) = Inr st \<and> ?P ?gc st"
  proof (rule fold_err_upt_invariant [where P = "?P"])
    fix k st assume k: "k < ?gc" and "?P k st"
    then obtain groups ps where st: "st = (?sum k, build\<lparr>b_groups := groups, b_index_write_positions := ps\<rparr>)"
      and l: "length groups = kMaxGroups" "length ps = kMaxGroups"
      and same: "\<And>g. gr_id (groups ! g) = gr_id (b_groups build ! g) \<and> gr_instruction_count (groups ! g) = ?cnt g"
      and fin: "\<And>g. g < k \<Longrightarrow> gr_index_begin (groups ! g) = ?sum g \<and> ps ! g = ?sum g"
      and rest: "\<And>g. g \<ge> ?gc \<Longrightarrow> groups ! g = b_groups build ! g" by auto
    have "?sum (Suc k) \<le> ?sum ?gc" using k by (intro sum_mono2) auto
    then have le: "?sum (Suc k) \<le> kMaxInstructions" using table_total [OF ok] n by simp
    have kl: "k < kMaxGroups" using k gc by simp
    show "\<exists>st'. prefix_step k st = Inr st' \<and> ?P (Suc k) st'"
      using le kl l same fin rest k
      by (intro exI [of _ "(?sum (Suc k), build\<lparr>b_groups := groups[k := (groups ! k)\<lparr>gr_index_begin := ?sum k\<rparr>],
              b_index_write_positions := ps[k := ?sum k]\<rparr>)"] conjI
            exI [of _ "groups[k := (groups ! k)\<lparr>gr_index_begin := ?sum k\<rparr>]"] exI [of _ "ps[k := ?sum k]"])
         (auto simp: st prefix_step_def Let_def nth_list_update less_Suc_eq)
  qed
  then obtain groups ps where r: "fold_err prefix_step [0..<?gc] (0, build)
        = Inr (?sum ?gc, build\<lparr>b_groups := groups, b_index_write_positions := ps\<rparr>)"
      and l: "length groups = kMaxGroups" "length ps = kMaxGroups"
      and same: "\<And>g. gr_id (groups ! g) = gr_id (b_groups build ! g)" "\<And>g. gr_instruction_count (groups ! g) = ?cnt g"
      and fin: "\<And>g. g < ?gc \<Longrightarrow> gr_index_begin (groups ! g) = ?sum g \<and> ps ! g = ?sum g"
      and rest: "\<And>g. g \<ge> ?gc \<Longrightarrow> groups ! g = b_groups build ! g" by auto
  have "table_ok slots n groups ?gc"
    using ok unfolding table_ok_def same by (simp add: l rest)
  moreover have "layout_ok groups ?gc" using fin by (simp add: layout_ok_def same)
  ultimately show ?thesis
    using r l fin by (intro exI [of _ "?sum ?gc"] exI [of _ groups] exI [of _ ps]) simp
qed

text \<open>After scattering the first \<open>k\<close> instructions each range holds its group's ones in order.\<close>

lemma scatter_ok:
  assumes ok: "table_ok slots n (b_groups build) (b_group_count build)"
    and lay: "layout_ok (b_groups build) (b_group_count build)" and n: "n \<le> kMaxInstructions"
    and wp: "length (b_index_write_positions build) = kMaxGroups"
      "\<And>g. g < b_group_count build \<Longrightarrow> b_index_write_positions build ! g = gr_index_begin (b_groups build ! g)"
    and len: "length (b_instruction_indices build) = kMaxInstructions"
  shows "\<exists>xs ps. fold (scatter_step slots) [0..<n] build
      = build\<lparr>b_instruction_indices := xs, b_index_write_positions := ps\<rparr>
    \<and> length xs = kMaxInstructions
    \<and> (\<forall>g < b_group_count build. segment (gr_index_begin (b_groups build ! g)) (gr_instruction_count (b_groups build ! g)) xs
          = filter (\<lambda>i. GetGroupId (slots ! i) = gr_id (b_groups build ! g)) [0..<n])"
proof -
  let ?gc = "b_group_count build" and ?b = "\<lambda>g. gr_index_begin (b_groups build ! g)"
    and ?c = "\<lambda>g. gr_instruction_count (b_groups build ! g)"
  let ?mem = "\<lambda>g k. filter (\<lambda>i. GetGroupId (slots ! i) = gr_id (b_groups build ! g)) [0..<k]"
  let ?P = "\<lambda>k b. \<exists>xs ps. b = build\<lparr>b_instruction_indices := xs, b_index_write_positions := ps\<rparr>
      \<and> length xs = kMaxInstructions \<and> length ps = kMaxGroups
      \<and> (\<forall>g<?gc. ps ! g = ?b g + length (?mem g k) \<and> segment (?b g) (length (?mem g k)) xs = ?mem g k)"
  have cnt: "?c g = length (?mem g n)" if "g < ?gc" for g using ok that by (simp add: table_ok_def)
  have gc: "?gc \<le> kMaxGroups" using table_ok_le [OF ok n] .
  have top: "?b g + ?c g \<le> kMaxInstructions" if "g < ?gc" for g
    using layout_total [OF lay that] table_total [OF ok] n by simp
  have grow: "length (?mem g k) \<le> length (?mem g n)" if "k \<le> n" for g k
  proof -
    have "[0..<n] = [0..<k] @ [k..<n]" using that upt_add_eq_append [of 0 k "n - k"] by simp
    then show ?thesis by simp
  qed
  have "?P 0 build"
    using wp len by (intro exI [of _ "b_instruction_indices build"] exI [of _ "b_index_write_positions build"]) simp
  then have "?P n (fold (scatter_step slots) [0..<n] build)"
  proof (rule fold_upt_invariant [where P = "?P"])
    fix k b assume k: "k < n" and "?P k b"
    then obtain xs ps where b: "b = build\<lparr>b_instruction_indices := xs, b_index_write_positions := ps\<rparr>"
      and l: "length xs = kMaxInstructions" "length ps = kMaxGroups"
      and inv: "\<And>g. g < ?gc \<Longrightarrow> ps ! g = ?b g + length (?mem g k) \<and> segment (?b g) (length (?mem g k)) xs = ?mem g k"
      by auto
    obtain g0 where g0: "g0 < ?gc" "\<And>h. h < ?gc \<Longrightarrow> GetGroupId (slots ! k) = gr_id (b_groups build ! h) \<longleftrightarrow> h = g0"
      and fg: "FindGroup (b_groups build) ?gc (GetGroupId (slots ! k)) = g0"
      using table_owner [OF ok k] by blast
    let ?pos = "?b g0 + length (?mem g0 k)"
    have mem: "?mem g (Suc k) = ?mem g k @ (if g = g0 then [k] else [])" if "g < ?gc" for g
      using g0(2) [OF that] by simp
    have room: "?pos < ?b g0 + ?c g0"
      using grow [of "Suc k" g0] k cnt [OF g0(1)] mem [OF g0(1)] by simp
    have seg: "segment (?b g) (length (?mem g (Suc k))) (xs[?pos := k]) = ?mem g (Suc k)" if g: "g < ?gc" for g
    proof (cases "g = g0")
      case True
      then show ?thesis
        using inv [OF g0(1)] mem [OF g0(1)] room top [OF g0(1)] l(1)
        by (simp add: segment_Suc segment_update_outside)
    next
      case False
      have "length (?mem g k) \<le> ?c g" using grow [of k g] k cnt [OF g] by simp
      then have "?pos < ?b g \<or> ?b g + length (?mem g k) \<le> ?pos"
        using layout_disjoint [OF lay, of g g0] layout_disjoint [OF lay, of g0 g] False g g0(1) room
        by (cases "g < g0") auto
      then show ?thesis using inv [OF g] mem [OF g] False by (simp add: segment_update_outside)
    qed
    have "scatter_step slots k b = build\<lparr>b_instruction_indices := xs[?pos := k], b_index_write_positions := ps[g0 := ?pos + 1]\<rparr>"
      using inv [OF g0(1)] by (simp add: b scatter_step_def Let_def fg)
    moreover have "ps[g0 := ?pos + 1] ! g = ?b g + length (?mem g (Suc k))" if "g < ?gc" for g
      using inv [OF that] mem [OF that] that gc l(2) by (simp add: nth_list_update)
    ultimately show "?P (Suc k) (scatter_step slots k b)"
      using l seg by (intro exI [of _ "xs[?pos := k]"] exI [of _ "ps[g0 := ?pos + 1]"]) (simp del: upt_Suc)
  qed
  then show ?thesis using cnt by fastforce
qed

subsection \<open>Insertion sort\<close>

text \<open>Inserting from the right: the new element stops behind the last one that is not greater.\<close>

definition insert_right :: "('a \<Rightarrow> 'k :: linorder) \<Rightarrow> 'a \<Rightarrow> 'a list \<Rightarrow> 'a list" where
  "insert_right f x ys = rev (dropWhile (\<lambda>y. f x < f y) (rev ys)) @ x # rev (takeWhile (\<lambda>y. f x < f y) (rev ys))"

lemma insert_right_snoc:
  "insert_right f x (ys @ [y]) = (if f x < f y then insert_right f x ys @ [y] else ys @ [y, x])"
  by (simp add: insert_right_def)

lemma insert_right_mset: "mset (insert_right f x ys) = add_mset x (mset ys)"
  by (induction ys rule: rev_induct) (auto simp: insert_right_snoc, simp add: insert_right_def)

lemma insert_right_set: "set (insert_right f x ys) = insert x (set ys)"
  using insert_right_mset [of f x ys] by (metis set_mset_add_mset_insert set_mset_mset)

lemma insert_right_sorted:
  "sorted (map f ys) \<Longrightarrow> sorted (map f (insert_right f x ys))"
  by (induction ys rule: rev_induct)
     (auto simp: insert_right_snoc sorted_append insert_right_set not_less intro: order.trans,
      simp add: insert_right_def)

lemma insert_right_stable:
  assumes "sorted (map f ys)"
  shows "filter (\<lambda>y. f y = k) (insert_right f x ys) = filter (\<lambda>y. f y = k) (ys @ [x])"
  using assms
proof (induction ys rule: rev_induct)
  case (snoc y ys)
  have "filter (\<lambda>z. f z = k) (insert_right f x ys) = filter (\<lambda>z. f z = k) (ys @ [x])"
    using snoc by (simp add: sorted_append)
  then show ?case by (auto simp: insert_right_snoc)
qed (simp add: insert_right_def)

lemma insert_right_sort_key: "insert_right f x (sort_key f ys) = sort_key f (ys @ [x])"
proof (rule properties_for_sort_key [symmetric])
  show "mset (insert_right f x (sort_key f ys)) = mset (ys @ [x])"
    by (simp add: insert_right_mset)
  show "sorted (map f (insert_right f x (sort_key f ys)))"
    by (simp add: insert_right_sorted)
  fix k assume "k \<in> set (insert_right f x (sort_key f ys))"
  show "filter (\<lambda>y. f k = f y) (insert_right f x (sort_key f ys)) = filter (\<lambda>y. f k = f y) (ys @ [x])"
    unfolding eq_commute [of "f k"] by (simp add: insert_right_stable sort_key_stable)
qed

lemma insert_shift_ok:
  "insert_shift slots (length pre) x (length pre + length ys) (pre @ ys @ z # post)
     = pre @ insert_right (\<lambda>i. GetMark (slots ! i)) x ys @ post"
proof (induction ys arbitrary: z post rule: rev_induct)
  case Nil
  then show ?case by (subst insert_shift.simps) (simp add: insert_right_def)
next
  case (snoc y ys)
  have a: "(pre @ (ys @ [y]) @ z # post) ! (length pre + length (ys @ [y]) - 1) = y"
    by (simp add: nth_append)
  have b: "(pre @ (ys @ [y]) @ z # post)[length pre + length (ys @ [y]) := w] = pre @ ys @ y # w # post" for w
    by (simp add: list_update_append)
  show ?case
  proof (cases "GetMark (slots ! x) < GetMark (slots ! y)")
    case True
    then show ?thesis
      using snoc [of y "y # post"] by (subst insert_shift.simps) (simp only: a b, simp add: insert_right_snoc)
  next
    case False
    then show ?thesis
      by (subst insert_shift.simps) (simp only: a b, simp add: insert_right_snoc)
  qed
qed

lemma sort_range_ok:
  assumes "b + c \<le> length xs"
  shows "sort_range slots b (b + c) xs
    = take b xs @ sort_key (\<lambda>i. GetMark (slots ! i)) (segment b c xs) @ drop (b + c) xs"
  using assms
proof (induction c)
  case 0
  then show ?case by (simp add: sort_range_def)
next
  case (Suc c)
  let ?f = "\<lambda>i. GetMark (slots ! i)"
  show ?case
  proof (cases "c = 0")
    case True
    have "xs = take b xs @ segment b (Suc c) xs @ drop (b + Suc c) xs"
      using Suc.prems by (rule segment_split)
    then show ?thesis using True Suc.prems by (simp add: sort_range_def segment_Suc)
  next
    case False
    let ?ys = "sort_range slots b (b + c) xs"
    have ys: "?ys = take b xs @ sort_key ?f (segment b c xs) @ (xs ! (b + c)) # drop (b + Suc c) xs"
      using Suc by (simp add: Cons_nth_drop_Suc)
    have lens: "length (take b xs) = b" "length (sort_key ?f (segment b c xs)) = c"
      using Suc.prems by simp_all
    have x: "?ys ! (b + c) = xs ! (b + c)"
      unfolding ys using Suc.prems by (simp add: nth_append)
    have "sort_range slots b (b + Suc c) xs = insert_shift slots b (?ys ! (b + c)) (b + c) ?ys"
      using False by (simp add: sort_range_def)
    also have "\<dots> = take b xs @ insert_right ?f (xs ! (b + c)) (sort_key ?f (segment b c xs)) @ drop (b + Suc c) xs"
      unfolding x using insert_shift_ok [of slots "take b xs" "xs ! (b + c)" "sort_key ?f (segment b c xs)" "xs ! (b + c)" "drop (b + Suc c) xs"]
      by (simp only: ys lens)
    also have "\<dots> = take b xs @ sort_key ?f (segment b (Suc c) xs) @ drop (b + Suc c) xs"
      using Suc.prems by (simp only: insert_right_sort_key) (simp add: segment_Suc)
    finally show ?thesis .
  qed
qed

lemma sort_groups_ok:
  assumes lay: "layout_ok (b_groups build) gc"
    and total: "(\<Sum>g<gc. gr_instruction_count (b_groups build ! g)) \<le> length (b_instruction_indices build)"
    and gc: "gc = b_group_count build"
  shows "\<exists>xs. sort_groups slots build = build\<lparr>b_instruction_indices := xs\<rparr>
    \<and> length xs = length (b_instruction_indices build)
    \<and> (\<forall>g<gc. segment (gr_index_begin (b_groups build ! g)) (gr_instruction_count (b_groups build ! g)) xs
        = sort_key (\<lambda>i. GetMark (slots ! i))
            (segment (gr_index_begin (b_groups build ! g)) (gr_instruction_count (b_groups build ! g)) (b_instruction_indices build)))"
proof -
  let ?b = "\<lambda>g. gr_index_begin (b_groups build ! g)" and ?c = "\<lambda>g. gr_instruction_count (b_groups build ! g)"
    and ?f = "\<lambda>i. GetMark (slots ! i)" and ?xs0 = "b_instruction_indices build"
  let ?P = "\<lambda>k xs. length xs = length ?xs0
      \<and> (\<forall>g<gc. segment (?b g) (?c g) xs = (if g < k then sort_key ?f (segment (?b g) (?c g) ?xs0) else segment (?b g) (?c g) ?xs0))"
  have top: "?b g + ?c g \<le> length ?xs0" if "g < gc" for g
    using layout_total [OF lay that] total by simp
  have "?P 0 ?xs0" by simp
  then have "?P gc (fold (\<lambda>g xs. sort_range slots (?b g) (?b g + ?c g) xs) [0..<gc] ?xs0)"
  proof (rule fold_upt_invariant [where P = "?P"])
    fix k xs assume k: "k < gc" and inv: "?P k xs"
    let ?ys = "take (?b k) xs @ sort_key ?f (segment (?b k) (?c k) xs) @ drop (?b k + ?c k) xs"
    have t: "?b k + ?c k \<le> length xs" using top [OF k] inv by simp
    have eq: "sort_range slots (?b k) (?b k + ?c k) xs = ?ys" by (rule sort_range_ok [OF t])
    have l: "length (sort_key ?f (segment (?b k) (?c k) xs)) = ?c k" using t by simp
    have "segment (?b g) (?c g) ?ys = (if g = k then sort_key ?f (segment (?b k) (?c k) xs) else segment (?b g) (?c g) xs)"
      if g: "g < gc" for g
    proof (cases "g = k")
      case False
      have "?b g + ?c g \<le> ?b k \<or> ?b k + ?c k \<le> ?b g"
        using layout_disjoint [OF lay, of g k] layout_disjoint [OF lay, of k g] False g k by (cases "g < k") auto
      then show ?thesis
        using False segment_replace_outside [OF t l] top [OF g] inv by simp
    qed (use segment_replace_inside [OF t l] in simp)
    then show "?P (Suc k) (sort_range slots (?b k) (?b k + ?c k) xs)"
      unfolding eq using inv t k by (auto simp: less_Suc_eq)
  qed
  then show ?thesis
    by (intro exI [of _ "fold (\<lambda>g xs. sort_range slots (?b g) (?b g + ?c g) xs) [0..<gc] ?xs0"])
       (simp add: sort_groups_def gc)
qed

text \<open>The members of a group in execution order: by mark, equal marks in insertion order.\<close>

definition group_members :: "InstructionMemorySlot list \<Rightarrow> nat \<Rightarrow> GroupId \<Rightarrow> nat list" where
  "group_members slots n gid =
     sort_key (\<lambda>i. GetMark (slots ! i)) (filter (\<lambda>i. GetGroupId (slots ! i) = gid) [0..<n])"

definition pool_ok :: "InstructionMemorySlot list \<Rightarrow> nat \<Rightarrow> GroupRecord list \<Rightarrow> nat \<Rightarrow> nat list \<Rightarrow> bool" where
  "pool_ok slots n groups gc indices \<longleftrightarrow>
     table_ok slots n groups gc \<and> layout_ok groups gc \<and> length indices = kMaxInstructions \<and>
     (\<forall>g<gc. segment (gr_index_begin (groups ! g)) (gr_instruction_count (groups ! g)) indices
        = group_members slots n (gr_id (groups ! g)))"

lemma BuildGroupIndexPool_ok:
  assumes ok: "table_ok slots n (b_groups build) (b_group_count build)" and n: "n \<le> kMaxInstructions"
    and wp: "length (b_index_write_positions build) = kMaxGroups"
    and len: "length (b_instruction_indices build) = kMaxInstructions"
  shows "\<exists>groups ps xs. BuildGroupIndexPool slots n build
      = Inr (build\<lparr>b_groups := groups, b_index_write_positions := ps, b_instruction_indices := xs\<rparr>)
    \<and> pool_ok slots n groups (b_group_count build) xs"
proof -
  let ?gc = "b_group_count build"
  obtain cur groups ps where p: "fold_err prefix_step [0..<?gc] (0, build)
      = Inr (cur, build\<lparr>b_groups := groups, b_index_write_positions := ps\<rparr>)"
    and t: "table_ok slots n groups ?gc" and lay: "layout_ok groups ?gc"
    and ps: "length ps = kMaxGroups" "\<And>g. g < ?gc \<Longrightarrow> ps ! g = gr_index_begin (groups ! g)"
    using prefix_ok [OF ok n wp] by blast
  let ?b1 = "build\<lparr>b_groups := groups, b_index_write_positions := ps\<rparr>"
  obtain xs qs where s: "fold (scatter_step slots) [0..<n] ?b1
      = ?b1\<lparr>b_instruction_indices := xs, b_index_write_positions := qs\<rparr>"
    and xs: "length xs = kMaxInstructions"
      "\<And>g. g < ?gc \<Longrightarrow> segment (gr_index_begin (groups ! g)) (gr_instruction_count (groups ! g)) xs
          = filter (\<lambda>i. GetGroupId (slots ! i) = gr_id (groups ! g)) [0..<n]"
    using scatter_ok [of slots n ?b1] t lay n ps len by auto
  let ?b2 = "?b1\<lparr>b_instruction_indices := xs, b_index_write_positions := qs\<rparr>"
  have b2: "b_groups ?b2 = groups" "b_group_count ?b2 = ?gc" "b_instruction_indices ?b2 = xs" by simp_all
  have total: "(\<Sum>g<?gc. gr_instruction_count (groups ! g)) \<le> length xs"
    using table_total [OF t] n xs(1) by simp
  obtain ys where y: "sort_groups slots ?b2 = ?b2\<lparr>b_instruction_indices := ys\<rparr>"
    and yl: "length ys = length xs"
    and yg: "\<forall>g<?gc. segment (gr_index_begin (groups ! g)) (gr_instruction_count (groups ! g)) ys
        = sort_key (\<lambda>i. GetMark (slots ! i)) (segment (gr_index_begin (groups ! g)) (gr_instruction_count (groups ! g)) xs)"
    using sort_groups_ok [of ?b2 ?gc slots, unfolded b2, OF lay total refl] by blast
  have ys: "length ys = kMaxInstructions"
      "\<forall>g<?gc. segment (gr_index_begin (groups ! g)) (gr_instruction_count (groups ! g)) ys
          = group_members slots n (gr_id (groups ! g))"
    using yl yg xs by (simp_all add: group_members_def)
  have "BuildGroupIndexPool slots n build
      = Inr (build\<lparr>b_groups := groups, b_index_write_positions := qs, b_instruction_indices := ys\<rparr>)"
    unfolding BuildGroupIndexPool_def p sum.case prod.case s y by simp
  then show ?thesis using t lay ys unfolding pool_ok_def by blast
qed

section \<open>Call graph\<close>

lemma mask_bit: "(w AND push_bit t 1 = (0 :: u32)) = (\<not> bit w t)"
  by (simp add: and_exp_eq_0_iff_not_bit)

text \<open>The relation a table of adjacency masks stands for.\<close>

definition edges :: "nat \<Rightarrow> u32 list \<Rightarrow> (nat \<times> nat) set" where
  "edges gc graph = {(s, t). s < gc \<and> t < gc \<and> bit (graph ! s) t}"

definition masks_ok :: "nat \<Rightarrow> u32 list \<Rightarrow> bool" where
  "masks_ok gc graph \<longleftrightarrow> length graph = kMaxGroups \<and> (\<forall>s<gc. \<forall>t. bit (graph ! s) t \<longrightarrow> t < gc)"

text \<open>One round of Warshall's algorithm: the row of the intermediate node does not change.\<close>

lemma close_round:
  assumes k: "k < gc" and gc: "gc \<le> kMaxGroups" and ok: "masks_ok gc graph"
  shows "masks_ok gc (fold (close_step k) [0..<gc] graph)"
    and "edges gc (fold (close_step k) [0..<gc] graph)
      = edges gc graph \<union> {(s, t). (s, k) \<in> edges gc graph \<and> (k, t) \<in> edges gc graph}"
proof -
  let ?row = "\<lambda>s. if bit (graph ! s) k then graph ! s OR graph ! k else graph ! s"
  let ?P = "\<lambda>j g. length g = kMaxGroups \<and> (\<forall>s<gc. g ! s = (if s < j then ?row s else graph ! s))"
  have "?P 0 graph" using ok by (simp add: masks_ok_def)
  then have P: "?P gc (fold (close_step k) [0..<gc] graph)"
  proof (rule fold_upt_invariant [where P = "?P"])
    fix j g assume j: "j < gc" and inv: "?P j g"
    have rows: "g ! j = graph ! j" "g ! k = graph ! k"
      using inv j k by auto
    show "?P (Suc j) (close_step k j g)"
      using inv j gc unfolding close_step_def mask_bit rows by (auto simp: nth_list_update less_Suc_eq)
  qed
  then have row: "fold (close_step k) [0..<gc] graph ! s = ?row s" if "s < gc" for s
    using that by simp
  show "masks_ok gc (fold (close_step k) [0..<gc] graph)"
    using P ok k unfolding masks_ok_def by (auto simp: row bit_or_iff)
  show "edges gc (fold (close_step k) [0..<gc] graph)
      = edges gc graph \<union> {(s, t). (s, k) \<in> edges gc graph \<and> (k, t) \<in> edges gc graph}"
    using k by (auto simp: edges_def row bit_or_iff split: if_splits)
qed

lemma close_graph_ok:
  assumes gc: "gc \<le> kMaxGroups" and ok: "masks_ok gc graph"
  shows "masks_ok gc (close_graph gc graph) \<and> edges gc (close_graph gc graph) = (edges gc graph)\<^sup>+"
proof -
  let ?E = "edges gc graph"
  let ?P = "\<lambda>k g. masks_ok gc g \<and> ?E \<subseteq> edges gc g \<and> edges gc g \<subseteq> ?E\<^sup>+
      \<and> (\<forall>s j t. j < k \<longrightarrow> (s, j) \<in> edges gc g \<longrightarrow> (j, t) \<in> edges gc g \<longrightarrow> (s, t) \<in> edges gc g)"
  have "?P 0 graph" using ok by auto
  then have P: "?P gc (close_graph gc graph)"
    unfolding close_graph_def
  proof (rule fold_upt_invariant [where P = "?P"])
    fix k g assume k: "k < gc" and inv: "?P k g"
    then have ok: "masks_ok gc g" by simp
    note round = close_round [OF k gc ok]
    have sound: "{(s, t). (s, k) \<in> edges gc g \<and> (k, t) \<in> edges gc g} \<subseteq> ?E\<^sup>+"
      using inv by (auto intro: trancl_trans)
    have trans: "(s, j) \<in> edges gc g \<Longrightarrow> (j, t) \<in> edges gc g \<Longrightarrow> j < k \<Longrightarrow> (s, t) \<in> edges gc g" for s j t
      using inv by blast
    have "(s, t) \<in> edges gc g \<union> {(s, t). (s, k) \<in> edges gc g \<and> (k, t) \<in> edges gc g}"
      if "j < Suc k" "(s, j) \<in> edges gc g \<union> {(s, t). (s, k) \<in> edges gc g \<and> (k, t) \<in> edges gc g}"
        "(j, t) \<in> edges gc g \<union> {(s, t). (s, k) \<in> edges gc g \<and> (k, t) \<in> edges gc g}" for s j t
      using that trans [of s j t] trans [of s j k] trans [of k j t] trans [of k j k]
      by (cases "j = k") (simp_all, blast+)
    then show "?P (Suc k) (fold (close_step k) [0..<gc] g)"
      using inv sound round(1) unfolding round(2) by blast
  qed
  have "trans (edges gc (close_graph gc graph))"
  proof (rule transI)
    fix s j t assume st: "(s, j) \<in> edges gc (close_graph gc graph)" "(j, t) \<in> edges gc (close_graph gc graph)"
    then have "j < gc" by (simp add: edges_def)
    with P st show "(s, t) \<in> edges gc (close_graph gc graph)" by blast
  qed
  then have "(edges gc (close_graph gc graph))\<^sup>+ = edges gc (close_graph gc graph)" by (rule trancl_id)
  moreover have "?E\<^sup>+ \<subseteq> (edges gc (close_graph gc graph))\<^sup>+"
    using P by (intro trancl_mono_subset) blast
  ultimately show ?thesis using P by blast
qed

text \<open>Which groups call which, by label, and whether the calls resolve.\<close>

definition calls :: "InstructionMemorySlot list \<Rightarrow> nat \<Rightarrow> (GroupId \<times> GroupId) set" where
  "calls slots n = {(GetGroupId (slots ! i), GetTargetGroupId (slots ! i)) | i. i < n \<and> IsRunGroup (slots ! i)}"

definition targets_ok :: "InstructionMemorySlot list \<Rightarrow> nat \<Rightarrow> bool" where
  "targets_ok slots n \<longleftrightarrow> (\<forall>i<n. IsRunGroup (slots ! i) \<longrightarrow>
     GetTargetGroupId (slots ! i) \<noteq> 0 \<and> (\<exists>j<n. GetGroupId (slots ! j) = GetTargetGroupId (slots ! i)))"

lemma FindGroup_absent:
  assumes "table_ok slots n groups gc" "gc \<le> kMaxGroups" "gid \<noteq> 0"
  shows "FindGroup groups gc gid = kMaxGroups \<longleftrightarrow> (\<forall>j<n. GetGroupId (slots ! j) \<noteq> gid)"
proof (cases gc gid rule: FindGroup_cases [of groups])
  case (found i)
  then have "0 < i" using assms unfolding table_ok_def by (metis gr0I)
  then have "\<exists>j<n. GetGroupId (slots ! j) = gid" using assms(1) found unfolding table_ok_def by metis
  then show ?thesis using found assms(2) by auto
next
  case absent
  then show ?thesis using assms(1) unfolding table_ok_def by metis
qed


lemma BuildGroupCallGraph_prefix:
  assumes ok: "table_ok slots n (b_groups build) (b_group_count build)"
    and gc: "b_group_count build \<le> kMaxGroups"
    and zero: "b_call_graph build = replicate kMaxGroups 0" and k: "k \<le> n"
  shows "if \<forall>i<k. IsRunGroup (slots ! i) \<longrightarrow>
       GetTargetGroupId (slots ! i) \<noteq> 0 \<and> (\<exists>j<n. GetGroupId (slots ! j) = GetTargetGroupId (slots ! i))
     then \<exists>graph. fold_err (BuildGroupCallGraph_step slots) [0..<k] build = Inr (build\<lparr>b_call_graph := graph\<rparr>)
       \<and> masks_ok (b_group_count build) graph
       \<and> (\<forall>s<b_group_count build. \<forall>t<b_group_count build. bit (graph ! s) t \<longleftrightarrow>
            (gr_id (b_groups build ! s), gr_id (b_groups build ! t)) \<in> calls slots k)
     else fold_err (BuildGroupCallGraph_step slots) [0..<k] build = Inl kInvalidProgram"
  using k
proof (induction k)
  case 0
  have "build = build\<lparr>b_call_graph := replicate kMaxGroups 0\<rparr>" using zero by simp
  moreover have "masks_ok (b_group_count build) (replicate kMaxGroups 0)"
    using gc by (simp add: masks_ok_def)
  ultimately show ?case using gc
    by (auto simp: calls_def intro!: exI [of _ "replicate kMaxGroups 0"])
next
  case (Suc k)
  let ?gc = "b_group_count build" and ?id = "\<lambda>g. gr_id (b_groups build ! g)"
  let ?ok = "\<lambda>i. IsRunGroup (slots ! i) \<longrightarrow> GetTargetGroupId (slots ! i) \<noteq> 0
      \<and> (\<exists>j<n. GetGroupId (slots ! j) = GetTargetGroupId (slots ! i))"
  show ?case
  proof (cases "\<forall>i<k. ?ok i")
    case False
    then show ?thesis using Suc by (simp add: fold_err_append) (meson less_SucI)
  next
    case True
    then obtain graph where g: "fold_err (BuildGroupCallGraph_step slots) [0..<k] build = Inr (build\<lparr>b_call_graph := graph\<rparr>)"
      and m: "masks_ok ?gc graph"
      and e: "\<And>s t. s < ?gc \<Longrightarrow> t < ?gc \<Longrightarrow> bit (graph ! s) t \<longleftrightarrow> (?id s, ?id t) \<in> calls slots k"
      using Suc by auto
    have all: "(\<forall>i<Suc k. ?ok i) \<longleftrightarrow> ?ok k" using True by (auto simp: less_Suc_eq)
    have kn: "k < n" using Suc.prems by simp
    obtain s where s: "s < ?gc" "\<And>h. h < ?gc \<Longrightarrow> GetGroupId (slots ! k) = ?id h \<longleftrightarrow> h = s"
      and fs: "FindGroup (b_groups build) ?gc (GetGroupId (slots ! k)) = s" using table_owner [OF ok kn] by blast
    show ?thesis
    proof (cases "IsRunGroup (slots ! k)")
      case False
      then have "calls slots (Suc k) = calls slots k" by (auto simp: calls_def less_Suc_eq)
      then show ?thesis unfolding all using False g m e
        by (auto simp: fold_err_append BuildGroupCallGraph_step_def)
    next
      case run: True
      show ?thesis
      proof (cases "?ok k")
        case False
        then have "BuildGroupCallGraph_step slots k (build\<lparr>b_call_graph := graph\<rparr>) = Inl kInvalidProgram"
          using run FindGroup_absent [OF ok gc, of "GetTargetGroupId (slots ! k)"]
          by (auto simp: BuildGroupCallGraph_step_def Let_def)
        then show ?thesis unfolding all using False by (simp add: fold_err_append g)
      next
        case tok: True
        then obtain j where j: "j < n" "GetGroupId (slots ! j) = GetTargetGroupId (slots ! k)" using run by blast
        obtain t where t: "t < ?gc" "\<And>h. h < ?gc \<Longrightarrow> GetTargetGroupId (slots ! k) = ?id h \<longleftrightarrow> h = t"
          and ft: "FindGroup (b_groups build) ?gc (GetTargetGroupId (slots ! k)) = t"
          using table_owner [OF ok j(1)] j(2) by metis
        let ?graph = "graph[s := graph ! s OR push_bit t 1]"
        have st: "s \<noteq> kMaxGroups" "t \<noteq> kMaxGroups" using s t gc by auto
        have step: "BuildGroupCallGraph_step slots k (build\<lparr>b_call_graph := graph\<rparr>) = Inr (build\<lparr>b_call_graph := ?graph\<rparr>)"
          using run tok fs ft st by (simp add: BuildGroupCallGraph_step_def Let_def)
        have sl: "s < length graph" using s(1) gc m by (simp add: masks_ok_def)
        have t32: "t < 32" using t(1) gc by (simp add: capacity_simps)
        have bits: "bit (?graph ! a) b \<longleftrightarrow> bit (graph ! a) b \<or> a = s \<and> b = t" if "a < ?gc" for a b
          using sl t32 by (auto simp: nth_list_update bit_or_iff bit_exp_iff)
        have "calls slots (Suc k) = insert (GetGroupId (slots ! k), GetTargetGroupId (slots ! k)) (calls slots k)"
          using run by (auto simp: calls_def less_Suc_eq)
        then have calls: "(x, y) \<in> calls slots (Suc k) \<longleftrightarrow>
            GetGroupId (slots ! k) = x \<and> GetTargetGroupId (slots ! k) = y \<or> (x, y) \<in> calls slots k" for x y
          by (simp only: insert_iff prod.inject) (simp only: eq_commute)
        have new: "bit (?graph ! a) b \<longleftrightarrow> (?id a, ?id b) \<in> calls slots (Suc k)" if "a < ?gc" "b < ?gc" for a b
          unfolding calls bits [OF that(1)] e [OF that] s(2) [OF that(1)] t(2) [OF that(2)] by blast
        have "masks_ok ?gc ?graph"
          using m t(1) bits unfolding masks_ok_def length_list_update by metis
        then show ?thesis unfolding all using tok step new
          by (simp add: fold_err_append g) (intro exI [of _ ?graph], simp)
      qed
    qed
  qed
qed

lemma BuildGroupCallGraph_ok:
  assumes "table_ok slots n (b_groups build) (b_group_count build)"
    and "b_group_count build \<le> kMaxGroups" and "b_call_graph build = replicate kMaxGroups 0"
  shows "targets_ok slots n \<Longrightarrow> \<exists>graph. BuildGroupCallGraph slots n build = Inr (build\<lparr>b_call_graph := graph\<rparr>)
       \<and> masks_ok (b_group_count build) graph
       \<and> (\<forall>s<b_group_count build. \<forall>t<b_group_count build. bit (graph ! s) t \<longleftrightarrow>
            (gr_id (b_groups build ! s), gr_id (b_groups build ! t)) \<in> calls slots n)"
    and "\<not> targets_ok slots n \<Longrightarrow> BuildGroupCallGraph slots n build = Inl kInvalidProgram"
  using BuildGroupCallGraph_prefix [OF assms le_refl]
  unfolding BuildGroupCallGraph_def targets_ok_def by (simp_all only: if_True if_False)

text \<open>Paths between table entries are paths between their labels.\<close>

lemma edges_calls:
  assumes ok: "table_ok slots n groups gc"
    and tg: "targets_ok slots n"
    and e: "\<And>s t. s < gc \<Longrightarrow> t < gc \<Longrightarrow> bit (graph ! s) t \<longleftrightarrow> (gr_id (groups ! s), gr_id (groups ! t)) \<in> calls slots n"
    and s: "s < gc" and t: "t < gc"
  shows "(s, t) \<in> (edges gc graph)\<^sup>+ \<longleftrightarrow> (gr_id (groups ! s), gr_id (groups ! t)) \<in> (calls slots n)\<^sup>+"
proof
  assume "(s, t) \<in> (edges gc graph)\<^sup>+"
  then show "(gr_id (groups ! s), gr_id (groups ! t)) \<in> (calls slots n)\<^sup>+"
    by (induction rule: trancl_induct) (auto simp: edges_def e intro: trancl_into_trancl)
next
  have "\<exists>t<gc. gr_id (groups ! t) = y \<and> (s, t) \<in> (edges gc graph)\<^sup>+"
    if "(gr_id (groups ! s), y) \<in> (calls slots n)\<^sup>+" for y
    using that
  proof (induction rule: trancl_induct)
    case (base y)
    then obtain i where i: "i < n" "IsRunGroup (slots ! i)" "GetTargetGroupId (slots ! i) = y" by (auto simp: calls_def)
    then obtain j where "j < n" "GetGroupId (slots ! j) = y" using tg by (auto simp: targets_ok_def)
    then obtain t where "t < gc" "gr_id (groups ! t) = y" using ok unfolding table_ok_def by metis
    then show ?case using base e [OF s] s by (intro exI [of _ t]) (auto simp: edges_def)
  next
    case (step y z)
    then obtain u where u: "u < gc" "gr_id (groups ! u) = y" "(s, u) \<in> (edges gc graph)\<^sup>+" by blast
    obtain i where i: "i < n" "IsRunGroup (slots ! i)" "GetTargetGroupId (slots ! i) = z"
      using step(2) by (auto simp: calls_def)
    then obtain j where "j < n" "GetGroupId (slots ! j) = z" using tg by (auto simp: targets_ok_def)
    then obtain t where t: "t < gc" "gr_id (groups ! t) = z" using ok unfolding table_ok_def by metis
    then have "(u, t) \<in> edges gc graph" using e [OF u(1) t(1)] u step(2) by (simp add: edges_def)
    then have "(s, t) \<in> (edges gc graph)\<^sup>+" using u(3) by (rule trancl_into_trancl [rotated])
    then show ?case using t by blast
  qed
  moreover assume "(gr_id (groups ! s), gr_id (groups ! t)) \<in> (calls slots n)\<^sup>+"
  ultimately obtain u where "u < gc" "gr_id (groups ! u) = gr_id (groups ! t)" "(s, u) \<in> (edges gc graph)\<^sup>+" by blast
  moreover have "u = t" using calculation ok t unfolding table_ok_def by metis
  ultimately show "(s, t) \<in> (edges gc graph)\<^sup>+" by simp
qed

section \<open>Repeat boundaries\<close>

lemma boundary_edges_ok:
  assumes len: "length has = kMaxGroups" and gc: "gc \<le> kMaxGroups"
    and es: "set es \<subseteq> {..<gc} \<times> {..<gc}"
    and r: "fold (boundary_edge graph) es (ch, has) = (ch', has')"
    and trans: "trans (edges gc graph)"
  shows "length has' = kMaxGroups \<and> (\<forall>g. has ! g \<longrightarrow> has' ! g)
    \<and> (\<forall>(s, t) \<in> set es. bit (graph ! s) t \<longrightarrow> has ! t \<longrightarrow> has' ! s)
    \<and> (\<forall>g<gc. has' ! g \<longrightarrow> has ! g \<or> (\<exists>t. (g, t) \<in> edges gc graph \<and> has ! t))"
  using len es r
proof (induction es arbitrary: ch has)
  case (Cons e es)
  obtain s t where e: "e = (s, t)" by (cases e)
  have st: "s < gc" "t < gc" using Cons.prems(2) e by auto
  obtain ch1 has1 where b: "boundary_edge graph e (ch, has) = (ch1, has1)" by (metis prod.exhaust)
  have same: "has[s := True] = has" if "has ! s"
    using that list_update_id [of has s] by (metis (full_types))
  have has1: "has1 = (if bit (graph ! s) t \<and> has ! t then has[s := True] else has)"
    using b same unfolding boundary_edge_def e mask_bit by (auto split: if_splits)
  have up: "has1 ! g = (has ! g \<or> g = s \<and> bit (graph ! s) t \<and> has ! t)" for g
    using st(1) gc Cons.prems(1) by (auto simp: has1 nth_list_update)
  have l1: "length has1 = kMaxGroups" using Cons.prems(1) by (simp add: has1)
  have IH: "length has' = kMaxGroups" "\<And>g. has1 ! g \<Longrightarrow> has' ! g"
      "\<And>s t. (s, t) \<in> set es \<Longrightarrow> bit (graph ! s) t \<Longrightarrow> has1 ! t \<Longrightarrow> has' ! s"
      "\<And>g. g < gc \<Longrightarrow> has' ! g \<Longrightarrow> has1 ! g \<or> (\<exists>t. (g, t) \<in> edges gc graph \<and> has1 ! t)"
    using Cons.IH [OF l1, of ch1] Cons.prems(2,3) b by auto
  have edge: "(s, t) \<in> edges gc graph" if "bit (graph ! s) t" using that st by (simp add: edges_def)
  have "has ! g \<or> (\<exists>t. (g, t) \<in> edges gc graph \<and> has ! t)" if "g < gc" "has' ! g" for g
    using IH(4) [OF that] edge transD [OF trans] unfolding up by metis
  then show ?case using IH(1-3) unfolding up by (auto simp: e)
qed auto

lemma boundary_pass_ok:
  assumes "length has = kMaxGroups" "gc \<le> kMaxGroups" "boundary_pass graph gc has = (ch, has')"
    and "trans (edges gc graph)"
  shows "length has' = kMaxGroups" "\<And>g. has ! g \<Longrightarrow> has' ! g"
    "\<And>s t. (s, t) \<in> edges gc graph \<Longrightarrow> has ! t \<Longrightarrow> has' ! s"
    "\<And>g. g < gc \<Longrightarrow> has' ! g \<Longrightarrow> has ! g \<or> (\<exists>t. (g, t) \<in> edges gc graph \<and> has ! t)"
proof -
  have "set (List.product [0..<gc] [0..<gc]) \<subseteq> {..<gc} \<times> {..<gc}" by auto
  note p = boundary_edges_ok [OF assms(1,2) this assms(3) [unfolded boundary_pass_def] assms(4)]
  show "length has' = kMaxGroups" "\<And>g. has ! g \<Longrightarrow> has' ! g"
    "\<And>g. g < gc \<Longrightarrow> has' ! g \<Longrightarrow> has ! g \<or> (\<exists>t. (g, t) \<in> edges gc graph \<and> has ! t)"
    using p by blast+
  show "\<And>s t. (s, t) \<in> edges gc graph \<Longrightarrow> has ! t \<Longrightarrow> has' ! s"
    using p by (auto simp: edges_def)
qed

lemma boundary_passes_ok:
  assumes gc: "gc \<le> kMaxGroups" and trans: "trans (edges gc graph)"
    and len: "length has = kMaxGroups"
  shows "length (boundary_passes graph gc p has) = kMaxGroups \<and> (\<forall>g. has ! g \<longrightarrow> boundary_passes graph gc p has ! g)
    \<and> (\<forall>g<gc. boundary_passes graph gc p has ! g \<longrightarrow> has ! g \<or> (\<exists>t. (g, t) \<in> edges gc graph \<and> has ! t))"
  using len
proof (induction p arbitrary: has)
  case (Suc p)
  obtain ch has1 where b: "boundary_pass graph gc has = (ch, has1)" by (metis prod.exhaust)
  note p = boundary_pass_ok [OF Suc.prems gc b trans]
  note IH = Suc.IH [OF p(1)]
  have "has ! g \<or> (\<exists>t. (g, t) \<in> edges gc graph \<and> has ! t)"
    if "g < gc" "has1 ! g \<or> (\<exists>t. (g, t) \<in> edges gc graph \<and> has1 ! t)" for g
  proof -
    have lt: "t < gc" if "(g, t) \<in> edges gc graph" for t using that by (simp add: edges_def)
    show ?thesis using that lt p(4) transD [OF trans] by metis
  qed
  then show ?case using p(1,2,4) IH by (auto simp: b)
qed simp

lemma boundary_passes_exact:
  assumes gc: "gc \<le> kMaxGroups" and trans: "trans (edges gc graph)"
    and len: "length has = kMaxGroups" and g: "g < gc"
  shows "boundary_passes graph gc gc has ! g \<longleftrightarrow> has ! g \<or> (\<exists>t. (g, t) \<in> edges gc graph \<and> has ! t)"
proof -
  obtain p where p: "gc = Suc p" using g by (cases gc) auto
  obtain ch has1 where b: "boundary_pass graph gc has = (ch, has1)" by (metis prod.exhaust)
  note bp = boundary_pass_ok [OF len gc b trans]
  have eq: "boundary_passes graph gc gc has = (if ch then boundary_passes graph gc p has1 else has1)"
    using b by (simp add: p)
  have "boundary_passes graph gc gc has ! g" if "has ! g \<or> (\<exists>t. (g, t) \<in> edges gc graph \<and> has ! t)"
  proof -
    have "has1 ! g" using that bp(2,3) by blast
    then show ?thesis using boundary_passes_ok [OF gc trans bp(1), of p] by (simp add: eq)
  qed
  then show ?thesis using boundary_passes_ok [OF gc trans len, of gc] g by blast
qed

definition own_boundary :: "InstructionMemorySlot list \<Rightarrow> nat \<Rightarrow> GroupId \<Rightarrow> bool" where
  "own_boundary slots n gid \<longleftrightarrow> (\<exists>i<n. GetGroupId (slots ! i) = gid \<and>
     (0 < GetMark (slots ! i) \<or> HasPositiveSchedulingBoundary (slots ! i)))"

lemma own_boundary_ok:
  assumes ok: "table_ok slots n (b_groups build) (b_group_count build)"
    and gc: "b_group_count build \<le> kMaxGroups"
    and zero: "b_has_positive_boundary build = replicate kMaxGroups False"
  shows "\<exists>has. fold (own_boundary_step slots) [0..<n] build = build\<lparr>b_has_positive_boundary := has\<rparr>
    \<and> length has = kMaxGroups
    \<and> (\<forall>g<b_group_count build. has ! g \<longleftrightarrow> own_boundary slots n (gr_id (b_groups build ! g)))"
proof -
  let ?gc = "b_group_count build" and ?id = "\<lambda>g. gr_id (b_groups build ! g)"
  let ?P = "\<lambda>k b. \<exists>has. b = build\<lparr>b_has_positive_boundary := has\<rparr> \<and> length has = kMaxGroups
      \<and> (\<forall>g<?gc. has ! g \<longleftrightarrow> own_boundary slots k (?id g))"
  have "?P 0 build"
    using zero gc by (intro exI [of _ "replicate kMaxGroups False"]) (simp add: own_boundary_def)
  then have "?P n (fold (own_boundary_step slots) [0..<n] build)"
  proof (rule fold_upt_invariant [where P = "?P"])
    fix k b assume k: "k < n" and "?P k b"
    then obtain has where b: "b = build\<lparr>b_has_positive_boundary := has\<rparr>" and l: "length has = kMaxGroups"
      and h: "\<And>g. g < ?gc \<Longrightarrow> has ! g \<longleftrightarrow> own_boundary slots k (?id g)" by auto
    obtain s where s: "s < ?gc" "\<And>h. h < ?gc \<Longrightarrow> GetGroupId (slots ! k) = ?id h \<longleftrightarrow> h = s"
      and fs: "FindGroup (b_groups build) ?gc (GetGroupId (slots ! k)) = s" using table_owner [OF ok k] by blast
    let ?p = "0 < GetMark (slots ! k) \<or> HasPositiveSchedulingBoundary (slots ! k)"
    let ?has = "if ?p then has[s := True] else has"
    have step: "own_boundary_step slots k b = build\<lparr>b_has_positive_boundary := ?has\<rparr>"
      by (simp add: own_boundary_step_def b fs Let_def)
    have suc: "own_boundary slots (Suc k) x \<longleftrightarrow> own_boundary slots k x \<or> GetGroupId (slots ! k) = x \<and> ?p" for x
      unfolding own_boundary_def less_Suc_eq by blast
    have "?has ! g \<longleftrightarrow> own_boundary slots (Suc k) (?id g)" if "g < ?gc" for g
      unfolding suc s(2) [OF that] h [OF that, symmetric] using l gc s(1) by (simp add: nth_list_update)
    then show "?P (Suc k) (own_boundary_step slots k b)"
      using l step by (intro exI [of _ ?has]) simp
  qed
  then show ?thesis by simp
qed

section \<open>Valid programs\<close>

text \<open>
  The contract of Start, over labels: every RunGroup names a non-root group that has instructions,
  no group calls itself directly or indirectly, and every repeated group can reach a positive
  boundary, a mark or a timed instruction, in itself or in a group it calls.
\<close>

definition has_boundary :: "InstructionMemorySlot list \<Rightarrow> nat \<Rightarrow> GroupId \<Rightarrow> bool" where
  "has_boundary slots n gid \<longleftrightarrow> (\<exists>h. (gid, h) \<in> (calls slots n)\<^sup>* \<and> own_boundary slots n h)"

definition repeats_ok :: "InstructionMemorySlot list \<Rightarrow> nat \<Rightarrow> LoopCount \<Rightarrow> bool" where
  "repeats_ok slots n repeats \<longleftrightarrow>
     (\<forall>i<n. IsRunGroup (slots ! i) \<longrightarrow> GetAdditionalRepeats (slots ! i) \<noteq> 0 \<longrightarrow>
        has_boundary slots n (GetTargetGroupId (slots ! i))) \<and>
     (repeats \<noteq> 0 \<longrightarrow> has_boundary slots n 0)"

definition valid_program :: "InstructionMemorySlot list \<Rightarrow> nat \<Rightarrow> LoopCount \<Rightarrow> bool" where
  "valid_program slots n repeats \<longleftrightarrow>
     targets_ok slots n \<and> acyclic (calls slots n) \<and> repeats_ok slots n repeats"

text \<open>The state of the scratch structure when the call graph has been built.\<close>

definition graph_ok :: "InstructionMemorySlot list \<Rightarrow> nat \<Rightarrow> GroupBuildState \<Rightarrow> bool" where
  "graph_ok slots n build \<longleftrightarrow>
     pool_ok slots n (b_groups build) (b_group_count build) (b_instruction_indices build) \<and>
     targets_ok slots n \<and> masks_ok (b_group_count build) (b_call_graph build) \<and>
     b_has_positive_boundary build = replicate kMaxGroups False \<and>
     (\<forall>s<b_group_count build. \<forall>t<b_group_count build. bit (b_call_graph build ! s) t \<longleftrightarrow>
        (gr_id (b_groups build ! s), gr_id (b_groups build ! t)) \<in> calls slots n)"

lemma ValidateGroupCallGraph_ok:
  assumes g: "graph_ok slots n build" and n: "n \<le> kMaxInstructions"
  shows "ValidateGroupCallGraph build =
    (if acyclic (calls slots n)
     then Inr (build\<lparr>b_call_graph := close_graph (b_group_count build) (b_call_graph build)\<rparr>)
     else Inl kInvalidProgram)"
proof -
  let ?gc = "b_group_count build" and ?id = "\<lambda>g. gr_id (b_groups build ! g)"
  have t: "table_ok slots n (b_groups build) ?gc" using g by (simp add: graph_ok_def pool_ok_def)
  have gc: "?gc \<le> kMaxGroups" using table_ok_le [OF t n] .
  have c: "edges ?gc (close_graph ?gc (b_call_graph build)) = (edges ?gc (b_call_graph build))\<^sup>+"
    using close_graph_ok [OF gc] g by (simp add: graph_ok_def)
  have self: "bit (close_graph ?gc (b_call_graph build) ! i) i \<longleftrightarrow> (?id i, ?id i) \<in> (calls slots n)\<^sup>+"
    if "i < ?gc" for i
  proof -
    have "bit (close_graph ?gc (b_call_graph build) ! i) i \<longleftrightarrow> (i, i) \<in> edges ?gc (close_graph ?gc (b_call_graph build))"
      using that by (simp add: edges_def)
    also have "\<dots> \<longleftrightarrow> (?id i, ?id i) \<in> (calls slots n)\<^sup>+"
      unfolding c using g that by (intro edges_calls [OF t]) (simp_all add: graph_ok_def)
    finally show ?thesis .
  qed
  have src: "\<exists>i<?gc. ?id i = x" if cyc: "(x, x) \<in> (calls slots n)\<^sup>+" for x
  proof -
    obtain y where "(x, y) \<in> calls slots n" using cyc by (meson tranclD)
    then obtain j where "j < n" "GetGroupId (slots ! j) = x" by (auto simp: calls_def)
    then show ?thesis using t unfolding table_ok_def by metis
  qed
  have "(\<exists>i<?gc. bit (close_graph ?gc (b_call_graph build) ! i) i) \<longleftrightarrow> \<not> acyclic (calls slots n)"
    unfolding acyclic_def using self src by metis
  then show ?thesis
    unfolding ValidateGroupCallGraph_def Let_def mask_bit by auto
qed


lemma ValidateRepeatBoundaries_ok:
  assumes g: "graph_ok slots n build" and n: "n \<le> kMaxInstructions"
    and b1: "b1 = build\<lparr>b_call_graph := close_graph (b_group_count build) (b_call_graph build)\<rparr>"
  shows "if repeats_ok slots n repeats
     then \<exists>has. ValidateRepeatBoundaries slots n b1 repeats = Inr (b1\<lparr>b_has_positive_boundary := has\<rparr>)
     else ValidateRepeatBoundaries slots n b1 repeats = Inl kInvalidProgram"
proof -
  let ?gc = "b_group_count build" and ?id = "\<lambda>g. gr_id (b_groups build ! g)"
  let ?graph = "close_graph ?gc (b_call_graph build)"
  have t: "table_ok slots n (b_groups build) ?gc" and tg: "targets_ok slots n"
    using g by (simp_all add: graph_ok_def pool_ok_def)
  have gc: "?gc \<le> kMaxGroups" using table_ok_le [OF t n] .
  have c: "edges ?gc ?graph = (edges ?gc (b_call_graph build))\<^sup>+"
    using close_graph_ok [OF gc] g by (simp add: graph_ok_def)
  have reach: "(s, u) \<in> edges ?gc ?graph \<longleftrightarrow> (?id s, ?id u) \<in> (calls slots n)\<^sup>+"
    if "s < ?gc" "u < ?gc" for s u
    unfolding c using g that by (intro edges_calls [OF t]) (simp_all add: graph_ok_def)
  obtain has0 where h0: "fold (own_boundary_step slots) [0..<n] b1 = b1\<lparr>b_has_positive_boundary := has0\<rparr>"
      "length has0 = kMaxGroups" "\<And>g. g < ?gc \<Longrightarrow> has0 ! g \<longleftrightarrow> own_boundary slots n (?id g)"
    using own_boundary_ok [of slots n b1] t gc g b1 by (auto simp: graph_ok_def)
  define has where "has = boundary_passes ?graph ?gc ?gc has0"
  let ?b2 = "b1\<lparr>b_has_positive_boundary := has\<rparr>"
  have label: "\<exists>u<?gc. ?id u = h" if "own_boundary slots n h" for h
    using that t unfolding own_boundary_def table_ok_def by metis
  have has: "has ! s \<longleftrightarrow> has_boundary slots n (?id s)" if s: "s < ?gc" for s
  proof -
    have "has ! s \<longleftrightarrow> has0 ! s \<or> (\<exists>u. (s, u) \<in> edges ?gc ?graph \<and> has0 ! u)"
      unfolding has_def by (rule boundary_passes_exact [OF gc _ h0(2) s]) (simp add: c)
    also have "\<dots> \<longleftrightarrow> own_boundary slots n (?id s) \<or> (\<exists>u<?gc. (?id s, ?id u) \<in> (calls slots n)\<^sup>+ \<and> own_boundary slots n (?id u))"
      using h0(3) [OF s] h0(3) reach [OF s] by (auto simp: edges_def)
    also have "\<dots> \<longleftrightarrow> has_boundary slots n (?id s)"
      unfolding has_boundary_def rtrancl_eq_or_trancl using label by metis
    finally show ?thesis .
  qed
  have viol: "repeat_violation slots ?b2 i \<longleftrightarrow> IsRunGroup (slots ! i) \<and> GetAdditionalRepeats (slots ! i) \<noteq> 0
      \<and> \<not> has_boundary slots n (GetTargetGroupId (slots ! i))" if i: "i < n" for i
  proof (cases "IsRunGroup (slots ! i)")
    case True
    then obtain j where j: "j < n" "GetGroupId (slots ! j) = GetTargetGroupId (slots ! i)"
      using tg i by (auto simp: targets_ok_def)
    obtain u where u: "u < ?gc" "?id u = GetTargetGroupId (slots ! i)"
      "FindGroup (b_groups build) ?gc (GetTargetGroupId (slots ! i)) = u"
      using table_owner [OF t j(1)] j(2) by metis
    then show ?thesis using has [OF u(1)] gc by (simp add: repeat_violation_def b1 Let_def)
  qed (simp add: repeat_violation_def)
  have root: "has ! 0 \<longleftrightarrow> has_boundary slots n 0"
    using has [of 0] t by (simp add: table_ok_def)
  have "ValidateRepeatBoundaries slots n b1 repeats =
      (if \<exists>i\<in>set [0..<n]. repeat_violation slots ?b2 i then Inl kInvalidProgram
       else if repeats \<noteq> 0 \<and> \<not> has ! 0 then Inl kInvalidProgram else Inr ?b2)"
    unfolding ValidateRepeatBoundaries_def h0(1) Let_def has_def by (simp add: b1)
  then show ?thesis
    unfolding repeats_ok_def using viol root by auto
qed

text \<open>
  The whole preflight succeeds on valid programs and reports kInvalidProgram on all others; the
  capacity errors of its loops cannot occur.
\<close>

lemma build_and_validate_ok:
  assumes n: "n \<le> kMaxInstructions"
  shows "if valid_program slots n repeats
     then \<exists>build. build_and_validate slots n repeats = Inr build
       \<and> pool_ok slots n (b_groups build) (b_group_count build) (b_instruction_indices build)
     else build_and_validate slots n repeats = Inl kInvalidProgram"
proof -
  obtain groups gc where b1: "BuildGroupTable slots n GroupBuildState_init
      = Inr (GroupBuildState_init\<lparr>b_groups := groups, b_group_count := gc\<rparr>)" and t: "table_ok slots n groups gc"
    using BuildGroupTable_ok [OF n] by blast
  let ?b1 = "GroupBuildState_init\<lparr>b_groups := groups, b_group_count := gc\<rparr>"
  obtain groups2 ps xs where b2: "BuildGroupIndexPool slots n ?b1
      = Inr (?b1\<lparr>b_groups := groups2, b_index_write_positions := ps, b_instruction_indices := xs\<rparr>)"
    and p: "pool_ok slots n groups2 gc xs"
    using BuildGroupIndexPool_ok [of slots n ?b1] t n by (auto simp: GroupBuildState_init_def)
  let ?b2 = "?b1\<lparr>b_groups := groups2, b_index_write_positions := ps, b_instruction_indices := xs\<rparr>"
  have t2: "table_ok slots n (b_groups ?b2) (b_group_count ?b2)" using p by (simp add: pool_ok_def)
  have gc: "b_group_count ?b2 \<le> kMaxGroups" using table_ok_le [OF t2 n] .
  have zero: "b_call_graph ?b2 = replicate kMaxGroups 0" by (simp add: GroupBuildState_init_def)
  note cg = BuildGroupCallGraph_ok [OF t2 gc zero]
  show ?thesis
  proof (cases "targets_ok slots n")
    case False
    then show ?thesis using cg(2) by (simp add: build_and_validate_def b1 b2 valid_program_def)
  next
    case True
    then obtain graph where b3: "BuildGroupCallGraph slots n ?b2 = Inr (?b2\<lparr>b_call_graph := graph\<rparr>)"
      and m: "masks_ok gc graph"
      and e: "\<forall>s<gc. \<forall>u<gc. bit (graph ! s) u \<longleftrightarrow> (gr_id (groups2 ! s), gr_id (groups2 ! u)) \<in> calls slots n"
      using cg(1) by auto
    let ?b3 = "?b2\<lparr>b_call_graph := graph\<rparr>"
    let ?b4 = "?b3\<lparr>b_call_graph := close_graph (b_group_count ?b3) (b_call_graph ?b3)\<rparr>"
    have g: "graph_ok slots n ?b3"
      using p True m e by (simp add: graph_ok_def GroupBuildState_init_def)
    have v: "ValidateGroupCallGraph ?b3 = (if acyclic (calls slots n) then Inr ?b4 else Inl kInvalidProgram)"
      by (rule ValidateGroupCallGraph_ok [OF g n])
    have r: "if repeats_ok slots n repeats
       then \<exists>has. ValidateRepeatBoundaries slots n ?b4 repeats = Inr (?b4\<lparr>b_has_positive_boundary := has\<rparr>)
       else ValidateRepeatBoundaries slots n ?b4 repeats = Inl kInvalidProgram"
      by (rule ValidateRepeatBoundaries_ok [OF g n refl])
    have all: "build_and_validate slots n repeats = (if acyclic (calls slots n)
        then ValidateRepeatBoundaries slots n ?b4 repeats else Inl kInvalidProgram)"
      unfolding build_and_validate_def b1 sum.case b2 b3 v by simp
    show ?thesis
    proof (cases "acyclic (calls slots n) \<and> repeats_ok slots n repeats")
      case False
      then show ?thesis using r by (auto simp: all valid_program_def)
    next
      case ok: True
      then obtain has where "ValidateRepeatBoundaries slots n ?b4 repeats = Inr (?b4\<lparr>b_has_positive_boundary := has\<rparr>)"
        using r by auto
      then show ?thesis using ok True p by (simp add: all valid_program_def)
    qed
  qed
qed


section \<open>Properties\<close>

text \<open>
  C12. Start accepts exactly the valid programs: for every retained program of at most 28
  instructions the preflight succeeds if and only if each RunGroup names an existing non-root
  group, the call relation between groups has no cycle, and every repeated group, the root
  included, reaches a positive boundary; in every other case it reports kInvalidProgram and never
  runs out of group or index capacity.
\<close>

theorem preflight_accepts_exactly_valid:
  assumes "n \<le> kMaxInstructions"
  shows "(valid_program slots n repeats \<longleftrightarrow> (\<exists>build. build_and_validate slots n repeats = Inr build))
    \<and> (\<not> valid_program slots n repeats \<longleftrightarrow> build_and_validate slots n repeats = Inl kInvalidProgram)"
  using build_and_validate_ok [OF assms, of slots repeats] by (auto split: if_splits)

lemma valid_program_no_calls:
  assumes "\<forall>i<n. \<not> IsRunGroup (slots ! i)"
  shows "valid_program slots n 0"
proof -
  have "calls slots n = {}" using assms by (auto simp: calls_def)
  then show ?thesis using assms by (simp add: valid_program_def targets_ok_def repeats_ok_def acyclic_def)
qed

theorem preflight_accepts_exactly_valid_witness:
  "build_and_validate [Some (instr 0 0 (RunGroup 0 0))] 1 0 = Inl kInvalidProgram
   \<and> (\<exists>build. build_and_validate [Some (instr 5 0 (SetSingleColor (rgb 1 2 3) 0))] 1 3 = Inr build)"
proof -
  have "\<not> valid_program [Some (instr 0 0 (RunGroup 0 0))] 1 0"
    by (simp add: valid_program_def targets_ok_def instr_def IsRunGroup_def GetTargetGroupId_def)
  moreover have "own_boundary [Some (instr 5 0 (SetSingleColor (rgb 1 2 3) 0))] 1 0"
    by (simp add: own_boundary_def instr_def GetGroupId_def GetMark_def)
  then have "valid_program [Some (instr 5 0 (SetSingleColor (rgb 1 2 3) 0))] 1 3"
    by (auto simp: valid_program_def targets_ok_def instr_def IsRunGroup_def calls_def acyclic_def
        repeats_ok_def has_boundary_def)
  moreover have "1 \<le> kMaxInstructions" by (simp add: kMaxInstructions_def)
  ultimately show ?thesis using preflight_accepts_exactly_valid by metis
qed

text \<open>
  C23. The index pool that Start builds gives every group its own instructions and no others, in
  one contiguous range, ordered by mark with equal marks in the order they were added: the
  in-place counting and insertion sort agrees with the stable library sort.
\<close>

theorem index_pool_is_stable_sort:
  assumes "n \<le> kMaxInstructions" "build_and_validate slots n repeats = Inr build" "g < b_group_count build"
  shows "segment (gr_index_begin (b_groups build ! g)) (gr_instruction_count (b_groups build ! g))
           (b_instruction_indices build)
         = sort_key (\<lambda>i. GetMark (slots ! i))
             (filter (\<lambda>i. GetGroupId (slots ! i) = gr_id (b_groups build ! g)) [0..<n])"
  using build_and_validate_ok [OF assms(1), of slots repeats] assms(2,3)
  by (auto simp: pool_ok_def group_members_def split: if_splits)

theorem index_pool_is_stable_sort_witness:
  "\<exists>build. build_and_validate
      [Some (instr 9 0 (SetSingleColor (rgb 1 2 3) 0)), Some (instr 5 0 (SetSingleColor (rgb 1 2 3) 1))] 2 0 = Inr build
    \<and> segment (gr_index_begin (b_groups build ! 0)) (gr_instruction_count (b_groups build ! 0))
        (b_instruction_indices build) = [1, 0]"
proof -
  let ?slots = "[Some (instr 9 0 (SetSingleColor (rgb 1 2 3) 0)), Some (instr 5 0 (SetSingleColor (rgb 1 2 3) 1))]"
  have n: "2 \<le> kMaxInstructions" by (simp add: kMaxInstructions_def)
  have "valid_program ?slots 2 0"
    by (rule valid_program_no_calls) (auto simp: instr_def IsRunGroup_def less_Suc_eq numeral_2_eq_2)
  then obtain build where b: "build_and_validate ?slots 2 0 = Inr build"
    and p: "pool_ok ?slots 2 (b_groups build) (b_group_count build) (b_instruction_indices build)"
    using build_and_validate_ok [OF n, of ?slots 0] by auto
  then have "0 < b_group_count build" "gr_id (b_groups build ! 0) = 0" by (simp_all add: pool_ok_def table_ok_def)
  then show ?thesis
    using index_pool_is_stable_sort [OF n b, of 0] b
    by (simp add: instr_def GetGroupId_def GetMark_def upt_rec [of 0 2] upt_rec [of "Suc 0" 2])
qed

text \<open>
  The in-place closure of the adjacency masks computes the transitive closure of the call
  graph: afterwards one group's mask has another's bit exactly when the first can reach the second.
\<close>

theorem close_graph_is_trancl:
  assumes "gc \<le> kMaxGroups" "masks_ok gc graph" "s < gc" "t < gc"
  shows "bit (close_graph gc graph ! s) t
    \<longleftrightarrow> (s, t) \<in> {(a, b). a < gc \<and> b < gc \<and> bit (graph ! a) b}\<^sup>+"
  using close_graph_ok [OF assms(1,2)] assms(3,4) by (auto simp: edges_def)

theorem close_graph_is_trancl_witness:
  "bit (close_graph 3 ([2, 4, 0] @ replicate 26 0) ! 0) 2
    \<longleftrightarrow> (0, 2) \<in> {(a, b). a < 3 \<and> b < 3 \<and> bit (([2, 4, 0 :: u32] @ replicate 26 0) ! a) b}\<^sup>+"
proof (rule close_graph_is_trancl)
  have b: "bit (2 :: u32) t \<longleftrightarrow> t = 1" "bit (4 :: u32) t \<longleftrightarrow> t = 2" for t
    using bit_exp_iff [of 1 t, where 'a = "32 word"] bit_exp_iff [of 2 t, where 'a = "32 word"] by auto
  have "t < 3" if st: "s < 3" "bit (([2, 4, 0 :: u32] @ replicate 26 0) ! s) t" for s t
  proof -
    have rows: "([2, 4, 0 :: u32] @ replicate 26 0) ! 0 = 2" "([2, 4, 0 :: u32] @ replicate 26 0) ! 1 = 4"
      "([2, 4, 0 :: u32] @ replicate 26 0) ! 2 = 0" by simp_all
    consider "s = 0" | "s = 1" | "s = 2" using st(1) by linarith
    then show ?thesis
    proof cases
      case 1
      then show ?thesis using st(2) unfolding 1 rows b by simp
    next
      case 2
      then show ?thesis using st(2) unfolding 2 rows b by simp
    next
      case 3
      then show ?thesis using st(2) unfolding 3 rows by simp
    qed
  qed
  then show "masks_ok 3 ([2, 4, 0] @ replicate 26 0)"
    unfolding masks_ok_def by (simp add: capacity_simps)
qed (simp_all add: capacity_simps)

end
