(* ===== verification/Controller.thy ===== *)
theory Controller
  imports Preflight
begin

text \<open>
  The animation controller: controller.hpp, group_runtime.hpp and the run-time part of
  src/app/controller/controller.cpp.

  The record has the fields of the class. The first \<open>executing_count_\<close> entries of \<open>executing_\<close>
  are the list \<open>c_executing\<close>: the rest of that array is never read. The strip the pointer
  \<open>strip_\<close> refers to is \<open>c_device\<close>; \<open>c_strip\<close> tells whether the pointer is set. The timestamp
  callback is a flag and an argument, its current value; a call of the schedule callback is a
  result. Debug output is not modelled. Indexes and counts are natural numbers; timestamps, marks,
  repeat counts and labels are words that wrap as in the source.
\<close>

section \<open>Data\<close>

record GroupRuntime =
  rt_record :: GroupRecord
  rt_cursor :: nat
  rt_start_time :: u32
  rt_repeats_remaining :: LoopCount
  rt_active_count :: nat
  rt_child_count :: nat
  rt_positive_boundary_observed :: bool
  rt_parent_group_index :: nat
  rt_depth :: nat
  rt_active :: bool

definition GroupRuntime_init :: GroupRuntime where
  "GroupRuntime_init =
     \<lparr>rt_record = GroupRecord_init, rt_cursor = 0, rt_start_time = 0, rt_repeats_remaining = 0,
      rt_active_count = 0, rt_child_count = 0, rt_positive_boundary_observed = False,
      rt_parent_group_index = kMaxGroups, rt_depth = 0, rt_active = False\<rparr>"

definition GroupRuntime_Reset :: "GroupRuntime \<Rightarrow> GroupRuntime" where
  "GroupRuntime_Reset r =
     r\<lparr>rt_cursor := 0, rt_start_time := 0, rt_repeats_remaining := 0, rt_active_count := 0,
       rt_child_count := 0, rt_positive_boundary_observed := False,
       rt_parent_group_index := kMaxGroups, rt_depth := 0, rt_active := False\<rparr>"

record ExecutingInstruction =
  ex_instruction_index :: nat
  ex_runtime_index :: nat
  ex_deadline :: u32

datatype ProgramState = kEditable | kActive | kCompleted

record 'mb Controller =
  c_strip :: bool
  c_device :: "'mb StripManager"
  c_instructions :: "InstructionMemorySlot list"
  c_instruction_count :: nat
  c_executing :: "ExecutingInstruction list"
  c_show_requested :: bool
  c_get_timestamp :: bool
  c_schedule_next_run :: bool
  c_min_scheduled_timeout :: u32
  c_state :: ProgramState
  c_refresh_period_ms :: u32
  c_group_indices :: "nat list"
  c_groups :: "GroupRecord list"
  c_runtimes :: "GroupRuntime list"
  c_group_count :: nat

definition kMaxExecuting :: nat where "kMaxExecuting = kMaxInstructions"

definition Controller_init :: "'mb StripManager \<Rightarrow> 'mb Controller" where
  "Controller_init device =
     \<lparr>c_strip = False, c_device = device, c_instructions = replicate kMaxInstructions None,
      c_instruction_count = 0, c_executing = [], c_show_requested = False, c_get_timestamp = False,
      c_schedule_next_run = False, c_min_scheduled_timeout = 0, c_state = kEditable,
      c_refresh_period_ms = 20, c_group_indices = replicate kMaxInstructions 0,
      c_groups = replicate kMaxGroups GroupRecord_init,
      c_runtimes = replicate kMaxGroups GroupRuntime_init, c_group_count = 0\<rparr>"

section \<open>Configuration\<close>

definition kTimestampHalfRange :: u32 where "kTimestampHalfRange = 0x80000000"

definition DeadlineReached :: "u32 \<Rightarrow> u32 \<Rightarrow> bool" where
  "DeadlineReached timestamp deadline \<longleftrightarrow> timestamp - deadline < kTimestampHalfRange"

definition LatchRunStatus :: "ControllerStatus \<Rightarrow> ControllerStatus \<Rightarrow> ControllerStatus" where
  "LatchRunStatus run_status status =
     (if run_status = kSuccess \<and> status \<noteq> kSuccess then status else run_status)"

definition SetStrip :: "bool \<Rightarrow> 'mb Controller \<Rightarrow> 'mb Controller" where
  "SetStrip strip c = c\<lparr>c_strip := strip\<rparr>"

definition SetTimestampCallback :: "bool \<Rightarrow> 'mb Controller \<Rightarrow> 'mb Controller" where
  "SetTimestampCallback callback c = c\<lparr>c_get_timestamp := callback\<rparr>"

definition SetScheduleCallback :: "bool \<Rightarrow> 'mb Controller \<Rightarrow> 'mb Controller" where
  "SetScheduleCallback callback c = c\<lparr>c_schedule_next_run := callback\<rparr>"

definition GetTimestamp :: "u32 \<Rightarrow> 'mb Controller \<Rightarrow> u32" where
  "GetTimestamp now c = (if c_get_timestamp c then now else 0)"

definition SetRefreshPeriodMs :: "u32 \<Rightarrow> 'mb Controller \<Rightarrow> ControllerStatus \<times> 'mb Controller" where
  "SetRefreshPeriodMs period_ms c =
     (if period_ms = 0 \<or> 0x80000000 \<le> period_ms then (kInvalidArgument, c)
      else if c_state c = kActive then (kBusy, c)
      else (kSuccess, c\<lparr>c_refresh_period_ms := period_ms\<rparr>))"

definition AddInstruction :: "ControllerInstruction option \<Rightarrow> 'mb Controller \<Rightarrow> ControllerStatus \<times> 'mb Controller" where
  "AddInstruction i c =
     (if i = None then (kInvalidArgument, c)
      else if c_state c \<noteq> kEditable then (kBusy, c)
      else if kMaxInstructions \<le> c_instruction_count c then (kCapacityExhausted, c)
      else
        let slot_idx = c_instruction_count c;
            (stored, slot) = slot_Set i (c_instructions c ! slot_idx)
        in if \<not> stored then (kInvalidArgument, c\<lparr>c_instructions := (c_instructions c)[slot_idx := slot]\<rparr>)
           else (kSuccess,
                 c\<lparr>c_instructions := (c_instructions c)[slot_idx :=
                     slot_SetController True (slot_SetStrip (c_strip c) slot)],
                   c_instruction_count := c_instruction_count c + 1\<rparr>))"

definition ResetInstructions :: "'mb Controller \<Rightarrow> 'mb Controller" where
  "ResetInstructions c =
     c\<lparr>c_instructions := map slot_Clear (c_instructions c), c_instruction_count := 0,
       c_executing := [], c_state := kEditable, c_show_requested := False,
       c_min_scheduled_timeout := 0, c_group_count := 0,
       c_groups := replicate kMaxGroups GroupRecord_init,
       c_runtimes := replicate kMaxGroups GroupRuntime_init,
       c_group_indices := replicate kMaxInstructions 0\<rparr>"

section \<open>Starting a program\<close>

definition CommitGroupBuild :: "GroupBuildState \<Rightarrow> 'mb Controller \<Rightarrow> 'mb Controller" where
  "CommitGroupBuild build c =
     (let groups = map (\<lambda>i. if i < b_group_count build then b_groups build ! i else GroupRecord_init)
                     [0..<kMaxGroups]
      in c\<lparr>c_group_count := b_group_count build, c_groups := groups,
           c_runtimes := map (\<lambda>i. if i < b_group_count build
                                 then GroupRuntime_init\<lparr>rt_record := groups ! i\<rparr>
                                 else GroupRuntime_init) [0..<kMaxGroups],
           c_group_indices := b_instruction_indices build\<rparr>)"

definition BuildAndValidateGroups :: "LoopCount \<Rightarrow> 'mb Controller \<Rightarrow> ControllerStatus \<times> 'mb Controller" where
  "BuildAndValidateGroups root_additional_repeats c =
     (case build_and_validate (c_instructions c) (c_instruction_count c) root_additional_repeats of
        Inl status \<Rightarrow> (status, c)
      | Inr build \<Rightarrow> (kSuccess, CommitGroupBuild build c))"

definition upd_runtime :: "nat \<Rightarrow> (GroupRuntime \<Rightarrow> GroupRuntime) \<Rightarrow> 'mb Controller \<Rightarrow> 'mb Controller" where
  "upd_runtime i f c = c\<lparr>c_runtimes := (c_runtimes c)[i := f (c_runtimes c ! i)]\<rparr>"

definition ResetGroupInstructionReplayState :: "nat \<Rightarrow> 'mb Controller \<Rightarrow> 'mb Controller" where
  "ResetGroupInstructionReplayState runtime_index c =
     (let record = rt_record (c_runtimes c ! runtime_index)
      in c\<lparr>c_instructions :=
           fold (\<lambda>i slots. slots[c_group_indices c ! (gr_index_begin record + i) :=
                   slot_ResetForReplay (slots ! (c_group_indices c ! (gr_index_begin record + i)))])
             [0..<gr_instruction_count record] (c_instructions c)\<rparr>)"

definition StartGroupRuntime :: "nat \<Rightarrow> u32 \<Rightarrow> LoopCount \<Rightarrow> nat \<Rightarrow> 'mb Controller \<Rightarrow> bool \<times> 'mb Controller" where
  "StartGroupRuntime group_index timestamp additional_repeats parent_group_index c =
     (if c_group_count c \<le> group_index \<or>
         (parent_group_index \<noteq> kMaxGroups \<and>
          (c_group_count c \<le> parent_group_index \<or> \<not> rt_active (c_runtimes c ! parent_group_index)))
      then (False, c)
      else
        let c1 = upd_runtime group_index (\<lambda>r. (GroupRuntime_Reset r)\<lparr>rt_start_time := timestamp,
                   rt_repeats_remaining := additional_repeats,
                   rt_parent_group_index := parent_group_index\<rparr>) c;
            depth = (if parent_group_index = kMaxGroups then 0
                     else (rt_depth (c_runtimes c1 ! parent_group_index) + 1) mod 256);
            c2 = upd_runtime group_index (\<lambda>r. r\<lparr>rt_depth := depth, rt_active := True\<rparr>) c1
        in (True, ResetGroupInstructionReplayState group_index c2))"

definition Start :: "u32 \<Rightarrow> LoopCount \<Rightarrow> 'mb Controller \<Rightarrow> ControllerStatus \<times> 'mb Controller" where
  "Start now root_additional_repeats c =
     (if c_state c = kActive then (kBusy, c)
      else case BuildAndValidateGroups root_additional_repeats c of (status, c1) \<Rightarrow>
        if status \<noteq> kSuccess then (status, c1)
        else
          let c2 = c1\<lparr>c_executing := [], c_show_requested := False, c_min_scheduled_timeout := 0\<rparr>;
              root_index = FindGroup (c_groups c2) (c_group_count c2) 0
          in if root_index = kMaxGroups then (kInvalidProgram, c2)
             else
               let timestamp = GetTimestamp now c2
               in if gr_instruction_count (c_groups c2 ! root_index) = 0
                  then (kSuccess, (upd_runtime root_index GroupRuntime_Reset c2)\<lparr>c_state := kCompleted\<rparr>)
                  else case StartGroupRuntime root_index timestamp root_additional_repeats kMaxGroups c2 of
                         (started, c3) \<Rightarrow>
                           if \<not> started then (kInvalidProgram, c3) else (kSuccess, c3\<lparr>c_state := kActive\<rparr>))"

section \<open>Progress\<close>

text \<open>The loop of ObservePositiveBoundary; the first argument is the number of rounds left.\<close>

fun observe_loop :: "nat \<Rightarrow> nat \<Rightarrow> 'mb Controller \<Rightarrow> 'mb Controller" where
  "observe_loop 0 runtime_index c = c"
| "observe_loop (Suc rounds) runtime_index c =
     (if runtime_index < c_group_count c then
        if \<not> rt_active (c_runtimes c ! runtime_index) then c
        else observe_loop rounds (rt_parent_group_index (c_runtimes c ! runtime_index))
               (upd_runtime runtime_index (\<lambda>r. r\<lparr>rt_positive_boundary_observed := True\<rparr>) c)
      else c)"

definition ObservePositiveBoundary :: "nat \<Rightarrow> 'mb Controller \<Rightarrow> 'mb Controller" where
  "ObservePositiveBoundary runtime_index c = observe_loop (c_group_count c) runtime_index c"

text \<open>What an instruction asks of its controller.\<close>

definition RefreshPeriodMs :: "'mb Controller \<Rightarrow> u32" where
  "RefreshPeriodMs c = c_refresh_period_ms c"

definition RequestShow :: "'mb Controller \<Rightarrow> 'mb Controller" where
  "RequestShow c = c\<lparr>c_show_requested := True\<rparr>"

text \<open>
  Executing a slot: the instruction may stage pixels on the strip and request a Show. It returns its
  wish here, and is given the refresh period.
\<close>

definition execute_slot :: "u32 \<Rightarrow> nat \<Rightarrow> 'mb Controller \<Rightarrow> u32 \<times> 'mb Controller" where
  "execute_slot timestamp idx c =
     (case slot_Execute (c_refresh_period_ms c) timestamp (c_instructions c ! idx) (c_device c) of
        (delay, show, slot, device) \<Rightarrow>
          (delay, c\<lparr>c_instructions := (c_instructions c)[idx := slot], c_device := device,
                    c_show_requested := (c_show_requested c \<or> show)\<rparr>))"

lemma execute_slot_requests:
  "execute_slot timestamp idx c =
     (case slot_Execute (RefreshPeriodMs c) timestamp (c_instructions c ! idx) (c_device c) of
        (delay, show, slot, device) \<Rightarrow>
          (delay, (if show then RequestShow c else c)\<lparr>c_instructions := (c_instructions c)[idx := slot], c_device := device\<rparr>))"
  by (simp add: execute_slot_def RefreshPeriodMs_def RequestShow_def split: prod.split)

definition swap_remove :: "nat \<Rightarrow> 'a list \<Rightarrow> 'a list" where
  "swap_remove i xs = butlast (xs[i := last xs])"

text \<open>
  One round of DrainExecuting at position \<open>i\<close>: the next position, whether it counts as progress,
  the latched status and the controller.
\<close>

definition drain_one :: "u32 \<Rightarrow> nat \<Rightarrow> ControllerStatus \<Rightarrow> 'mb Controller \<Rightarrow> nat \<times> bool \<times> ControllerStatus \<times> 'mb Controller" where
  "drain_one timestamp i run_status c =
     (let e = c_executing c ! i
      in if c_instruction_count c \<le> ex_instruction_index e \<or> c_group_count c \<le> ex_runtime_index e \<or>
            \<not> rt_active (c_runtimes c ! ex_runtime_index e)
         then (i, True, LatchRunStatus run_status kInvalidProgram,
               c\<lparr>c_executing := swap_remove i (c_executing c)\<rparr>)
         else if \<not> DeadlineReached timestamp (ex_deadline e) then (i + 1, False, run_status, c)
         else case execute_slot timestamp (ex_instruction_index e)
                     (ObservePositiveBoundary (ex_runtime_index e) c) of (delay, c1) \<Rightarrow>
           if delay \<noteq> 0
           then (i + 1, True, run_status,
                 c1\<lparr>c_executing := (c_executing c1)[i := e\<lparr>ex_deadline := timestamp + delay\<rparr>]\<rparr>)
           else
             let empty = (rt_active_count (c_runtimes c1 ! ex_runtime_index e) = 0);
                 status = (if empty then LatchRunStatus run_status kInvalidProgram else run_status);
                 c2 = (if empty then c1
                       else upd_runtime (ex_runtime_index e)
                              (\<lambda>r. r\<lparr>rt_active_count := rt_active_count r - 1\<rparr>) c1)
             in (i, True, status, c2\<lparr>c_executing := swap_remove i (c_executing c2)\<rparr>))"

lemma c_executing_upd_runtime [simp]: "c_executing (upd_runtime i f c) = c_executing c"
  by (simp add: upd_runtime_def)

lemma c_executing_observe [simp]: "c_executing (ObservePositiveBoundary r c) = c_executing c"
proof -
  have "c_executing (observe_loop n r c) = c_executing c" for n
    by (induction n arbitrary: r c) auto
  then show ?thesis by (simp add: ObservePositiveBoundary_def)
qed

lemma c_executing_execute_slot: "execute_slot ts idx c = (delay, c1) \<Longrightarrow> c_executing c1 = c_executing c"
  by (auto simp: execute_slot_def split: prod.splits)

lemma length_swap_remove [simp]: "length (swap_remove i xs) = length xs - 1"
  by (simp add: swap_remove_def)

lemma drain_one_measure:
  assumes "drain_one ts i st c = (i', p, st', c')" "i < length (c_executing c)"
  shows "length (c_executing c') - i' < length (c_executing c) - i"
  using assms c_executing_execute_slot
  by (fastforce simp: drain_one_def Let_def split: if_splits prod.splits)

function drain_loop :: "u32 \<Rightarrow> nat \<Rightarrow> bool \<Rightarrow> ControllerStatus \<Rightarrow> 'mb Controller \<Rightarrow> bool \<times> ControllerStatus \<times> 'mb Controller" where
  "drain_loop timestamp i progressed run_status c =
     (if i < length (c_executing c)
      then case drain_one timestamp i run_status c of
             (i1, p, st1, c1) \<Rightarrow> drain_loop timestamp i1 (progressed \<or> p) st1 c1
      else (progressed, run_status, c))"
  by pat_completeness auto

termination
  by (relation "measure (\<lambda>(ts, i, p, st, c). length (c_executing c) - i)")
     (auto dest: drain_one_measure [OF sym])

declare drain_loop.simps [simp del]

definition DrainExecuting :: "u32 \<Rightarrow> ControllerStatus \<Rightarrow> 'mb Controller \<Rightarrow> bool \<times> ControllerStatus \<times> 'mb Controller" where
  "DrainExecuting timestamp run_status c = drain_loop timestamp 0 False run_status c"

text \<open>One round of CompleteReadyGroups.\<close>

definition complete_one :: "u32 \<Rightarrow> nat \<Rightarrow> bool \<times> ControllerStatus \<times> 'mb Controller \<Rightarrow> bool \<times> ControllerStatus \<times> 'mb Controller" where
  "complete_one timestamp i st =
     (case st of (progressed, run_status, c) \<Rightarrow>
        let runtime = c_runtimes c ! i
        in if \<not> rt_active runtime \<or> rt_cursor runtime < gr_instruction_count (rt_record runtime) \<or>
              rt_active_count runtime \<noteq> 0 \<or> rt_child_count runtime \<noteq> 0
           then (progressed, run_status, c)
           else
             let repeats_remaining = rt_repeats_remaining runtime;
                 parent = rt_parent_group_index runtime
             in if repeats_remaining \<noteq> 0 \<and> rt_positive_boundary_observed runtime
                then
                  let next_repeats = (if repeats_remaining = kForeverLoopCount then kForeverLoopCount
                                      else repeats_remaining - 1)
                  in case StartGroupRuntime i timestamp next_repeats parent c of (started, c1) \<Rightarrow>
                       if \<not> started
                       then (True, LatchRunStatus run_status kInvalidProgram, upd_runtime i GroupRuntime_Reset c1)
                       else (True, run_status, c1)
                else
                  let status = (if repeats_remaining \<noteq> 0 then LatchRunStatus run_status kInvalidProgram
                                else run_status);
                      c1 = upd_runtime i GroupRuntime_Reset c
                  in if i = 0 then (True, status, c1\<lparr>c_state := kCompleted\<rparr>)
                     else if c_group_count c1 \<le> parent \<or> \<not> rt_active (c_runtimes c1 ! parent) \<or>
                             rt_child_count (c_runtimes c1 ! parent) = 0
                     then (True, LatchRunStatus status kInvalidProgram, c1)
                     else (True, status,
                           upd_runtime parent (\<lambda>r. r\<lparr>rt_child_count := rt_child_count r - 1\<rparr>) c1))"

definition CompleteReadyGroups :: "u32 \<Rightarrow> ControllerStatus \<Rightarrow> 'mb Controller \<Rightarrow> bool \<times> ControllerStatus \<times> 'mb Controller" where
  "CompleteReadyGroups timestamp run_status c =
     fold (complete_one timestamp) [0..<c_group_count c] (False, run_status, c)"

definition DispatchDueInstruction ::
  "nat \<Rightarrow> nat \<Rightarrow> u32 \<Rightarrow> ControllerStatus \<Rightarrow> 'mb Controller \<Rightarrow> bool \<times> ControllerStatus \<times> 'mb Controller" where
  "DispatchDueInstruction runtime_index slot_index timestamp run_status c =
     (if IsRunGroup (c_instructions c ! slot_index)
      then
        let target_id = GetTargetGroupId (c_instructions c ! slot_index);
            target_index = FindGroup (c_groups c) (c_group_count c) target_id
        in if target_index = kMaxGroups \<or> target_index = 0
           then (False, LatchRunStatus run_status kInvalidProgram, c)
           else if rt_active (c_runtimes c ! target_index)
           then (False, LatchRunStatus run_status kAlreadyActiveGroup, c)
           else case StartGroupRuntime target_index timestamp
                       (GetAdditionalRepeats (c_instructions c ! slot_index)) runtime_index c of
                  (started, c1) \<Rightarrow>
                    if \<not> started then (False, LatchRunStatus run_status kInvalidProgram, c1)
                    else (True, run_status,
                          upd_runtime runtime_index (\<lambda>r. r\<lparr>rt_child_count := rt_child_count r + 1\<rparr>) c1)
      else case execute_slot timestamp slot_index c of (delay, c1) \<Rightarrow>
        if delay = 0 then (False, run_status, c1)
        else if kMaxExecuting \<le> length (c_executing c1)
        then (False, LatchRunStatus run_status kCapacityExhausted, c1)
        else (False, run_status,
              upd_runtime runtime_index (\<lambda>r. r\<lparr>rt_active_count := rt_active_count r + 1\<rparr>)
                (c1\<lparr>c_executing := c_executing c1 @
                   [\<lparr>ex_instruction_index = slot_index, ex_runtime_index = runtime_index,
                     ex_deadline = timestamp + delay\<rparr>]\<rparr>)))"

text \<open>Observing a boundary changes nothing but the flags of the runtimes.\<close>

definition flag_eq :: "GroupRuntime list \<Rightarrow> GroupRuntime list \<Rightarrow> bool" where
  "flag_eq rts rts' \<longleftrightarrow> length rts' = length rts \<and>
     (\<forall>g < length rts. \<exists>b. rts' ! g = (rts ! g)\<lparr>rt_positive_boundary_observed := b\<rparr>)"

lemma same_flag: "\<exists>b. r = r\<lparr>rt_positive_boundary_observed := b\<rparr>"
  by (cases r) simp

lemma flag_eq_refl [simp]: "flag_eq rts rts"
  by (simp add: flag_eq_def same_flag)

lemma flag_eq_trans: "flag_eq a b \<Longrightarrow> flag_eq b c \<Longrightarrow> flag_eq a c"
  unfolding flag_eq_def by (fastforce dest: spec)

lemma flag_eq_upd: "flag_eq rts (rts[i := (rts ! i)\<lparr>rt_positive_boundary_observed := b\<rparr>])"
  by (cases "i < length rts") (auto simp: flag_eq_def nth_list_update same_flag)

lemma observe_flags: "flag_eq (c_runtimes c) (c_runtimes (ObservePositiveBoundary r c))"
proof -
  have "flag_eq (c_runtimes c) (c_runtimes (observe_loop n r c))" for n
  proof (induction n arbitrary: r c)
    case (Suc n)
    let ?c = "upd_runtime r (\<lambda>r. r\<lparr>rt_positive_boundary_observed := True\<rparr>) c"
    have "flag_eq (c_runtimes c) (c_runtimes ?c)" by (simp add: upd_runtime_def flag_eq_upd)
    then show ?case using flag_eq_trans [OF _ Suc] by auto
  qed simp
  then show ?thesis by (simp add: ObservePositiveBoundary_def)
qed

lemma flag_eq_fields:
  assumes "flag_eq rts rts'" "g < length rts"
  shows "rt_record (rts' ! g) = rt_record (rts ! g)" "rt_cursor (rts' ! g) = rt_cursor (rts ! g)"
    "rt_start_time (rts' ! g) = rt_start_time (rts ! g)"
    "rt_repeats_remaining (rts' ! g) = rt_repeats_remaining (rts ! g)"
    "rt_active_count (rts' ! g) = rt_active_count (rts ! g)"
    "rt_child_count (rts' ! g) = rt_child_count (rts ! g)"
    "rt_parent_group_index (rts' ! g) = rt_parent_group_index (rts ! g)"
    "rt_depth (rts' ! g) = rt_depth (rts ! g)" "rt_active (rts' ! g) = rt_active (rts ! g)"
proof -
  obtain b where "rts' ! g = (rts ! g)\<lparr>rt_positive_boundary_observed := b\<rparr>"
    using assms unfolding flag_eq_def by blast
  then show "rt_record (rts' ! g) = rt_record (rts ! g)" "rt_cursor (rts' ! g) = rt_cursor (rts ! g)"
    "rt_start_time (rts' ! g) = rt_start_time (rts ! g)"
    "rt_repeats_remaining (rts' ! g) = rt_repeats_remaining (rts ! g)"
    "rt_active_count (rts' ! g) = rt_active_count (rts ! g)"
    "rt_child_count (rts' ! g) = rt_child_count (rts ! g)"
    "rt_parent_group_index (rts' ! g) = rt_parent_group_index (rts ! g)"
    "rt_depth (rts' ! g) = rt_depth (rts ! g)" "rt_active (rts' ! g) = rt_active (rts ! g)"
    by simp_all
qed

lemma execute_slot_runtimes: "execute_slot ts idx c = (delay, c1) \<Longrightarrow> c_runtimes c1 = c_runtimes c"
  by (auto simp: execute_slot_def split: prod.splits)

lemma Dispatch_False_runtimes:
  assumes "DispatchDueInstruction ri si ts st c = (False, st', c')"
  shows "length (c_runtimes c') = length (c_runtimes c)
    \<and> (\<forall>g < length (c_runtimes c). rt_cursor (c_runtimes c' ! g) = rt_cursor (c_runtimes c ! g)
        \<and> rt_record (c_runtimes c' ! g) = rt_record (c_runtimes c ! g))"
proof -
  obtain delay c1 where e: "execute_slot ts si c = (delay, c1)" by (metis prod.exhaust)
  then have "c_runtimes c1 = c_runtimes c" by (rule execute_slot_runtimes)
  with assms e show ?thesis
    by (cases "ri < length (c_runtimes c)")
       (auto simp: DispatchDueInstruction_def StartGroupRuntime_def Let_def upd_runtime_def nth_list_update
        split: if_splits)
qed

text \<open>
  The instruction at the cursor of a runtime, and the loop that executes its due instructions:
  whether a child was started, whether progress was made, the latched status and the controller.
  The bound on the runtime index is the size of the array.
\<close>

definition cursor_slot :: "nat \<Rightarrow> 'mb Controller \<Rightarrow> nat" where
  "cursor_slot runtime_index c =
     c_group_indices c ! (gr_index_begin (rt_record (c_runtimes c ! runtime_index))
                          + rt_cursor (c_runtimes c ! runtime_index))"

definition advance_cursor :: "nat \<Rightarrow> 'mb Controller \<Rightarrow> 'mb Controller" where
  "advance_cursor runtime_index c =
     upd_runtime runtime_index (\<lambda>r. r\<lparr>rt_cursor := rt_cursor r + 1\<rparr>)
       (if 0 < GetMark (c_instructions c ! cursor_slot runtime_index c)
        then ObservePositiveBoundary runtime_index c else c)"

lemma advance_cursor_fields:
  assumes "ri < length (c_runtimes c)"
  shows "length (c_runtimes (advance_cursor ri c)) = length (c_runtimes c)"
    "rt_cursor (c_runtimes (advance_cursor ri c) ! ri) = rt_cursor (c_runtimes c ! ri) + 1"
    "rt_record (c_runtimes (advance_cursor ri c) ! ri) = rt_record (c_runtimes c ! ri)"
  using assms observe_flags [of c ri] flag_eq_fields [OF observe_flags [of c ri] assms]
  by (auto simp: advance_cursor_def upd_runtime_def flag_eq_def)

function pick_runtime ::
  "u32 \<Rightarrow> nat \<Rightarrow> u32 \<Rightarrow> bool \<Rightarrow> ControllerStatus \<Rightarrow> 'mb Controller \<Rightarrow> bool \<times> bool \<times> ControllerStatus \<times> 'mb Controller" where
  "pick_runtime timestamp ri elapsed progressed run_status c =
     (if ri < length (c_runtimes c) \<and>
         rt_cursor (c_runtimes c ! ri) < gr_instruction_count (rt_record (c_runtimes c ! ri))
      then
        if elapsed < ucast (GetMark (c_instructions c ! cursor_slot ri c))
        then (False, progressed, run_status, c)
        else case DispatchDueInstruction ri (cursor_slot ri c) timestamp run_status (advance_cursor ri c) of
               (started, st1, c1) \<Rightarrow>
                 if started then (True, True, st1, c1)
                 else pick_runtime timestamp ri elapsed True st1 c1
      else (False, progressed, run_status, c))"
  by pat_completeness auto

termination
proof (relation "measure (\<lambda>(ts, ri, el, p, st, c).
    gr_instruction_count (rt_record (c_runtimes c ! ri)) - rt_cursor (c_runtimes c ! ri))", goal_cases)
  case (2 timestamp ri elapsed progressed run_status c started y st1 c1)
  then have d: "DispatchDueInstruction ri (cursor_slot ri c) timestamp run_status (advance_cursor ri c) = (False, st1, c1)"
    by simp
  have ri: "ri < length (c_runtimes c)"
    and room: "rt_cursor (c_runtimes c ! ri) < gr_instruction_count (rt_record (c_runtimes c ! ri))"
    using 2(1) by simp_all
  have "rt_cursor (c_runtimes c1 ! ri) = rt_cursor (c_runtimes c ! ri) + 1"
      "rt_record (c_runtimes c1 ! ri) = rt_record (c_runtimes c ! ri)"
    using Dispatch_False_runtimes [OF d] advance_cursor_fields [OF ri] ri by simp_all
  then show ?case using room by simp
qed simp

declare pick_runtime.simps [simp del]

fun pick_scan :: "u32 \<Rightarrow> (nat \<times> nat) list \<Rightarrow> bool \<Rightarrow> ControllerStatus \<Rightarrow> 'mb Controller \<Rightarrow> bool \<times> ControllerStatus \<times> 'mb Controller" where
  "pick_scan timestamp [] progressed run_status c = (progressed, run_status, c)"
| "pick_scan timestamp ((target_depth, ri) # rest) progressed run_status c =
     (if \<not> rt_active (c_runtimes c ! ri) \<or> rt_depth (c_runtimes c ! ri) \<noteq> target_depth
      then pick_scan timestamp rest progressed run_status c
      else case pick_runtime timestamp ri (timestamp - rt_start_time (c_runtimes c ! ri)) progressed run_status c of
             (started, p1, st1, c1) \<Rightarrow>
               if started then (True, st1, c1) else pick_scan timestamp rest p1 st1 c1)"

definition PickDueInstructions :: "u32 \<Rightarrow> ControllerStatus \<Rightarrow> 'mb Controller \<Rightarrow> bool \<times> ControllerStatus \<times> 'mb Controller" where
  "PickDueInstructions timestamp run_status c =
     pick_scan timestamp (List.product (rev [0..<c_group_count c]) [0..<c_group_count c]) False run_status c"

section \<open>Scheduling and the progress tick\<close>

definition ScheduleTimeout :: "u32 \<Rightarrow> u32 \<Rightarrow> u32" where
  "ScheduleTimeout ms min_scheduled_timeout =
     (if min_scheduled_timeout = 0 \<or> ms < min_scheduled_timeout then ms else min_scheduled_timeout)"

definition schedule_executing :: "u32 \<Rightarrow> ExecutingInstruction \<Rightarrow> u32 \<Rightarrow> u32" where
  "schedule_executing timestamp e m =
     (if \<not> DeadlineReached timestamp (ex_deadline e)
      then ScheduleTimeout (ex_deadline e - timestamp) m else m)"

definition schedule_group :: "u32 \<Rightarrow> 'mb Controller \<Rightarrow> nat \<Rightarrow> u32 \<Rightarrow> u32" where
  "schedule_group timestamp c i m =
     (let runtime = c_runtimes c ! i
      in if \<not> rt_active runtime \<or> gr_instruction_count (rt_record runtime) \<le> rt_cursor runtime then m
         else
           let elapsed = timestamp - rt_start_time runtime;
               next_mark = (ucast (GetMark (c_instructions c ! cursor_slot i c)) :: u32)
           in if elapsed < next_mark then ScheduleTimeout (next_mark - elapsed) m else m)"

text \<open>The result is the delay given to the schedule callback, if it is called.\<close>

definition ScheduleNextRun :: "u32 \<Rightarrow> 'mb Controller \<Rightarrow> u32 option \<times> 'mb Controller" where
  "ScheduleNextRun timestamp c =
     (let m1 = fold (schedule_executing timestamp) (c_executing c) (c_min_scheduled_timeout c);
          m2 = fold (schedule_group timestamp c) [0..<c_group_count c] m1
      in (if 0 < m2 \<and> c_schedule_next_run c then Some m2 else None,
          c\<lparr>c_min_scheduled_timeout := m2\<rparr>))"

definition progress_round :: "u32 \<Rightarrow> ControllerStatus \<Rightarrow> 'mb Controller \<Rightarrow> bool \<times> ControllerStatus \<times> 'mb Controller" where
  "progress_round timestamp run_status c =
     (case DrainExecuting timestamp run_status c of (p1, st1, c1) \<Rightarrow>
      case CompleteReadyGroups timestamp st1 c1 of (p2, st2, c2) \<Rightarrow>
      case PickDueInstructions timestamp st2 c2 of (p3, st3, c3) \<Rightarrow> (p3 \<or> p2 \<or> p1, st3, c3))"

text \<open>The do-while loop of Run: None would be a loop that never ends.\<close>

partial_function (option) run_loop ::
  "u32 \<Rightarrow> ControllerStatus \<Rightarrow> 'mb Controller \<Rightarrow> (ControllerStatus \<times> 'mb Controller) option" where
  "run_loop timestamp run_status c =
     (case progress_round timestamp run_status c of (progressed, st1, c1) \<Rightarrow>
        if progressed then run_loop timestamp st1 c1 else Some (st1, c1))"

declare run_loop.simps [code]

text \<open>
  Run: the status, the delay given to the schedule callback, whether the strip was shown, and the
  controller.
\<close>

definition Run ::
  "('mb \<Rightarrow> SharedFrame \<Rightarrow> status \<times> 'mb) \<Rightarrow> u32 \<Rightarrow> 'mb Controller
     \<Rightarrow> (ControllerStatus \<times> u32 option \<times> bool \<times> 'mb Controller) option" where
  "Run send now c =
     (if c_state c \<noteq> kActive then Some (kSuccess, None, False, c)
      else
        let timestamp = GetTimestamp now c;
            c1 = c\<lparr>c_show_requested := False, c_min_scheduled_timeout := 0\<rparr>
        in case run_loop timestamp kSuccess c1 of
             None \<Rightarrow> None
           | Some (run_status, c2) \<Rightarrow>
               (case ScheduleNextRun timestamp c2 of (scheduled, c3) \<Rightarrow>
                  if c_show_requested c3 \<and> c_strip c3
                  then Some (run_status, scheduled, True, c3\<lparr>c_device := snd (Show send (c_device c3))\<rparr>)
                  else Some (run_status, scheduled, False, c3)))"

end
