(* ===== verification/ControllerInv.thy ===== *)
theory ControllerInv
  imports Controller
begin

text \<open>
  The run-time invariant of the controller, and the pieces of progress a tick is made of: resuming an
  executing instruction, completing or repeating a group, consuming a due instruction. Each keeps the
  invariant, never runs out of capacity and descends a well-founded order; \<open>Ticks\<close> makes the loops of
  the tick out of them.
\<close>

section \<open>What the progress operations leave alone\<close>

definition program ::
  "'mb Controller \<Rightarrow> InstructionMemorySlot list \<times> nat \<times> GroupRecord list \<times> nat list \<times> nat \<times> u32 \<times> bool \<times> bool \<times> bool" where
  "program c = (map slot_ResetForReplay (c_instructions c), c_instruction_count c, c_groups c,
     c_group_indices c, c_group_count c, c_refresh_period_ms c, c_strip c, c_get_timestamp c,
     c_schedule_next_run c)"

text \<open>What staging leaves alone of the strip: the mailbox and the configuration.\<close>

definition link :: "'mb StripManager \<Rightarrow> 'mb \<times> bool \<times> nat" where
  "link s = (strip_mailbox s, strip_ready s, strip_led_count s)"

definition static where
  "static c = (program c, c_min_scheduled_timeout c, link (c_device c))"

lemma static_updates [simp]:
  "static (c\<lparr>c_executing := x\<rparr>) = static c" "static (c\<lparr>c_state := s\<rparr>) = static c"
  "static (c\<lparr>c_show_requested := b\<rparr>) = static c"
  "program (c\<lparr>c_min_scheduled_timeout := m\<rparr>) = program c"
  "program (c\<lparr>c_show_requested := b\<rparr>) = program c" "program (c\<lparr>c_device := d\<rparr>) = program c"
  by (simp_all add: static_def program_def)

lemma static_upd_runtime [simp]: "static (upd_runtime i f c) = static c"
  and state_upd_runtime [simp]: "c_state (upd_runtime i f c) = c_state c"
  and device_upd_runtime [simp]: "c_device (upd_runtime i f c) = c_device c"
  and runtimes_upd_runtime [simp]: "c_runtimes (upd_runtime i f c) = (c_runtimes c)[i := f (c_runtimes c ! i)]"
  by (simp_all add: static_def program_def upd_runtime_def)

lemma observe_frame [simp]:
  "static (ObservePositiveBoundary r c) = static c"
  "c_state (ObservePositiveBoundary r c) = c_state c"
  "c_device (ObservePositiveBoundary r c) = c_device c"
proof -
  have "static (observe_loop n r c) = static c \<and> c_state (observe_loop n r c) = c_state c
      \<and> c_device (observe_loop n r c) = c_device c" for n
    by (induction n arbitrary: r c) auto
  then show "static (ObservePositiveBoundary r c) = static c"
    "c_state (ObservePositiveBoundary r c) = c_state c"
    "c_device (ObservePositiveBoundary r c) = c_device c"
    by (simp_all add: ObservePositiveBoundary_def)
qed

lemma static_nth:
  assumes "length (c_instructions c) = kMaxInstructions" "i < kMaxInstructions"
  shows "GetMark (c_instructions c ! i) = GetMark (map slot_ResetForReplay (c_instructions c) ! i)"
    "IsRunGroup (c_instructions c ! i) = IsRunGroup (map slot_ResetForReplay (c_instructions c) ! i)"
    "GetTargetGroupId (c_instructions c ! i) = GetTargetGroupId (map slot_ResetForReplay (c_instructions c) ! i)"
  using assms by simp_all

lemma execute_slot_frame:
  assumes "execute_slot ts idx c = (delay, c1)" "0 < c_refresh_period_ms c"
  shows "static c1 = static c" "c_state c1 = c_state c" "c_runtimes c1 = c_runtimes c"
    "c_executing c1 = c_executing c" "unat delay \<le> 65535" "strip_inv (c_device c) \<Longrightarrow> strip_inv (c_device c1)"
proof -
  obtain d sh slot dev where e: "slot_Execute (c_refresh_period_ms c) ts (c_instructions c ! idx) (c_device c) = (d, sh, slot, dev)"
    by (metis prod.exhaust)
  note f = slot_Execute_facts [OF e assms(2)]
  have c1: "c1 = c\<lparr>c_instructions := (c_instructions c)[idx := slot], c_device := dev,
      c_show_requested := (c_show_requested c \<or> sh)\<rparr>" "delay = d"
    using assms(1) e by (simp_all add: execute_slot_def)
  have "map slot_ResetForReplay ((c_instructions c)[idx := slot]) = map slot_ResetForReplay (c_instructions c)"
    using f(1) by (cases "idx < length (c_instructions c)")
      (simp_all add: map_update list_update_same_conv list_update_beyond not_less)
  moreover have "link dev = link (c_device c)" using f(3) by (simp add: link_def)
  ultimately show "static c1 = static c" by (simp add: c1 static_def program_def)
  show "c_state c1 = c_state c" "c_runtimes c1 = c_runtimes c" "c_executing c1 = c_executing c"
    by (simp_all add: c1)
  show "unat delay \<le> 65535" using f(2) by (simp add: c1)
  show "strip_inv (c_device c) \<Longrightarrow> strip_inv (c_device c1)" using f(3) by (simp add: c1)
qed

lemma replay_frame [simp]:
  "static (ResetGroupInstructionReplayState g c) = static c"
  "c_state (ResetGroupInstructionReplayState g c) = c_state c"
  "c_runtimes (ResetGroupInstructionReplayState g c) = c_runtimes c"
  "c_executing (ResetGroupInstructionReplayState g c) = c_executing c"
  "c_device (ResetGroupInstructionReplayState g c) = c_device c"
proof -
  have step: "map slot_ResetForReplay (slots[k := slot_ResetForReplay (slots ! k)]) = map slot_ResetForReplay slots" for slots k
    by (cases "k < length slots") (simp_all add: map_update list_update_same_conv list_update_beyond not_less)
  have "map slot_ResetForReplay (fold (\<lambda>i slots. slots[f i := slot_ResetForReplay (slots ! f i)]) is slots)
      = map slot_ResetForReplay slots" for f :: "nat \<Rightarrow> nat" and "is" slots
    by (induction "is" arbitrary: slots) (simp_all add: step)
  then show "static (ResetGroupInstructionReplayState g c) = static c"
    by (simp add: ResetGroupInstructionReplayState_def static_def program_def Let_def)
qed (simp_all add: ResetGroupInstructionReplayState_def Let_def)

text \<open>A group start: the fresh runtime record, and when it is refused.\<close>

definition started_runtime :: "u32 \<Rightarrow> LoopCount \<Rightarrow> nat \<Rightarrow> nat \<Rightarrow> GroupRuntime \<Rightarrow> GroupRuntime" where
  "started_runtime ts repeats parent depth r =
     (GroupRuntime_Reset r)\<lparr>rt_start_time := ts, rt_repeats_remaining := repeats,
        rt_parent_group_index := parent, rt_depth := depth, rt_active := True\<rparr>"

lemma replay_instructions:
  "rt_record (f (c_runtimes c ! k)) = rt_record (c_runtimes c ! k) \<Longrightarrow>
   c_instructions (ResetGroupInstructionReplayState g (upd_runtime k f c)) = c_instructions (ResetGroupInstructionReplayState g c)"
  by (cases "k = g"; cases "k < length (c_runtimes c)")
     (auto simp: ResetGroupInstructionReplayState_def upd_runtime_def list_update_beyond Let_def)

lemma StartGroupRuntime_ok:
  assumes "g < c_group_count c" "g < length (c_runtimes c)"
    and "p = kMaxGroups \<or> p < c_group_count c \<and> rt_active (c_runtimes c ! p) \<and> p \<noteq> g"
    and d: "d = (if p = kMaxGroups then 0 else (rt_depth (c_runtimes c ! p) + 1) mod 256)"
  shows "\<exists>c'. StartGroupRuntime g ts n p c = (True, c') \<and> static c' = static c \<and> c_state c' = c_state c
    \<and> c_executing c' = c_executing c \<and> c_device c' = c_device c
    \<and> c_runtimes c' = (c_runtimes c)[g := started_runtime ts n p d (c_runtimes c ! g)]
    \<and> c_instructions c' = c_instructions (ResetGroupInstructionReplayState g c)"
  using assms by (auto simp: StartGroupRuntime_def Let_def started_runtime_def GroupRuntime_Reset_def
      replay_instructions)

section \<open>The invariant over runtimes and executing instructions\<close>

text \<open>
  The active runtimes form a tree rooted in runtime 0: each other active runtime was started by
  an instruction of its active parent, lies one level deeper, and is counted by its parent.
\<close>

definition children :: "nat \<Rightarrow> GroupRuntime list \<Rightarrow> nat \<Rightarrow> nat set" where
  "children gc rts g = {h. h < gc \<and> h \<noteq> 0 \<and> rt_active (rts ! h) \<and> rt_parent_group_index (rts ! h) = g}"

definition tree_ok :: "(GroupId \<times> GroupId) set \<Rightarrow> GroupRecord list \<Rightarrow> nat \<Rightarrow> ProgramState \<Rightarrow> GroupRuntime list \<Rightarrow> bool" where
  "tree_ok cs groups gc st rts \<longleftrightarrow>
     (rt_active (rts ! 0) \<longleftrightarrow> st = kActive) \<and>
     (rt_active (rts ! 0) \<longrightarrow> rt_parent_group_index (rts ! 0) = kMaxGroups \<and> rt_depth (rts ! 0) = 0) \<and>
     (\<forall>g<gc. g \<noteq> 0 \<longrightarrow> rt_active (rts ! g) \<longrightarrow>
        rt_parent_group_index (rts ! g) < gc \<and> rt_active (rts ! rt_parent_group_index (rts ! g)) \<and>
        (gr_id (groups ! rt_parent_group_index (rts ! g)), gr_id (groups ! g)) \<in> cs \<and>
        rt_depth (rts ! g) = rt_depth (rts ! rt_parent_group_index (rts ! g)) + 1) \<and>
     (\<forall>g<gc. rt_child_count (rts ! g) = card (children gc rts g))"

text \<open>
  Each executing entry belongs to an active runtime whose cursor has passed its instruction, no
  instruction executes twice, and each runtime counts its entries.
\<close>

definition epairs :: "ExecutingInstruction list \<Rightarrow> (nat \<times> nat) multiset" where
  "epairs exs = mset (map (\<lambda>e. (ex_runtime_index e, ex_instruction_index e)) exs)"

definition exec_ok :: "nat list \<Rightarrow> nat \<Rightarrow> GroupRuntime list \<Rightarrow> (nat \<times> nat) multiset \<Rightarrow> bool" where
  "exec_ok indices gc rts ps \<longleftrightarrow>
     (\<forall>g<gc. rt_active_count (rts ! g) = count (image_mset fst ps) g) \<and>
     (\<forall>r i. (r, i) \<in># ps \<longrightarrow> r < gc \<and> rt_active (rts ! r) \<and>
        (\<exists>p < rt_cursor (rts ! r). indices ! (gr_index_begin (rt_record (rts ! r)) + p) = i)) \<and>
     (\<forall>i. count (image_mset snd ps) i \<le> 1)"

definition rts_ok :: "GroupRecord list \<Rightarrow> nat \<Rightarrow> GroupRuntime list \<Rightarrow> bool" where
  "rts_ok groups gc rts \<longleftrightarrow> length rts = kMaxGroups \<and>
     (\<forall>g<gc. rt_record (rts ! g) = groups ! g \<and> rt_cursor (rts ! g) \<le> gr_instruction_count (groups ! g))"

text \<open>The three parts depend only on some of the fields.\<close>

lemma tree_ok_cong:
  assumes "0 < gc" "\<And>g. g < gc \<Longrightarrow> rt_active (rts' ! g) = rt_active (rts ! g)
      \<and> (rt_active (rts ! g) \<longrightarrow> rt_parent_group_index (rts' ! g) = rt_parent_group_index (rts ! g)
         \<and> rt_depth (rts' ! g) = rt_depth (rts ! g))
      \<and> rt_child_count (rts' ! g) = rt_child_count (rts ! g)"
    and "tree_ok cs groups gc st rts"
  shows "tree_ok cs groups gc st rts'"
proof -
  have ch: "children gc rts' g = children gc rts g" for g
    using assms(2) unfolding children_def by (auto simp: less_imp_le)
  have par: "rt_parent_group_index (rts ! g) < gc" "rt_active (rts ! rt_parent_group_index (rts ! g))"
      "(gr_id (groups ! rt_parent_group_index (rts ! g)), gr_id (groups ! g)) \<in> cs"
      "rt_depth (rts ! g) = rt_depth (rts ! rt_parent_group_index (rts ! g)) + 1"
    if "g < gc" "g \<noteq> 0" "rt_active (rts ! g)" for g
    using that assms(3) unfolding tree_ok_def by metis+
  have "rt_parent_group_index (rts' ! g) < gc \<and> rt_active (rts' ! rt_parent_group_index (rts' ! g))
      \<and> (gr_id (groups ! rt_parent_group_index (rts' ! g)), gr_id (groups ! g)) \<in> cs
      \<and> rt_depth (rts' ! g) = rt_depth (rts' ! rt_parent_group_index (rts' ! g)) + 1"
    if "g < gc" "g \<noteq> 0" "rt_active (rts' ! g)" for g
  proof -
    have a: "rt_active (rts ! g)" using that assms(2) by metis
    note p = par [OF that(1,2) a]
    show ?thesis using p assms(2) [OF that(1)] assms(2) [OF p(1)] a by simp
  qed
  then show ?thesis
    using assms(3) assms(2) [OF assms(1)] assms(2) unfolding tree_ok_def ch by metis
qed

lemma exec_ok_cong:
  assumes "\<And>g. g < gc \<Longrightarrow> rt_active_count (rts' ! g) = rt_active_count (rts ! g)
      \<and> (rt_active (rts ! g) \<longrightarrow> g \<in># image_mset fst ps \<longrightarrow> rt_active (rts' ! g)
          \<and> rt_record (rts' ! g) = rt_record (rts ! g) \<and> rt_cursor (rts ! g) \<le> rt_cursor (rts' ! g))"
    and ok: "exec_ok indices gc rts ps"
  shows "exec_ok indices gc rts' ps"
proof -
  have "r < gc \<and> rt_active (rts' ! r) \<and>
        (\<exists>p < rt_cursor (rts' ! r). indices ! (gr_index_begin (rt_record (rts' ! r)) + p) = i)"
    if "(r, i) \<in># ps" for r i
  proof -
    have "r < gc \<and> rt_active (rts ! r) \<and> (\<exists>p < rt_cursor (rts ! r). indices ! (gr_index_begin (rt_record (rts ! r)) + p) = i)"
      using ok that unfolding exec_ok_def by blast
    moreover have "r \<in># image_mset fst ps" using that by force
    ultimately show ?thesis using assms(1) [of r] by (auto intro: less_le_trans)
  qed
  then show ?thesis using assms unfolding exec_ok_def by simp
qed

lemma rts_ok_upd:
  assumes "rts_ok groups gc rts" "g < gc" "gc \<le> kMaxGroups"
    and "rt_record r = rt_record (rts ! g)" "rt_cursor r \<le> gr_instruction_count (rt_record r)"
  shows "rts_ok groups gc (rts[g := r])"
  using assms unfolding rts_ok_def by (auto simp: nth_list_update)

text \<open>Only distinct indexes of retained instructions execute, so there is always room.\<close>

lemma mset_swap_remove: "i < length xs \<Longrightarrow> mset (swap_remove i xs) = mset xs - {# xs ! i #}"
proof -
  assume i: "i < length xs"
  then have ne: "xs[i := last xs] \<noteq> []" by auto
  have last: "last (xs[i := last xs]) = last xs"
    using i by (cases xs rule: rev_cases) (auto simp: list_update_append)
  have "mset (xs[i := last xs]) = mset (butlast (xs[i := last xs]) @ [last (xs[i := last xs])])"
    by (simp only: append_butlast_last_id [OF ne])
  then have "mset (xs[i := last xs]) = mset (swap_remove i xs) + {# last xs #}"
    unfolding last by (simp add: swap_remove_def)
  moreover have "mset (xs[i := last xs]) = add_mset (last xs) (mset xs - {# xs ! i #})"
    using i by (simp add: mset_update)
  ultimately show ?thesis by simp
qed


lemma epairs_swap_remove:
  "i < length exs \<Longrightarrow> epairs (swap_remove i exs) = epairs exs - {# (ex_runtime_index (exs ! i), ex_instruction_index (exs ! i)) #}"
  unfolding epairs_def mset_map by (simp add: mset_swap_remove image_mset_Diff)

lemma epairs_deadline: "epairs (exs[i := (exs ! i)\<lparr>ex_deadline := d\<rparr>]) = epairs exs"
proof -
  let ?f = "\<lambda>e. (ex_runtime_index e, ex_instruction_index e)"
  have "map ?f (exs[i := (exs ! i)\<lparr>ex_deadline := d\<rparr>]) = map ?f exs"
    by (cases "i < length exs") (simp_all add: map_update list_update_same_conv list_update_beyond not_less)
  then show ?thesis by (simp only: epairs_def)
qed

lemma epairs_mem: "i < length exs \<Longrightarrow> (ex_runtime_index (exs ! i), ex_instruction_index (exs ! i)) \<in># epairs exs"
  by (auto simp: epairs_def)

section \<open>Preservation, one change at a time\<close>

definition run_ok ::
  "(GroupId \<times> GroupId) set \<Rightarrow> GroupRecord list \<Rightarrow> nat list \<Rightarrow> nat \<Rightarrow> ProgramState \<Rightarrow> GroupRuntime list \<Rightarrow> (nat \<times> nat) multiset \<Rightarrow> bool" where
  "run_ok cs groups indices gc st rts ps \<longleftrightarrow> 0 < gc \<and> gc \<le> kMaxGroups \<and> st \<noteq> kEditable \<and>
     rts_ok groups gc rts \<and> tree_ok cs groups gc st rts \<and> exec_ok indices gc rts ps"

lemma run_ok_flag:
  assumes "run_ok cs groups indices gc st rts ps" "flag_eq rts rts'"
  shows "run_ok cs groups indices gc st rts' ps"
proof -
  have l: "g < length rts" if "g < gc" for g
    using that assms(1) by (simp add: run_ok_def rts_ok_def)
  note f = flag_eq_fields [OF assms(2) l]
  have "rts_ok groups gc rts'"
    using assms f by (simp add: run_ok_def rts_ok_def flag_eq_def)
  moreover have "tree_ok cs groups gc st rts'"
    using assms(1) f by (intro tree_ok_cong [of gc rts' rts]) (auto simp: run_ok_def)
  moreover have "exec_ok indices gc rts' ps"
    using assms(1) f by (intro exec_ok_cong [of gc rts' rts]) (auto simp: run_ok_def)
  ultimately show ?thesis using assms(1) by (simp add: run_ok_def)
qed

text \<open>A finished instruction leaves the list and its runtime's count.\<close>

lemma runtime_upd_nth: "g < gc \<Longrightarrow> gc \<le> kMaxGroups \<Longrightarrow> length rts = kMaxGroups \<Longrightarrow> rts[r := x] ! g = (if g = r then x else rts ! g)"
  by (simp add: nth_list_update)

lemma run_okD:
  assumes "run_ok cs groups indices gc st rts ps"
  shows "0 < gc" "gc \<le> kMaxGroups" "length rts = kMaxGroups" "rts_ok groups gc rts"
    "tree_ok cs groups gc st rts" "exec_ok indices gc rts ps"
    "\<And>g. g < gc \<Longrightarrow> rt_record (rts ! g) = groups ! g"
    "\<And>g. g < gc \<Longrightarrow> rt_cursor (rts ! g) \<le> gr_instruction_count (groups ! g)"
    "\<And>g. g < gc \<Longrightarrow> rt_active_count (rts ! g) = count (image_mset fst ps) g"
    "\<And>g. g < gc \<Longrightarrow> rt_child_count (rts ! g) = card (children gc rts g)"
    "st \<noteq> kEditable"
proof -
  show a: "0 < gc" "gc \<le> kMaxGroups" "rts_ok groups gc rts" "tree_ok cs groups gc st rts" "exec_ok indices gc rts ps"
      "st \<noteq> kEditable"
    using assms by (simp_all add: run_ok_def)
  show "length rts = kMaxGroups" "\<And>g. g < gc \<Longrightarrow> rt_record (rts ! g) = groups ! g"
    "\<And>g. g < gc \<Longrightarrow> rt_cursor (rts ! g) \<le> gr_instruction_count (groups ! g)"
    using a(3) by (simp_all add: rts_ok_def)
  show "\<And>g. g < gc \<Longrightarrow> rt_active_count (rts ! g) = count (image_mset fst ps) g"
    using a(5) by (simp add: exec_ok_def)
  show "\<And>g. g < gc \<Longrightarrow> rt_child_count (rts ! g) = card (children gc rts g)"
    using a(4) by (simp add: tree_ok_def)
qed

lemma run_ok_finish:
  assumes ok: "run_ok cs groups indices gc st rts ps" and e: "(r, i) \<in># ps"
  shows "rt_active_count (rts ! r) \<noteq> 0"
    and "run_ok cs groups indices gc st (rts[r := (rts ! r)\<lparr>rt_active_count := rt_active_count (rts ! r) - 1\<rparr>]) (ps - {# (r, i) #})"
proof -
  note f = run_okD [OF ok]
  define x where "x = (rts ! r)\<lparr>rt_active_count := rt_active_count (rts ! r) - 1\<rparr>"
  have x: "rt_record x = rt_record (rts ! r)" "rt_cursor x = rt_cursor (rts ! r)" "rt_active x = rt_active (rts ! r)"
    "rt_parent_group_index x = rt_parent_group_index (rts ! r)" "rt_depth x = rt_depth (rts ! r)"
    "rt_child_count x = rt_child_count (rts ! r)" "rt_active_count x = rt_active_count (rts ! r) - 1"
    by (simp_all add: x_def)
  have r: "r < gc" using f(6) e by (auto simp: exec_ok_def)
  note nth = runtime_upd_nth [OF _ f(2,3), of _ r x]
  have "r \<in># image_mset fst ps" using e by force
  then show nz: "rt_active_count (rts ! r) \<noteq> 0" using f(9) [OF r] by simp
  have "rts_ok groups gc (rts[r := x])"
    using f(8) [OF r] f(7) [OF r] r by (intro rts_ok_upd [OF f(4)]) (simp_all add: f x)
  moreover have "tree_ok cs groups gc st (rts[r := x])"
    by (rule tree_ok_cong [OF f(1) _ f(5)]) (simp add: nth x)
  moreover have "exec_ok indices gc (rts[r := x]) (ps - {# (r, i) #})"
  proof -
    have img: "image_mset fst (ps - {# (r, i) #}) = image_mset fst ps - {# r #}"
      "image_mset snd (ps - {# (r, i) #}) = image_mset snd ps - {# i #}"
      using e by (simp_all add: image_mset_Diff)
    have mem: "(r', i') \<in># ps" if "(r', i') \<in># ps - {# (r, i) #}" for r' i'
      using that by (meson in_diffD)
    have "r' < gc \<and> rt_active (rts[r := x] ! r') \<and> (\<exists>p < rt_cursor (rts[r := x] ! r').
        indices ! (gr_index_begin (rt_record (rts[r := x] ! r')) + p) = i')" if "(r', i') \<in># ps - {# (r, i) #}" for r' i'
    proof -
      have "r' < gc \<and> rt_active (rts ! r') \<and> (\<exists>p < rt_cursor (rts ! r'). indices ! (gr_index_begin (rt_record (rts ! r')) + p) = i')"
        using f(6) mem [OF that] unfolding exec_ok_def by blast
      then show ?thesis by (auto simp: nth x)
    qed
    moreover have "count (image_mset snd ps) j \<le> 1" for j
      using f(6) by (simp add: exec_ok_def)
    then have "count (image_mset snd ps - {# i #}) j \<le> 1" for j
      by (metis count_diff diff_le_self order.trans)
    moreover have "\<forall>h<gc. rt_active_count (rts[r := x] ! h) = count (image_mset fst ps - {# r #}) h"
      using f(9) by (auto simp: nth x)
    ultimately show ?thesis unfolding exec_ok_def img by blast
  qed
  ultimately show "run_ok cs groups indices gc st (rts[r := (rts ! r)\<lparr>rt_active_count := rt_active_count (rts ! r) - 1\<rparr>]) (ps - {# (r, i) #})"
    using f(1,2,11) by (simp add: run_ok_def x_def)
qed

text \<open>A due instruction moves the cursor.\<close>

lemma run_ok_advance:
  assumes ok: "run_ok cs groups indices gc st rts ps" and g: "g < gc"
    and room: "rt_cursor (rts ! g) < gr_instruction_count (groups ! g)"
  shows "run_ok cs groups indices gc st (rts[g := (rts ! g)\<lparr>rt_cursor := rt_cursor (rts ! g) + 1\<rparr>]) ps"
proof -
  note f = run_okD [OF ok]
  define x where "x = (rts ! g)\<lparr>rt_cursor := rt_cursor (rts ! g) + 1\<rparr>"
  have x: "rt_record x = rt_record (rts ! g)" "rt_cursor x = rt_cursor (rts ! g) + 1" "rt_active x = rt_active (rts ! g)"
    "rt_parent_group_index x = rt_parent_group_index (rts ! g)" "rt_depth x = rt_depth (rts ! g)"
    "rt_child_count x = rt_child_count (rts ! g)" "rt_active_count x = rt_active_count (rts ! g)"
    by (simp_all add: x_def)
  note nth = runtime_upd_nth [OF _ f(2,3), of _ g x]
  have "rts_ok groups gc (rts[g := x])"
    using g room by (intro rts_ok_upd [OF f(4)]) (simp_all add: f x)
  moreover have "tree_ok cs groups gc st (rts[g := x])"
    by (rule tree_ok_cong [OF f(1) _ f(5)]) (simp add: nth x)
  moreover have "exec_ok indices gc (rts[g := x]) ps"
    by (rule exec_ok_cong [OF _ f(6)]) (simp add: nth x)
  ultimately show ?thesis using f(1,2,11) by (simp add: run_ok_def x_def)
qed

text \<open>A timed instruction that the cursor has just passed starts executing.\<close>

lemma run_ok_append:
  assumes ok: "run_ok cs groups indices gc st rts ps" and g: "g < gc" "rt_active (rts ! g)"
    and pos: "p < rt_cursor (rts ! g)" "indices ! (gr_index_begin (groups ! g) + p) = i"
    and new: "i \<notin># image_mset snd ps"
  shows "run_ok cs groups indices gc st (rts[g := (rts ! g)\<lparr>rt_active_count := rt_active_count (rts ! g) + 1\<rparr>]) (add_mset (g, i) ps)"
proof -
  note f = run_okD [OF ok]
  define x where "x = (rts ! g)\<lparr>rt_active_count := rt_active_count (rts ! g) + 1\<rparr>"
  have x: "rt_record x = rt_record (rts ! g)" "rt_cursor x = rt_cursor (rts ! g)" "rt_active x = rt_active (rts ! g)"
    "rt_parent_group_index x = rt_parent_group_index (rts ! g)" "rt_depth x = rt_depth (rts ! g)"
    "rt_child_count x = rt_child_count (rts ! g)" "rt_active_count x = rt_active_count (rts ! g) + 1"
    by (simp_all add: x_def)
  note nth = runtime_upd_nth [OF _ f(2,3), of _ g x]
  have "rts_ok groups gc (rts[g := x])"
    using g f(8) [OF g(1)] by (intro rts_ok_upd [OF f(4)]) (simp_all add: f x)
  moreover have "tree_ok cs groups gc st (rts[g := x])"
    by (rule tree_ok_cong [OF f(1) _ f(5)]) (simp add: nth x)
  moreover have "exec_ok indices gc (rts[g := x]) (add_mset (g, i) ps)"
  proof -
    have old: "r < gc \<and> rt_active (rts ! r) \<and> (\<exists>p < rt_cursor (rts ! r). indices ! (gr_index_begin (rt_record (rts ! r)) + p) = j)"
      if "(r, j) \<in># ps" for r j using f(6) that unfolding exec_ok_def by blast
    have "r < gc \<and> rt_active (rts[g := x] ! r) \<and> (\<exists>p < rt_cursor (rts[g := x] ! r).
        indices ! (gr_index_begin (rt_record (rts[g := x] ! r)) + p) = j)" if rj: "(r, j) \<in># add_mset (g, i) ps" for r j
    proof (cases "(r, j) = (g, i)")
      case True
      then show ?thesis using g pos by (auto simp: nth x f(7))
    next
      case False
      then have "(r, j) \<in># ps" using rj by auto
      from old [OF this] show ?thesis by (auto simp: nth x)
    qed
    moreover have "count (image_mset snd ps) j \<le> 1" for j
      using f(6) by (simp add: exec_ok_def)
    then have "count (image_mset snd (add_mset (g, i) ps)) j \<le> 1" for j
      using new [unfolded not_in_iff] by auto
    moreover have "\<forall>h<gc. rt_active_count (rts[g := x] ! h) = count (image_mset fst (add_mset (g, i) ps)) h"
      using f(9) by (auto simp: nth x)
    ultimately show ?thesis unfolding exec_ok_def by blast
  qed
  ultimately show ?thesis using f(1,2,11) by (simp add: run_ok_def x_def)
qed


text \<open>A group is started under a parent that calls it.\<close>

lemma run_ok_child:
  assumes ok: "run_ok cs groups indices gc st rts ps"
    and g: "g < gc" "rt_active (rts ! g)" and t: "t < gc" "t \<noteq> 0" "\<not> rt_active (rts ! t)"
    and call: "(gr_id (groups ! g), gr_id (groups ! t)) \<in> cs"
    and x: "x = started_runtime ts n g (rt_depth (rts ! g) + 1) (rts ! t)"
  shows "run_ok cs groups indices gc st
      (rts[t := x, g := (rts ! g)\<lparr>rt_child_count := rt_child_count (rts ! g) + 1\<rparr>]) ps"
proof -
  note f = run_okD [OF ok]
  define y where "y = (rts ! g)\<lparr>rt_child_count := rt_child_count (rts ! g) + 1\<rparr>"
  define q where "q = rts[t := x, g := y]"
  have tg: "t \<noteq> g" using g t by auto
  have xf: "rt_record x = rt_record (rts ! t)" "rt_cursor x = 0" "rt_active x" "rt_parent_group_index x = g"
    "rt_depth x = rt_depth (rts ! g) + 1" "rt_child_count x = 0" "rt_active_count x = 0"
    by (simp_all add: x started_runtime_def GroupRuntime_Reset_def)
  have yf: "rt_record y = rt_record (rts ! g)" "rt_cursor y = rt_cursor (rts ! g)" "rt_active y = rt_active (rts ! g)"
    "rt_parent_group_index y = rt_parent_group_index (rts ! g)" "rt_depth y = rt_depth (rts ! g)"
    "rt_child_count y = rt_child_count (rts ! g) + 1" "rt_active_count y = rt_active_count (rts ! g)"
    by (simp_all add: y_def)
  have nth: "q ! h = (if h = g then y else if h = t then x else rts ! h)" if "h < gc" for h
    unfolding q_def using that f(2,3) by (simp add: nth_list_update)
  have inact: "rt_active_count (rts ! t) = 0"
  proof -
    have "t \<notin># image_mset fst ps" using f(6) t(3) unfolding exec_ok_def by auto
    then show ?thesis using f(9) [OF t(1)] by (simp only: not_in_iff)
  qed
  have no_child: "children gc rts t = {}"
  proof -
    have "\<not> (h < gc \<and> h \<noteq> 0 \<and> rt_active (rts ! h) \<and> rt_parent_group_index (rts ! h) = t)" for h
      using f(5) t(3) unfolding tree_ok_def by metis
    then show ?thesis by (simp add: children_def)
  qed
  have fields: "rt_active (q ! h) = (rt_active (rts ! h) \<or> h = t)"
      "h \<noteq> t \<Longrightarrow> rt_parent_group_index (q ! h) = rt_parent_group_index (rts ! h)"
      "h \<noteq> t \<Longrightarrow> rt_depth (q ! h) = rt_depth (rts ! h)" if "h < gc" for h
    using that tg xf yf by (auto simp: nth)
  have qt: "q ! t = x" "q ! g = y" using nth [OF t(1)] nth [OF g(1)] tg by simp_all
  have ch: "children gc q h = children gc rts h \<union> (if h = g then {t} else {})" for h
  proof -
    have "k \<in> children gc q h \<longleftrightarrow> k \<in> children gc rts h \<or> h = g \<and> k = t" for k
      using fields [of k] t qt(1) xf(4) by (cases "k = t") (auto simp: children_def)
    then show ?thesis by auto
  qed
  have fin: "finite (children gc rts h)" for h by (simp add: children_def)
  have nt: "t \<notin> children gc rts h" for h using t(3) by (simp add: children_def)
  have "rts_ok groups gc q"
    unfolding rts_ok_def using f(3) f(7) [OF t(1)] f(7) [OF g(1)] f(8) [OF g(1)] f(7,8) xf(1,2) yf(1,2)
    by (simp add: nth) (simp add: q_def)
  moreover have "tree_ok cs groups gc st q"
  proof -
    have root: "rt_active (q ! 0) = rt_active (rts ! 0)" "rt_parent_group_index (q ! 0) = rt_parent_group_index (rts ! 0)"
        "rt_depth (q ! 0) = rt_depth (rts ! 0)"
      using fields [OF f(1)] t(2) by auto
    have "rt_parent_group_index (q ! h) < gc \<and> rt_active (q ! rt_parent_group_index (q ! h))
        \<and> (gr_id (groups ! rt_parent_group_index (q ! h)), gr_id (groups ! h)) \<in> cs
        \<and> rt_depth (q ! h) = rt_depth (q ! rt_parent_group_index (q ! h)) + 1"
      if h: "h < gc" "h \<noteq> 0" "rt_active (q ! h)" for h
    proof (cases "h = t")
      case True
      then show ?thesis using qt xf(4,5) yf(3,5) g call by simp
    next
      case False
      then have a: "rt_active (rts ! h)" using h fields(1) [OF h(1)] by simp
      then have p: "rt_parent_group_index (rts ! h) < gc" "rt_active (rts ! rt_parent_group_index (rts ! h))"
          "(gr_id (groups ! rt_parent_group_index (rts ! h)), gr_id (groups ! h)) \<in> cs"
          "rt_depth (rts ! h) = rt_depth (rts ! rt_parent_group_index (rts ! h)) + 1"
        using f(5) h(1,2) unfolding tree_ok_def by metis+
      then have pt: "rt_parent_group_index (rts ! h) \<noteq> t" using t(3) by metis
      show ?thesis using p fields [OF h(1)] fields [OF p(1)] False pt by simp
    qed
    moreover have "rt_child_count (q ! h) = card (children gc q h)" if "h < gc" for h
      using f(10) [OF that] f(10) [OF g(1)] nth [OF that] xf(6) yf(6) no_child nt fin tg unfolding ch by auto
    ultimately show ?thesis
      using f(5) root unfolding tree_ok_def by (simp only: simp_thms) metis
  qed
  moreover have "exec_ok indices gc q ps"
    using f(6) t(3) inact nth xf yf
    by (intro exec_ok_cong [OF _ f(6)]) auto
  ultimately show ?thesis using f(1,2,11) by (simp add: run_ok_def q_def y_def)
qed


text \<open>A group with no outstanding work starts its next pass.\<close>

lemma run_ok_idle:
  assumes "run_ok cs groups indices gc st rts ps" "g < gc"
    and "rt_active_count (rts ! g) = 0" "rt_child_count (rts ! g) = 0"
  shows "g \<notin># image_mset fst ps" "children gc rts g = {}"
proof -
  show "g \<notin># image_mset fst ps"
    using run_okD(9) [OF assms(1,2)] assms(3) by (simp only: not_in_iff)
  have "finite (children gc rts g)" by (simp add: children_def)
  then show "children gc rts g = {}" using run_okD(10) [OF assms(1,2)] assms(4) by simp
qed

lemma run_ok_restart:
  assumes ok: "run_ok cs groups indices gc st rts ps" and g: "g < gc" "rt_active (rts ! g)"
    and idle: "rt_active_count (rts ! g) = 0" "rt_child_count (rts ! g) = 0"
    and x: "x = started_runtime ts n (rt_parent_group_index (rts ! g)) (rt_depth (rts ! g)) (rts ! g)"
  shows "run_ok cs groups indices gc st (rts[g := x]) ps"
proof -
  note f = run_okD [OF ok]
  have xf: "rt_record x = rt_record (rts ! g)" "rt_cursor x = 0" "rt_active x"
    "rt_parent_group_index x = rt_parent_group_index (rts ! g)"
    "rt_depth x = rt_depth (rts ! g)" "rt_child_count x = 0" "rt_active_count x = 0"
    by (simp_all add: x started_runtime_def GroupRuntime_Reset_def)
  note nth = runtime_upd_nth [OF _ f(2,3), of _ g x]
  have "rts_ok groups gc (rts[g := x])"
    by (rule rts_ok_upd [OF f(4) g(1) f(2)]) (simp_all add: xf)
  moreover have "tree_ok cs groups gc st (rts[g := x])"
    by (rule tree_ok_cong [OF f(1) _ f(5)]) (simp add: nth xf g idle)
  moreover have "exec_ok indices gc (rts[g := x]) ps"
    by (rule exec_ok_cong [OF _ f(6)]) (use run_ok_idle(1) [OF ok g(1) idle] in \<open>simp add: nth xf idle\<close>)
  ultimately show ?thesis using f(1,2,11) by (simp add: run_ok_def)
qed

text \<open>A group completes: the root ends the program, any other group tells its parent.\<close>

lemma run_ok_complete_root:
  assumes ok: "run_ok cs groups indices gc st rts ps"
    and idle: "rt_active_count (rts ! 0) = 0" "rt_child_count (rts ! 0) = 0"
  shows "run_ok cs groups indices gc kCompleted (rts[0 := GroupRuntime_Reset (rts ! 0)]) ps"
proof -
  note f = run_okD [OF ok]
  define x where "x = GroupRuntime_Reset (rts ! 0)"
  define q where "q = rts[0 := x]"
  have xf: "rt_record x = rt_record (rts ! 0)" "rt_cursor x = 0" "\<not> rt_active x"
    "rt_child_count x = 0" "rt_active_count x = 0"
    by (simp_all add: x_def GroupRuntime_Reset_def)
  have q0: "q ! 0 = x" unfolding q_def using f(1,2,3) by simp
  have qh: "q ! h = rts ! h" if "h \<noteq> 0" for h unfolding q_def using that by simp
  note no = run_ok_idle [OF ok f(1) idle]
  have ch: "children gc q h = children gc rts h" for h
    unfolding children_def using qh by auto
  have "rts_ok groups gc q"
    unfolding q_def by (rule rts_ok_upd [OF f(4) f(1) f(2)]) (simp_all add: xf)
  moreover have "tree_ok cs groups gc kCompleted q"
  proof -
    have "rt_parent_group_index (q ! h) < gc \<and> rt_active (q ! rt_parent_group_index (q ! h))
        \<and> (gr_id (groups ! rt_parent_group_index (q ! h)), gr_id (groups ! h)) \<in> cs
        \<and> rt_depth (q ! h) = rt_depth (q ! rt_parent_group_index (q ! h)) + 1"
      if h: "h < gc" "h \<noteq> 0" "rt_active (q ! h)" for h
    proof -
      have p: "rt_parent_group_index (rts ! h) < gc" "rt_active (rts ! rt_parent_group_index (rts ! h))"
          "(gr_id (groups ! rt_parent_group_index (rts ! h)), gr_id (groups ! h)) \<in> cs"
          "rt_depth (rts ! h) = rt_depth (rts ! rt_parent_group_index (rts ! h)) + 1"
        using f(5) h qh [OF h(2)] unfolding tree_ok_def by metis+
      have "h \<notin> children gc rts 0" using no(2) by simp
      then have "rt_parent_group_index (rts ! h) \<noteq> 0" using h qh by (auto simp: children_def)
      then show ?thesis using p qh h(2) by simp
    qed
    moreover have "rt_child_count (q ! h) = card (children gc q h)" if "h < gc" for h
      using f(10) [OF that] q0 qh xf(4) no(2) unfolding ch by (cases "h = 0") auto
    ultimately show ?thesis
      using xf(3) unfolding tree_ok_def q0 by simp
  qed
  moreover have "exec_ok indices gc q ps"
    by (rule exec_ok_cong [OF _ f(6)]) (metis idle(1) no(1) q0 qh xf(5) order_refl)
  ultimately show ?thesis using f(1,2,11) by (simp add: run_ok_def q_def x_def)
qed

lemma run_ok_complete_child:
  assumes ok: "run_ok cs groups indices gc st rts ps" and g: "g < gc" "rt_active (rts ! g)" "g \<noteq> 0"
    and idle: "rt_active_count (rts ! g) = 0" "rt_child_count (rts ! g) = 0"
    and p: "p = rt_parent_group_index (rts ! g)" and x: "x = GroupRuntime_Reset (rts ! g)"
  shows "p < gc" "p \<noteq> g" "rt_active (rts ! p)" "rt_child_count (rts ! p) \<noteq> 0"
    and "run_ok cs groups indices gc st (rts[g := x, p := (rts ! p)\<lparr>rt_child_count := rt_child_count (rts ! p) - 1\<rparr>]) ps"
proof -
  note f = run_okD [OF ok]
  show pg: "p < gc" and pa: "rt_active (rts ! p)"
    using f(5) g unfolding tree_ok_def p by metis+
  have "rt_depth (rts ! g) = rt_depth (rts ! p) + 1" using f(5) g unfolding tree_ok_def p by metis
  then show pn: "p \<noteq> g" by auto
  have gp: "g \<in> children gc rts p" using g p by (simp add: children_def)
  have fin: "finite (children gc rts h)" for h by (simp add: children_def)
  show nz: "rt_child_count (rts ! p) \<noteq> 0" using f(10) [OF pg] gp fin by auto
  define y where "y = (rts ! p)\<lparr>rt_child_count := rt_child_count (rts ! p) - 1\<rparr>"
  define q where "q = rts[g := x, p := y]"
  have xf: "rt_record x = rt_record (rts ! g)" "rt_cursor x = 0" "\<not> rt_active x"
    "rt_child_count x = 0" "rt_active_count x = 0"
    by (simp_all add: x GroupRuntime_Reset_def)
  have yf: "rt_record y = rt_record (rts ! p)" "rt_cursor y = rt_cursor (rts ! p)" "rt_active y = rt_active (rts ! p)"
    "rt_parent_group_index y = rt_parent_group_index (rts ! p)" "rt_depth y = rt_depth (rts ! p)"
    "rt_child_count y = rt_child_count (rts ! p) - 1" "rt_active_count y = rt_active_count (rts ! p)"
    by (simp_all add: y_def)
  have nth: "q ! h = (if h = p then y else if h = g then x else rts ! h)" if "h < gc" for h
    unfolding q_def using that f(2,3) by (simp add: nth_list_update)
  note no = run_ok_idle [OF ok g(1) idle]
  have fields: "rt_active (q ! h) = (rt_active (rts ! h) \<and> h \<noteq> g)"
      "h \<noteq> g \<Longrightarrow> rt_parent_group_index (q ! h) = rt_parent_group_index (rts ! h)"
      "h \<noteq> g \<Longrightarrow> rt_depth (q ! h) = rt_depth (rts ! h)" if "h < gc" for h
    using that pn xf yf by (auto simp: nth)
  have ch: "children gc q h = children gc rts h - {g}" for h
  proof -
    have "k \<in> children gc q h \<longleftrightarrow> k \<in> children gc rts h \<and> k \<noteq> g" for k
      using fields [of k] by (auto simp: children_def)
    then show ?thesis by auto
  qed
  have "rts_ok groups gc q"
    unfolding rts_ok_def using f(3) f(7) [OF g(1)] f(7) [OF pg] f(8) [OF pg] f(7,8) xf(1,2) yf(1,2)
    by (simp add: nth) (simp add: q_def)
  moreover have "tree_ok cs groups gc st q"
  proof -
    have root: "rt_active (q ! 0) = rt_active (rts ! 0)" "rt_parent_group_index (q ! 0) = rt_parent_group_index (rts ! 0)"
        "rt_depth (q ! 0) = rt_depth (rts ! 0)"
      using fields [OF f(1)] g(3) by auto
    have "rt_parent_group_index (q ! h) < gc \<and> rt_active (q ! rt_parent_group_index (q ! h))
        \<and> (gr_id (groups ! rt_parent_group_index (q ! h)), gr_id (groups ! h)) \<in> cs
        \<and> rt_depth (q ! h) = rt_depth (q ! rt_parent_group_index (q ! h)) + 1"
      if h: "h < gc" "h \<noteq> 0" "rt_active (q ! h)" for h
    proof -
      have a: "rt_active (rts ! h)" "h \<noteq> g" using h fields(1) [OF h(1)] by simp_all
      then have r: "rt_parent_group_index (rts ! h) < gc" "rt_active (rts ! rt_parent_group_index (rts ! h))"
          "(gr_id (groups ! rt_parent_group_index (rts ! h)), gr_id (groups ! h)) \<in> cs"
          "rt_depth (rts ! h) = rt_depth (rts ! rt_parent_group_index (rts ! h)) + 1"
        using f(5) h(1,2) unfolding tree_ok_def by metis+
      have "h \<notin> children gc rts g" using no(2) by simp
      then have "rt_parent_group_index (rts ! h) \<noteq> g" using h a by (simp add: children_def)
      then show ?thesis using r fields [OF h(1)] fields [OF r(1)] a by simp
    qed
    moreover have "rt_child_count (q ! h) = card (children gc q h)" if "h < gc" for h
    proof -
      have "g \<in> children gc rts h \<longleftrightarrow> h = p" using g p by (auto simp: children_def)
      then show ?thesis
        using f(10) [OF that] f(10) [OF pg] nth [OF that] xf(4) yf(6) no(2) fin [of h] pn
        unfolding ch by (auto simp: card_Diff_singleton_if)
    qed
    ultimately show ?thesis
      using f(5) root unfolding tree_ok_def by (simp only: simp_thms) metis
  qed
  moreover have "exec_ok indices gc q ps"
    using no(1) idle(1) nth xf yf by (intro exec_ok_cong [OF _ f(6)]) auto
  ultimately show "run_ok cs groups indices gc st (rts[g := x, p := (rts ! p)\<lparr>rt_child_count := rt_child_count (rts ! p) - 1\<rparr>]) ps"
    using f(1,2,11) by (simp add: run_ok_def q_def y_def)
qed

section \<open>Facts of a committed program\<close>

lemma pool_index:
  assumes "pool_ok S n groups gc indices" "n \<le> kMaxInstructions" "g < gc" "p < gr_instruction_count (groups ! g)"
  shows "indices ! (gr_index_begin (groups ! g) + p) < n"
    "GetGroupId (S ! (indices ! (gr_index_begin (groups ! g) + p))) = gr_id (groups ! g)"
    "group_members S n (gr_id (groups ! g)) ! p = indices ! (gr_index_begin (groups ! g) + p)"
proof -
  let ?b = "gr_index_begin (groups ! g)" and ?c = "gr_instruction_count (groups ! g)"
  have seg: "segment ?b ?c indices = group_members S n (gr_id (groups ! g))"
    and len: "length indices = kMaxInstructions" and t: "table_ok S n groups gc" and lay: "layout_ok groups gc"
    using assms(1,3) by (simp_all add: pool_ok_def)
  have le: "?b + ?c \<le> length indices"
    using layout_total [OF lay assms(3)] table_total [OF t] assms(2) len by simp
  have nth: "segment ?b ?c indices ! p = indices ! (?b + p)" by (rule nth_segment [OF le assms(4)])
  then show "group_members S n (gr_id (groups ! g)) ! p = indices ! (?b + p)" by (simp add: seg)
  have "segment ?b ?c indices ! p \<in> set (segment ?b ?c indices)"
    using assms(4) le by (intro nth_mem) simp
  then have "indices ! (?b + p) \<in> set (group_members S n (gr_id (groups ! g)))" unfolding nth unfolding seg .
  then show "indices ! (?b + p) < n" "GetGroupId (S ! (indices ! (?b + p))) = gr_id (groups ! g)"
    by (auto simp: group_members_def)
qed

lemma pool_index_inj:
  assumes "pool_ok S n groups gc indices" "n \<le> kMaxInstructions"
    and "g < gc" "p < gr_instruction_count (groups ! g)" "h < gc" "q < gr_instruction_count (groups ! h)"
    and eq: "indices ! (gr_index_begin (groups ! g) + p) = indices ! (gr_index_begin (groups ! h) + q)"
  shows "g = h \<and> p = q"
proof -
  note a = pool_index [OF assms(1,2,3,4)] and b = pool_index [OF assms(1,2,5,6)]
  have t: "table_ok S n groups gc" using assms(1) by (simp add: pool_ok_def)
  have "gr_id (groups ! g) = gr_id (groups ! h)" using a(2) b(2) eq by simp
  then have gh: "g = h" using t assms(3,5) unfolding table_ok_def by blast
  have d: "distinct (group_members S n (gr_id (groups ! g)))" by (simp add: group_members_def)
  have l: "length (group_members S n (gr_id (groups ! g))) = gr_instruction_count (groups ! g)"
    using t assms(3) by (simp add: group_members_def table_ok_def)
  have "p = q"
    using a(3) b(3) eq gh d l assms(4,6) by (metis nth_eq_iff_index_eq)
  with gh show ?thesis by simp
qed

text \<open>The depth of an active runtime is the length of its chain of parents.\<close>

lemma depth_bound:
  assumes ok: "run_ok cs groups indices gc st rts ps" and g: "g < gc" "rt_active (rts ! g)"
  shows "rt_depth (rts ! g) < gc"
proof -
  note f = run_okD [OF ok]
  have chain: "\<forall>k \<le> rt_depth (rts ! g). \<exists>h<gc. rt_active (rts ! h) \<and> rt_depth (rts ! h) = k"
    if "g < gc" "rt_active (rts ! g)" for g
    using that
  proof (induction "rt_depth (rts ! g)" arbitrary: g)
    case 0
    then show ?case by auto
  next
    case (Suc d)
    have "g \<noteq> 0" using Suc.prems Suc.hyps(2) f(5) unfolding tree_ok_def by (metis nat.distinct(1))
    then have p: "rt_parent_group_index (rts ! g) < gc" "rt_active (rts ! rt_parent_group_index (rts ! g))"
        "rt_depth (rts ! g) = rt_depth (rts ! rt_parent_group_index (rts ! g)) + 1"
      using f(5) Suc.prems unfolding tree_ok_def by metis+
    then have "d = rt_depth (rts ! rt_parent_group_index (rts ! g))" using Suc.hyps(2) by simp
    from Suc.hyps(1) [OF this p(1,2)] this have "\<forall>k\<le>d. \<exists>h<gc. rt_active (rts ! h) \<and> rt_depth (rts ! h) = k" by simp
    then show ?case using Suc.prems Suc.hyps(2) le_Suc_eq by metis
  qed
  have "{..rt_depth (rts ! g)} \<subseteq> (\<lambda>h. rt_depth (rts ! h)) ` {..<gc}"
    using chain [OF g] by fastforce
  then have "card {..rt_depth (rts ! g)} \<le> card ((\<lambda>h. rt_depth (rts ! h)) ` {..<gc})"
    by (intro card_mono) auto
  also have "\<dots> \<le> gc" using card_image_le [of "{..<gc}" "\<lambda>h. rt_depth (rts ! h)"] by simp
  finally show ?thesis by simp
qed

section \<open>The controller invariant\<close>

definition base_inv :: "'mb Controller \<Rightarrow> bool" where
  "base_inv c \<longleftrightarrow> length (c_instructions c) = kMaxInstructions \<and> c_instruction_count c \<le> kMaxInstructions \<and>
     (\<forall>i < kMaxInstructions. c_instructions c ! i = None \<longleftrightarrow> c_instruction_count c \<le> i) \<and>
     0 < c_refresh_period_ms c \<and> c_refresh_period_ms c < kTimestampHalfRange \<and> strip_inv (c_device c)"

definition prog_calls :: "'mb Controller \<Rightarrow> (GroupId \<times> GroupId) set" where
  "prog_calls c = calls (map slot_ResetForReplay (c_instructions c)) (c_instruction_count c)"

definition prog_ok :: "'mb Controller \<Rightarrow> bool" where
  "prog_ok c \<longleftrightarrow>
     pool_ok (map slot_ResetForReplay (c_instructions c)) (c_instruction_count c) (c_groups c) (c_group_count c) (c_group_indices c) \<and>
     targets_ok (map slot_ResetForReplay (c_instructions c)) (c_instruction_count c) \<and> acyclic (prog_calls c)"

definition live_inv :: "'mb Controller \<Rightarrow> bool" where
  "live_inv c \<longleftrightarrow> base_inv c \<and> prog_ok c \<and>
     run_ok (prog_calls c) (c_groups c) (c_group_indices c) (c_group_count c) (c_state c) (c_runtimes c) (epairs (c_executing c))"

text \<open>The invariant of the public operations.\<close>

definition ctl_inv :: "'mb Controller \<Rightarrow> bool" where
  "ctl_inv c \<longleftrightarrow> base_inv c \<and>
     (if c_state c = kEditable then c_group_count c = 0 \<and> c_executing c = [] else live_inv c)"

lemma slot_Reset_None [simp]: "slot_ResetForReplay s = None \<longleftrightarrow> s = None"
  by (cases s) (simp_all add: slot_ResetForReplay_def)

lemma base_inv_program:
  assumes "base_inv c" "program c' = program c" "strip_inv (c_device c')"
  shows "base_inv c'"
proof -
  have m: "map slot_ResetForReplay (c_instructions c') = map slot_ResetForReplay (c_instructions c)"
    and s: "c_instruction_count c' = c_instruction_count c" "c_refresh_period_ms c' = c_refresh_period_ms c"
    using assms(2) by (simp_all add: program_def)
  have l: "length (c_instructions c') = length (c_instructions c)" using m by (metis length_map)
  have "c_instructions c' ! i = None \<longleftrightarrow> c_instructions c ! i = None" if "i < length (c_instructions c)" for i
    using that l arg_cong [OF m, of "\<lambda>xs. xs ! i"] by simp (metis slot_Reset_None)
  then show ?thesis using assms l s by (simp add: base_inv_def)
qed

lemma live_inv_run:
  assumes "live_inv c" "program c' = program c" "strip_inv (c_device c')"
    and "run_ok (prog_calls c) (c_groups c) (c_group_indices c) (c_group_count c) (c_state c') (c_runtimes c') (epairs (c_executing c'))"
  shows "live_inv c'"
proof -
  have "prog_ok c' = prog_ok c" "prog_calls c' = prog_calls c" "c_groups c' = c_groups c"
      "c_group_indices c' = c_group_indices c" "c_group_count c' = c_group_count c"
    using assms(2) by (simp_all add: program_def prog_ok_def prog_calls_def)
  then show ?thesis
    using assms base_inv_program [of c c'] by (simp add: live_inv_def)
qed

lemma live_inv_static:
  assumes "live_inv c" "static c' = static c" "strip_inv (c_device c')"
    and "run_ok (prog_calls c) (c_groups c) (c_group_indices c) (c_group_count c) (c_state c') (c_runtimes c') (epairs (c_executing c'))"
  shows "live_inv c'"
  using live_inv_run [OF assms(1) _ assms(3,4)] assms(2) by (simp add: static_def)

lemma live_inv_program:
  assumes "live_inv c" "program c' = program c" "c_state c' = c_state c" "c_runtimes c' = c_runtimes c"
    "c_executing c' = c_executing c" "strip_inv (c_device c')"
  shows "live_inv c'"
  using assms live_inv_run [of c c'] by (simp add: live_inv_def)

lemma live_invD:
  assumes "live_inv c"
  shows "base_inv c" "prog_ok c" "length (c_instructions c) = kMaxInstructions"
    "c_instruction_count c \<le> kMaxInstructions" "0 < c_refresh_period_ms c" "strip_inv (c_device c)"
    "run_ok (prog_calls c) (c_groups c) (c_group_indices c) (c_group_count c) (c_state c) (c_runtimes c) (epairs (c_executing c))"
    "pool_ok (map slot_ResetForReplay (c_instructions c)) (c_instruction_count c) (c_groups c) (c_group_count c) (c_group_indices c)"
  using assms by (simp_all add: live_inv_def base_inv_def prog_ok_def)


section \<open>The measure of a progress tick\<close>

text \<open>
  Within one tick, at timestamp \<open>ts\<close>: the work that time has made due (reached deadlines, and
  instructions of passes that started earlier), then the boundary flags that allow a repeat, then
  the instructions left in the active passes, as a multiset of group labels ordered by the call
  relation.
\<close>

definition due_work :: "u32 \<Rightarrow> GroupRuntime \<Rightarrow> nat" where
  "due_work ts r = (if rt_active r \<and> rt_start_time r \<noteq> ts
     then gr_instruction_count (rt_record r) - rt_cursor r else 0)"

definition flag_work :: "GroupRuntime \<Rightarrow> nat" where
  "flag_work r = (if rt_active r \<and> rt_positive_boundary_observed r then 1 else 0)"

definition pass_work :: "GroupRuntime \<Rightarrow> GroupId multiset" where
  "pass_work r = (if rt_active r
     then replicate_mset (gr_instruction_count (rt_record r) - rt_cursor r + 1) (gr_id (rt_record r)) else {#})"

definition reached :: "u32 \<Rightarrow> ExecutingInstruction list \<Rightarrow> nat" where
  "reached ts exs = size (filter_mset (\<lambda>e. DeadlineReached ts (ex_deadline e)) (mset exs))"

definition tick_measure :: "u32 \<Rightarrow> 'mb Controller \<Rightarrow> nat \<times> nat \<times> GroupId multiset" where
  "tick_measure ts c =
     (reached ts (c_executing c) + (\<Sum>g<c_group_count c. due_work ts (c_runtimes c ! g)),
      \<Sum>g<c_group_count c. flag_work (c_runtimes c ! g),
      \<Sum>g<c_group_count c. pass_work (c_runtimes c ! g))"

definition tick_order :: "(GroupId \<times> GroupId) set \<Rightarrow> ((nat \<times> nat \<times> GroupId multiset) \<times> (nat \<times> nat \<times> GroupId multiset)) set" where
  "tick_order cs = less_than <*lex*> less_than <*lex*> mult ((cs\<^sup>+)\<inverse>)"

lemma finite_calls: "finite (calls slots n)"
proof -
  have "calls slots n \<subseteq> (\<lambda>i. (GetGroupId (slots ! i), GetTargetGroupId (slots ! i))) ` {..<n}"
    by (auto simp: calls_def)
  then show ?thesis by (rule finite_subset) simp
qed

lemma wf_calls: "acyclic cs \<Longrightarrow> finite cs \<Longrightarrow> wf ((cs\<^sup>+)\<inverse>)"
  using wf_trancl [OF finite_acyclic_wf_converse [of cs]] by (simp add: trancl_converse)

lemma wf_tick_order: "acyclic cs \<Longrightarrow> finite cs \<Longrightarrow> wf (tick_order cs)"
  unfolding tick_order_def by (intro wf_lex_prod wf_less_than wf_mult wf_calls)

lemma trans_tick_order: "trans (tick_order cs)"
  unfolding tick_order_def by (intro trans_lex_prod trans_less_than) (simp add: mult_def)

lemma sum_upd:
  fixes F :: "GroupRuntime \<Rightarrow> 'b :: comm_monoid_add"
  assumes "k < gc" "gc \<le> length rts"
  shows "(\<Sum>g<gc. F (rts[k := x] ! g)) + F (rts ! k) = (\<Sum>g<gc. F (rts ! g)) + F x"
proof -
  have "(\<Sum>g\<in>{..<gc} - {k}. F (rts[k := x] ! g)) = (\<Sum>g\<in>{..<gc} - {k}. F (rts ! g))"
    by (intro sum.cong) auto
  then show ?thesis
    using assms sum.remove [of "{..<gc}" k "\<lambda>g. F (rts[k := x] ! g)"] sum.remove [of "{..<gc}" k "\<lambda>g. F (rts ! g)"]
    by (simp add: ac_simps)
qed

lemma sum_upd_same:
  assumes "F x = F (rts ! k)"
  shows "(\<Sum>g<gc. F (rts[k := x] ! g)) = (\<Sum>g<gc. (F :: GroupRuntime \<Rightarrow> 'b :: comm_monoid_add) (rts ! g))"
proof (intro sum.cong refl)
  fix g
  show "F (rts[k := x] ! g) = F (rts ! g)"
    using assms by (cases "g = k"; cases "k < length rts") (auto simp: list_update_beyond)
qed

text \<open>Flags do not influence the work left.\<close>

lemma flag_eq_work:
  assumes "flag_eq rts rts'" "gc \<le> length rts"
  shows "(\<Sum>g<gc. due_work ts (rts' ! g)) = (\<Sum>g<gc. due_work ts (rts ! g))"
    "(\<Sum>g<gc. pass_work (rts' ! g)) = (\<Sum>g<gc. pass_work (rts ! g))"
  using flag_eq_fields [OF assms(1)] assms(2)
  by (auto intro!: sum.cong simp: due_work_def pass_work_def)


section \<open>Draining\<close>

lemma not_reached:
  assumes "delay \<noteq> 0" "unat delay \<le> 65535"
  shows "\<not> DeadlineReached ts (ts + delay)"
proof -
  have "ts - (ts + delay) = - delay" by simp
  moreover have "unat (- delay) = 4294967296 - unat delay"
    using assms(1) unat_sub_if' [of 0 delay] by (simp add: unat_eq_zero)
  ultimately show ?thesis
    using assms(2) by (simp add: DeadlineReached_def kTimestampHalfRange_def word_less_nat_alt)
qed

lemma reached_update:
  assumes "i < length exs" "DeadlineReached ts (ex_deadline (exs ! i))"
  shows "\<not> DeadlineReached ts (ex_deadline e) \<Longrightarrow> reached ts (exs[i := e]) + 1 = reached ts exs"
    "reached ts (swap_remove i exs) + 1 = reached ts exs"
proof -
  let ?P = "\<lambda>e. DeadlineReached ts (ex_deadline e)"
  have m: "exs ! i \<in># filter_mset ?P (mset exs)" using assms by simp
  then have s: "size (filter_mset ?P (mset exs) - {# exs ! i #}) + 1 = size (filter_mset ?P (mset exs))"
    by (metis Suc_eq_plus1 insert_DiffM size_add_mset)
  show "reached ts (swap_remove i exs) + 1 = reached ts exs"
    using s assms by (simp add: reached_def mset_swap_remove filter_diff_mset)
  assume "\<not> ?P e"
  then show "reached ts (exs[i := e]) + 1 = reached ts exs"
    using s assms by (simp add: reached_def mset_update filter_diff_mset)
qed

lemma exec_entry:
  assumes inv: "live_inv c" and i: "i < length (c_executing c)"
  shows "ex_instruction_index (c_executing c ! i) < c_instruction_count c"
    "ex_runtime_index (c_executing c ! i) < c_group_count c"
    "rt_active (c_runtimes c ! ex_runtime_index (c_executing c ! i))"
proof -
  let ?e = "c_executing c ! i"
  note l = live_invD [OF inv]
  note f = run_okD [OF l(7)]
  have "(ex_runtime_index ?e, ex_instruction_index ?e) \<in># epairs (c_executing c)" by (rule epairs_mem [OF i])
  then obtain p where p: "ex_runtime_index ?e < c_group_count c" "rt_active (c_runtimes c ! ex_runtime_index ?e)"
      "p < rt_cursor (c_runtimes c ! ex_runtime_index ?e)"
      "c_group_indices c ! (gr_index_begin (rt_record (c_runtimes c ! ex_runtime_index ?e)) + p) = ex_instruction_index ?e"
    using f(6) unfolding exec_ok_def by blast
  then show "ex_runtime_index ?e < c_group_count c" "rt_active (c_runtimes c ! ex_runtime_index ?e)" by simp_all
  have "p < gr_instruction_count (c_groups c ! ex_runtime_index ?e)" using p(3) f(8) [OF p(1)] by simp
  from pool_index(1) [OF l(8) l(4) p(1) this] show "ex_instruction_index ?e < c_instruction_count c"
    using p(4) f(7) [OF p(1)] by simp
qed

text \<open>One piece of progress: the invariant is kept and the measure of the tick shrinks.\<close>

definition tick_step :: "u32 \<Rightarrow> 'mb Controller \<Rightarrow> 'mb Controller \<Rightarrow> bool" where
  "tick_step ts c c' \<longleftrightarrow> live_inv c' \<and> static c' = static c
     \<and> (tick_measure ts c', tick_measure ts c) \<in> tick_order (prog_calls c)"

lemma prog_calls_static: "static c' = static c \<Longrightarrow> prog_calls c' = prog_calls c"
  by (simp add: static_def program_def prog_calls_def)

lemma drain_one_ok:
  assumes inv: "live_inv c" and i: "i < length (c_executing c)"
    and r: "drain_one ts i st c = (i', p, st', c')"
  shows "st' = st \<and> (if DeadlineReached ts (ex_deadline (c_executing c ! i))
       then p \<and> tick_step ts c c' else \<not> p \<and> c' = c \<and> i' = i + 1)"
proof -
  let ?e = "c_executing c ! i"
  note l = live_invD [OF inv]
  note f = run_okD [OF l(7)]
  note e = exec_entry [OF inv i]
  define co where "co = ObservePositiveBoundary (ex_runtime_index ?e) c"
  have co: "static co = static c" "c_state co = c_state c" "c_device co = c_device c" "c_executing co = c_executing c"
      "flag_eq (c_runtimes c) (c_runtimes co)"
    by (simp_all add: co_def observe_flags)
  have pc: "0 < c_refresh_period_ms co" using l(5) co(1) by (simp add: static_def program_def)
  obtain delay c1 where ex: "execute_slot ts (ex_instruction_index ?e) co = (delay, c1)" by (metis prod.exhaust)
  note x = execute_slot_frame [OF ex pc]
  have ok1: "run_ok (prog_calls c) (c_groups c) (c_group_indices c) (c_group_count c) (c_state c) (c_runtimes c1) (epairs (c_executing c))"
    using run_ok_flag [OF l(7) co(5)] x(3) by simp
  have gcl: "c_group_count c \<le> length (c_runtimes c)" using f(2,3) by simp
  have strip: "strip_inv (c_device c1)" using x(6) co(3) l(6) by simp
  have st1: "static c1 = static c" "c_state c1 = c_state c" "c_executing c1 = c_executing c"
    using x co by simp_all
  then have gc1: "c_group_count c1 = c_group_count c" by (simp add: static_def program_def)
  have due: "(\<Sum>g<c_group_count c. due_work ts (c_runtimes c1 ! g)) = (\<Sum>g<c_group_count c. due_work ts (c_runtimes c ! g))"
    using flag_eq_work(1) [OF co(5) gcl] x(3) by simp
  note mem = epairs_mem [OF i]
  note fin = run_ok_finish [OF ok1 mem]
  show ?thesis
  proof (cases "DeadlineReached ts (ex_deadline ?e)")
    case False
    then show ?thesis using r e inv by (simp add: drain_one_def)
  next
    case reach: True
    show ?thesis
    proof (cases "delay = 0")
      case False
      define c2 where "c2 = c1\<lparr>c_executing := (c_executing c1)[i := ?e\<lparr>ex_deadline := ts + delay\<rparr>]\<rparr>"
      have res: "c' = c2" "p" "st' = st"
        using r e reach False ex by (simp_all add: drain_one_def co_def c2_def)
      have s2: "static c2 = static c" "c_state c2 = c_state c" "c_device c2 = c_device c1" "c_runtimes c2 = c_runtimes c1"
        using st1 by (simp_all add: c2_def)
      have "live_inv c2"
        using s2 ok1 strip st1(3)
        by (intro live_inv_static [OF inv]) (simp_all add: c2_def epairs_deadline)
      moreover have "reached ts (c_executing c2) + 1 = reached ts (c_executing c)"
        using reached_update(1) [OF i reach] not_reached [OF False x(5), of ts] st1(3) by (simp add: c2_def)
      then have "(tick_measure ts c2, tick_measure ts c) \<in> tick_order (prog_calls c)"
        using due gc1 by (simp add: tick_measure_def tick_order_def c2_def)
      ultimately show ?thesis using res s2 reach by (simp add: tick_step_def)
    next
      case True
      define c2 where "c2 = upd_runtime (ex_runtime_index ?e) (\<lambda>r. r\<lparr>rt_active_count := rt_active_count r - 1\<rparr>) c1"
      define c3 where "c3 = c2\<lparr>c_executing := swap_remove i (c_executing c2)\<rparr>"
      have res: "c' = c3" "p" "st' = st"
        using r e reach True ex fin(1) by (auto simp: drain_one_def co_def c2_def c3_def)
      have s3: "static c3 = static c" "c_state c3 = c_state c" "c_device c3 = c_device c1"
        using st1 by (simp_all add: c3_def c2_def)
      have ex3: "c_executing c3 = swap_remove i (c_executing c)" using st1(3) by (simp add: c3_def c2_def)
      have rt3: "c_runtimes c3 = (c_runtimes c1)[ex_runtime_index ?e := (c_runtimes c1 ! ex_runtime_index ?e)
          \<lparr>rt_active_count := rt_active_count (c_runtimes c1 ! ex_runtime_index ?e) - 1\<rparr>]"
        by (simp add: c3_def c2_def)
      have "live_inv c3"
        using s3 fin(2) strip by (intro live_inv_static [OF inv]) (simp_all add: rt3 ex3 epairs_swap_remove [OF i])
      moreover have "reached ts (c_executing c3) + 1 = reached ts (c_executing c)"
        using reached_update(2) [OF i reach] ex3 by simp
      moreover have "(\<Sum>g<c_group_count c. due_work ts (c_runtimes c3 ! g)) = (\<Sum>g<c_group_count c. due_work ts (c_runtimes c ! g))"
        unfolding rt3 due [symmetric] by (rule sum_upd_same) (simp add: due_work_def)
      moreover have "c_group_count c3 = c_group_count c" using s3(1) by (simp add: static_def program_def)
      ultimately show ?thesis using res s3 reach by (simp add: tick_step_def tick_measure_def tick_order_def)
    qed
  qed
qed

section \<open>Completing groups\<close>

lemma started_runtime_work:
  "due_work ts (started_runtime ts n p d r) = 0" "flag_work (started_runtime ts n p d r) = 0"
  "pass_work (started_runtime ts n p d r) = replicate_mset (gr_instruction_count (rt_record r) + 1) (gr_id (rt_record r))"
  by (simp_all add: due_work_def flag_work_def pass_work_def started_runtime_def GroupRuntime_Reset_def)

lemma reset_work:
  "due_work ts (GroupRuntime_Reset r) = 0" "flag_work (GroupRuntime_Reset r) = 0" "pass_work (GroupRuntime_Reset r) = {#}"
  by (simp_all add: due_work_def flag_work_def pass_work_def GroupRuntime_Reset_def)

lemma mult_smaller: "X + {# a #} = Y \<Longrightarrow> (X, Y) \<in> mult r"
  unfolding mult_def using mult1I [of "{# a #} + X" a X X "{#}" r] by (auto simp: mult1_def)
text \<open>A tick never reports exhausted capacity: these are the statuses it can have.\<close>

definition tick_status :: "ControllerStatus \<Rightarrow> bool" where
  "tick_status st \<longleftrightarrow> st = kSuccess \<or> st = kInvalidProgram \<or> st = kAlreadyActiveGroup"

lemma tick_status_latch [simp]:
  "tick_status st \<Longrightarrow> tick_status (LatchRunStatus st kInvalidProgram)"
  "tick_status st \<Longrightarrow> tick_status (LatchRunStatus st kAlreadyActiveGroup)"
  by (auto simp: tick_status_def LatchRunStatus_def)

definition group_ready :: "'mb Controller \<Rightarrow> nat \<Rightarrow> bool" where
  "group_ready c g \<longleftrightarrow> rt_active (c_runtimes c ! g)
     \<and> gr_instruction_count (c_groups c ! g) \<le> rt_cursor (c_runtimes c ! g)
     \<and> rt_active_count (c_runtimes c ! g) = 0 \<and> rt_child_count (c_runtimes c ! g) = 0"

text \<open>A group restarts under the parent and at the depth it had.\<close>

lemma restart_ok:
  assumes inv: "live_inv c" and g: "g < c_group_count c" and act: "rt_active (c_runtimes c ! g)"
  defines "r \<equiv> c_runtimes c ! g"
  shows "\<exists>c'. StartGroupRuntime g ts n (rt_parent_group_index r) c = (True, c') \<and> static c' = static c
    \<and> c_state c' = c_state c \<and> c_executing c' = c_executing c \<and> c_device c' = c_device c
    \<and> c_runtimes c' = (c_runtimes c)[g := started_runtime ts n (rt_parent_group_index r) (rt_depth r) r]
    \<and> c_instructions c' = c_instructions (ResetGroupInstructionReplayState g c)"
proof -
  note f = run_okD [OF live_invD(7) [OF inv]]
  let ?p = "rt_parent_group_index r" and ?gc = "c_group_count c"
  have gl: "g < length (c_runtimes c)" using g f(2,3) by simp
  have par: "?p = kMaxGroups \<and> rt_depth r = 0 \<or> ?p < ?gc \<and> rt_active (c_runtimes c ! ?p) \<and> ?p \<noteq> g
      \<and> ?p \<noteq> kMaxGroups \<and> rt_depth r = rt_depth (c_runtimes c ! ?p) + 1"
    using f(5) g act f(2) unfolding tree_ok_def r_def by (metis less_irrefl n_not_Suc_n Suc_eq_plus1 not_le)
  have dep: "rt_depth r = (if ?p = kMaxGroups then 0 else (rt_depth (c_runtimes c ! ?p) + 1) mod 256)"
    using par depth_bound [OF live_invD(7) [OF inv] g act] f(2) by (auto simp: capacity_simps r_def)
  have "?p = kMaxGroups \<or> ?p < ?gc \<and> rt_active (c_runtimes c ! ?p) \<and> ?p \<noteq> g" using par by blast
  from StartGroupRuntime_ok [OF g gl this dep, of ts n] show ?thesis by (simp add: r_def)
qed

text \<open>The status after a completion: a repeated group that never saw a boundary is reported.\<close>

text \<open>A ready group repeats when repeats are left and its pass had a positive boundary, and ends otherwise.\<close>

definition will_repeat :: "GroupRuntime \<Rightarrow> bool" where
  "will_repeat r \<longleftrightarrow> rt_repeats_remaining r \<noteq> 0 \<and> rt_positive_boundary_observed r"

lemma group_readyD:
  assumes inv: "live_inv c" and g: "g < c_group_count c" and ready: "group_ready c g"
  shows "rt_active (c_runtimes c ! g)" "rt_active_count (c_runtimes c ! g) = 0" "rt_child_count (c_runtimes c ! g) = 0"
    "\<not> rt_cursor (c_runtimes c ! g) < gr_instruction_count (rt_record (c_runtimes c ! g))"
  using ready run_okD(7) [OF live_invD(7) [OF inv] g] by (auto simp: group_ready_def)

lemma complete_waits:
  assumes inv: "live_inv c" and g: "g < c_group_count c" and "\<not> group_ready c g"
  shows "complete_one ts g (p, st, c) = (p, st, c)"
proof -
  have "\<not> rt_active (c_runtimes c ! g) \<or> rt_cursor (c_runtimes c ! g) < gr_instruction_count (rt_record (c_runtimes c ! g))
      \<or> rt_active_count (c_runtimes c ! g) \<noteq> 0 \<or> rt_child_count (c_runtimes c ! g) \<noteq> 0"
    using assms(3) run_okD(7) [OF live_invD(7) [OF inv] g] by (auto simp: group_ready_def)
  then show ?thesis unfolding complete_one_def Let_def prod.case by (rule if_P)
qed

lemma complete_restarts:
  assumes inv: "live_inv c" and g: "g < c_group_count c" and ready: "group_ready c g" and rep: "will_repeat (c_runtimes c ! g)"
    and r: "complete_one ts g (p, st, c) = (p', st', c')"
  shows "p' \<and> tick_step ts c c' \<and> st' = st"
proof -
  note l = live_invD [OF inv] and rd = group_readyD [OF inv g ready]
  let ?rt = "c_runtimes c ! g" and ?gc = "c_group_count c"
  let ?p = "rt_parent_group_index ?rt"
  let ?n = "if rt_repeats_remaining ?rt = kForeverLoopCount then kForeverLoopCount else rt_repeats_remaining ?rt - 1"
  have gcl: "?gc \<le> length (c_runtimes c)" using run_okD(2,3) [OF l(7)] by simp
  from restart_ok [OF inv g rd(1), of ts ?n] obtain c1 where
    c1: "StartGroupRuntime g ts ?n ?p c = (True, c1)" "static c1 = static c" "c_state c1 = c_state c"
      "c_executing c1 = c_executing c" "c_device c1 = c_device c"
      "c_runtimes c1 = (c_runtimes c)[g := started_runtime ts ?n ?p (rt_depth ?rt) ?rt]" by blast
  have res: "p' = True" "st' = st" "c' = c1"
    using r rep rd c1(1) by (simp_all add: will_repeat_def complete_one_def Let_def del: if_split)
  have "live_inv c1"
    using c1 l(6) run_ok_restart [OF l(7) g rd(1-3) refl] by (intro live_inv_static [OF inv]) simp_all
  moreover have "(tick_measure ts c1, tick_measure ts c) \<in> tick_order (prog_calls c)"
  proof -
    let ?x = "started_runtime ts ?n ?p (rt_depth ?rt) ?rt"
    have "(\<Sum>h<?gc. due_work ts (c_runtimes c1 ! h)) + due_work ts ?rt = (\<Sum>h<?gc. due_work ts (c_runtimes c ! h))"
      using sum_upd [OF g gcl, of "due_work ts" ?x] by (simp add: c1(6) started_runtime_work)
    moreover have "(\<Sum>h<?gc. flag_work (c_runtimes c1 ! h)) + 1 = (\<Sum>h<?gc. flag_work (c_runtimes c ! h))"
      using sum_upd [OF g gcl, of flag_work ?x] rep rd(1)
      by (simp add: c1(6) started_runtime_work will_repeat_def flag_work_def [of ?rt])
    moreover have "c_group_count c1 = ?gc" using c1(2) by (simp add: static_def program_def)
    ultimately show ?thesis by (simp add: tick_measure_def tick_order_def c1(4)) linarith
  qed
  ultimately show ?thesis using res c1(2) by (simp add: tick_step_def)
qed

text \<open>A group that ends takes its last label out of the measure; nothing else that changes counts.\<close>

lemma reset_measure:
  assumes inv: "live_inv c" and g: "g < c_group_count c" and ready: "group_ready c g"
    and "c_executing c2 = c_executing c" "c_group_count c2 = c_group_count c"
    and same: "c_runtimes c2 = (c_runtimes c)[g := GroupRuntime_Reset (c_runtimes c ! g)]
      \<or> (\<exists>k y. c_runtimes c2 = (c_runtimes c)[g := GroupRuntime_Reset (c_runtimes c ! g), k := y]
          \<and> k \<noteq> g \<and> y = (c_runtimes c ! k)\<lparr>rt_child_count := rt_child_count y\<rparr>)"
  shows "(tick_measure ts c2, tick_measure ts c) \<in> tick_order (prog_calls c)"
proof -
  note rd = group_readyD [OF inv g ready]
  let ?rt = "c_runtimes c ! g" and ?gc = "c_group_count c"
  let ?rs = "(c_runtimes c)[g := GroupRuntime_Reset ?rt]"
  have gcl: "?gc \<le> length (c_runtimes c)" using run_okD(2,3) [OF live_invD(7) [OF inv]] by simp
  have pass: "pass_work ?rt = {# gr_id (rt_record ?rt) #}" "due_work ts ?rt = 0"
    using rd by (simp_all add: pass_work_def due_work_def)
  have sums: "(\<Sum>h<?gc. due_work ts (?rs ! h)) = (\<Sum>h<?gc. due_work ts (c_runtimes c ! h))"
    "(\<Sum>h<?gc. flag_work (?rs ! h)) \<le> (\<Sum>h<?gc. flag_work (c_runtimes c ! h))"
    "(\<Sum>h<?gc. pass_work (?rs ! h)) + {# gr_id (rt_record ?rt) #} = (\<Sum>h<?gc. pass_work (c_runtimes c ! h))"
    using sum_upd [OF g gcl, of "due_work ts" "GroupRuntime_Reset ?rt"] sum_upd [OF g gcl, of flag_work "GroupRuntime_Reset ?rt"]
      sum_upd [OF g gcl, of pass_work "GroupRuntime_Reset ?rt"] pass by (simp_all add: reset_work)
  have eq: "(\<Sum>h<?gc. due_work ts (c_runtimes c2 ! h)) = (\<Sum>h<?gc. due_work ts (?rs ! h))
      \<and> (\<Sum>h<?gc. flag_work (c_runtimes c2 ! h)) = (\<Sum>h<?gc. flag_work (?rs ! h))
      \<and> (\<Sum>h<?gc. pass_work (c_runtimes c2 ! h)) = (\<Sum>h<?gc. pass_work (?rs ! h))"
    using same
  proof (elim disjE exE conjE)
    fix k y
    assume k: "c_runtimes c2 = ?rs[k := y]" "k \<noteq> g" "y = (c_runtimes c ! k)\<lparr>rt_child_count := rt_child_count y\<rparr>"
    have "due_work ts y = due_work ts (?rs ! k)" "flag_work y = flag_work (?rs ! k)" "pass_work y = pass_work (?rs ! k)"
      using k(2) by (subst k(3), simp add: due_work_def flag_work_def pass_work_def)+
    then show ?thesis unfolding k(1) by (intro conjI sum_upd_same)
  qed simp
  show ?thesis
    using sums mult_smaller [OF sums(3), of "((prog_calls c)\<^sup>+)\<inverse>"] eq assms(4,5)
    by (auto simp: tick_measure_def tick_order_def)
qed

lemma complete_root:
  assumes inv: "live_inv c" and g: "0 < c_group_count c" and ready: "group_ready c 0" and norep: "\<not> will_repeat (c_runtimes c ! 0)"
    and r: "complete_one ts 0 (p, st, c) = (p', st', c')"
  shows "p' \<and> tick_step ts c c' \<and> (st' = st \<or> st' = LatchRunStatus st kInvalidProgram)"
proof -
  note l = live_invD [OF inv] and rd = group_readyD [OF inv g ready]
  let ?c1 = "(upd_runtime 0 GroupRuntime_Reset c)\<lparr>c_state := kCompleted\<rparr>"
  have res: "p' = True" "st' = st \<or> st' = LatchRunStatus st kInvalidProgram" "c' = ?c1"
    using r norep rd by (auto simp: complete_one_def Let_def will_repeat_def)
  have "live_inv ?c1"
    using run_ok_complete_root [OF l(7)] rd(2,3) l(6) by (intro live_inv_static [OF inv]) simp_all
  moreover have "(tick_measure ts ?c1, tick_measure ts c) \<in> tick_order (prog_calls c)"
    by (rule reset_measure [OF inv g ready]) (simp_all add: upd_runtime_def)
  ultimately show ?thesis using res by (auto simp: tick_step_def)
qed

lemma complete_child:
  assumes inv: "live_inv c" and g: "g < c_group_count c" "g \<noteq> 0" and ready: "group_ready c g"
    and norep: "\<not> will_repeat (c_runtimes c ! g)" and r: "complete_one ts g (p, st, c) = (p', st', c')"
  shows "p' \<and> tick_step ts c c' \<and> (st' = st \<or> st' = LatchRunStatus st kInvalidProgram)"
proof -
  note l = live_invD [OF inv] and rd = group_readyD [OF inv g(1) ready]
  let ?rt = "c_runtimes c ! g" and ?c1 = "upd_runtime g GroupRuntime_Reset c"
  let ?p = "rt_parent_group_index ?rt"
  let ?y = "(c_runtimes c ! ?p)\<lparr>rt_child_count := rt_child_count (c_runtimes c ! ?p) - 1\<rparr>"
  note ch = run_ok_complete_child [OF l(7) g(1) rd(1) g(2) rd(2,3) refl refl]
  define c2 where "c2 = upd_runtime ?p (\<lambda>r. r\<lparr>rt_child_count := rt_child_count r - 1\<rparr>) ?c1"
  have pn: "c_runtimes ?c1 ! ?p = c_runtimes c ! ?p" using ch(2) by simp
  have gc1: "c_group_count ?c1 = c_group_count c" by (simp add: upd_runtime_def)
  have res: "p' = True" "st' = st \<or> st' = LatchRunStatus st kInvalidProgram" "c' = c2"
    using r norep rd g(2) ch(1,3,4) gc1 pn
    by (auto simp: complete_one_def Let_def will_repeat_def c2_def simp del: runtimes_upd_runtime)
  have rts: "c_runtimes c2 = (c_runtimes c)[g := GroupRuntime_Reset ?rt, ?p := ?y]"
    using ch(2) by (simp add: c2_def)
  have "live_inv c2"
    using ch(5) l(6) by (intro live_inv_static [OF inv]) (simp_all add: rts, simp_all add: c2_def)
  moreover have "(tick_measure ts c2, tick_measure ts c) \<in> tick_order (prog_calls c)"
  proof (rule reset_measure [OF inv g(1) ready])
    show "c_executing c2 = c_executing c" "c_group_count c2 = c_group_count c" by (simp_all add: c2_def upd_runtime_def)
    have "?y = (c_runtimes c ! ?p)\<lparr>rt_child_count := rt_child_count ?y\<rparr>" by simp
    then show "c_runtimes c2 = (c_runtimes c)[g := GroupRuntime_Reset ?rt]
      \<or> (\<exists>k y. c_runtimes c2 = (c_runtimes c)[g := GroupRuntime_Reset ?rt, k := y]
          \<and> k \<noteq> g \<and> y = (c_runtimes c ! k)\<lparr>rt_child_count := rt_child_count y\<rparr>)"
      using rts ch(2) by blast
  qed
  ultimately show ?thesis using res by (auto simp: tick_step_def c2_def)
qed

lemma complete_one_ok:
  assumes inv: "live_inv c" and g: "g < c_group_count c"
    and r: "complete_one ts g (p, st, c) = (p', st', c')"
  shows "if group_ready c g
    then p' \<and> tick_step ts c c' \<and> (st' = st \<or> st' = LatchRunStatus st kInvalidProgram)
    else p' = p \<and> st' = st \<and> c' = c"
proof (cases "group_ready c g")
  case True
  consider "will_repeat (c_runtimes c ! g)" | "\<not> will_repeat (c_runtimes c ! g)" "g = 0" | "\<not> will_repeat (c_runtimes c ! g)" "g \<noteq> 0" by blast
  then show ?thesis
    using complete_restarts [OF inv g True _ r] complete_root [of c ts p st p' st' c'] complete_child [OF inv g _ True _ r] True inv g r
    by cases auto
qed (use complete_waits [OF inv g] r in simp)

section \<open>Picking due instructions\<close>

lemma exec_capacity:
  assumes "exec_ok indices gc rts ps" "\<And>r i. (r, i) \<in># ps \<Longrightarrow> i < n" "k < n" "k \<notin># image_mset snd ps"
  shows "size ps < n"
proof -
  let ?M = "image_mset snd ps"
  have one: "count ?M i \<le> 1" for i using assms(1) by (simp add: exec_ok_def)
  have "size ps = size ?M" by simp
  also have "\<dots> = (\<Sum>i\<in>set_mset ?M. count ?M i)" by (simp only: size_multiset_overloaded_eq)
  also have "\<dots> \<le> (\<Sum>i\<in>set_mset ?M. 1)" by (intro sum_mono one)
  also have "\<dots> = card (set_mset ?M)" by simp
  also have "\<dots> \<le> card ({..<n} - {k})" using assms(2,4) by (intro card_mono) auto
  also have "\<dots> < n" using assms(3) by simp
  finally show ?thesis .
qed

lemma executing_index:
  assumes inv: "live_inv c" and e: "(r, i) \<in># epairs (c_executing c)"
  obtains p where "r < c_group_count c" "p < rt_cursor (c_runtimes c ! r)"
    "p < gr_instruction_count (c_groups c ! r)" "c_group_indices c ! (gr_index_begin (c_groups c ! r) + p) = i" "i < c_instruction_count c"
proof -
  note l = live_invD [OF inv]
  note f = run_okD [OF l(7)]
  obtain p where p: "r < c_group_count c" "p < rt_cursor (c_runtimes c ! r)"
      "c_group_indices c ! (gr_index_begin (rt_record (c_runtimes c ! r)) + p) = i"
    using f(6) e unfolding exec_ok_def by blast
  have pc: "p < gr_instruction_count (c_groups c ! r)" using p(2) f(8) [OF p(1)] by simp
  show thesis
    using that [OF p(1,2) pc] p(3) pool_index(1) [OF l(8) l(4) p(1) pc] f(7) [OF p(1)] by simp
qed

text \<open>The instruction at the cursor of an active runtime.\<close>

lemma cursor_slot_facts:
  assumes inv: "live_inv c" and g: "g < c_group_count c"
    and room: "rt_cursor (c_runtimes c ! g) < gr_instruction_count (rt_record (c_runtimes c ! g))"
  shows "cursor_slot g c < c_instruction_count c"
    "GetGroupId (map slot_ResetForReplay (c_instructions c) ! cursor_slot g c) = gr_id (c_groups c ! g)"
    "cursor_slot g c \<notin># image_mset snd (epairs (c_executing c))"
    "cursor_slot g c = c_group_indices c ! (gr_index_begin (c_groups c ! g) + rt_cursor (c_runtimes c ! g))"
proof -
  note l = live_invD [OF inv]
  note f = run_okD [OF l(7)]
  have rec: "rt_record (c_runtimes c ! g) = c_groups c ! g" by (rule f(7) [OF g])
  have cnt: "rt_cursor (c_runtimes c ! g) < gr_instruction_count (c_groups c ! g)" using room rec by simp
  show cs: "cursor_slot g c = c_group_indices c ! (gr_index_begin (c_groups c ! g) + rt_cursor (c_runtimes c ! g))"
    by (simp add: cursor_slot_def rec)
  show "cursor_slot g c < c_instruction_count c"
    "GetGroupId (map slot_ResetForReplay (c_instructions c) ! cursor_slot g c) = gr_id (c_groups c ! g)"
    unfolding cs by (rule pool_index [OF l(8) l(4) g cnt])+
  show "cursor_slot g c \<notin># image_mset snd (epairs (c_executing c))"
  proof
    assume "cursor_slot g c \<in># image_mset snd (epairs (c_executing c))"
    then obtain r where "(r, cursor_slot g c) \<in># epairs (c_executing c)" by auto
    then obtain p where p: "r < c_group_count c" "p < rt_cursor (c_runtimes c ! r)"
        "p < gr_instruction_count (c_groups c ! r)" "c_group_indices c ! (gr_index_begin (c_groups c ! r) + p) = cursor_slot g c"
      by (rule executing_index [OF inv])
    have "r = g \<and> p = rt_cursor (c_runtimes c ! g)"
      using pool_index_inj [OF l(8) l(4) p(1,3) g cnt] p(4) cs by simp
    then show False using p(2) by simp
  qed
qed

text \<open>Moving the cursor: the invariant stays, and one instruction less is left in the pass.\<close>

lemma advance_cursor_ok:
  assumes inv: "live_inv c" and g: "g < c_group_count c" and act: "rt_active (c_runtimes c ! g)"
    and room: "rt_cursor (c_runtimes c ! g) < gr_instruction_count (rt_record (c_runtimes c ! g))"
    and due: "\<not> ts - rt_start_time (c_runtimes c ! g) < ucast (GetMark (c_instructions c ! cursor_slot g c))"
  defines "ca \<equiv> advance_cursor g c" and "gc \<equiv> c_group_count c"
  shows "live_inv ca" "static ca = static c" "c_state ca = c_state c" "c_executing ca = c_executing c"
    "rt_active (c_runtimes ca ! g)" "rt_cursor (c_runtimes ca ! g) = rt_cursor (c_runtimes c ! g) + 1"
    "rt_start_time (c_runtimes ca ! g) = rt_start_time (c_runtimes c ! g)"
    "(\<Sum>h<gc. pass_work (c_runtimes ca ! h)) + {# gr_id (c_groups c ! g) #} = (\<Sum>h<gc. pass_work (c_runtimes c ! h))"
    "(\<Sum>h<gc. due_work ts (c_runtimes ca ! h)) < (\<Sum>h<gc. due_work ts (c_runtimes c ! h)) \<or>
     (\<Sum>h<gc. due_work ts (c_runtimes ca ! h)) = (\<Sum>h<gc. due_work ts (c_runtimes c ! h)) \<and>
     (\<Sum>h<gc. flag_work (c_runtimes ca ! h)) = (\<Sum>h<gc. flag_work (c_runtimes c ! h))"
proof -
  note l = live_invD [OF inv]
  note f = run_okD [OF l(7)]
  let ?m = "GetMark (c_instructions c ! cursor_slot g c)"
  define co where "co = (if 0 < ?m then ObservePositiveBoundary g c else c)"
  have ca: "ca = upd_runtime g (\<lambda>r. r\<lparr>rt_cursor := rt_cursor r + 1\<rparr>) co"
    by (simp add: ca_def co_def advance_cursor_def)
  have co: "static co = static c" "c_state co = c_state c" "c_device co = c_device c" "c_executing co = c_executing c"
      "flag_eq (c_runtimes c) (c_runtimes co)"
    by (simp_all add: co_def observe_flags)
  have gl: "g < length (c_runtimes c)" and gcl: "gc \<le> length (c_runtimes c)" using g f(2,3) by (simp_all add: gc_def)
  have lo: "length (c_runtimes co) = length (c_runtimes c)" using co(5) by (simp add: flag_eq_def)
  note fe = flag_eq_fields [OF co(5) gl]
  let ?x = "(c_runtimes co ! g)\<lparr>rt_cursor := rt_cursor (c_runtimes co ! g) + 1\<rparr>"
  have rts: "c_runtimes ca = (c_runtimes co)[g := ?x]" by (simp add: ca)
  show st: "static ca = static c" "c_state ca = c_state c" "c_executing ca = c_executing c" by (simp_all add: ca co)
  have ok: "run_ok (prog_calls c) (c_groups c) (c_group_indices c) (c_group_count c) (c_state c) (c_runtimes co) (epairs (c_executing c))"
    by (rule run_ok_flag [OF l(7) co(5)])
  have "rt_cursor (c_runtimes co ! g) < gr_instruction_count (c_groups c ! g)" using fe f(7) [OF g] room by simp
  from run_ok_advance [OF ok g this] show "live_inv ca"
    using l(6) co st by (intro live_inv_static [OF inv]) (simp_all add: ca)
  show "rt_active (c_runtimes ca ! g)" "rt_cursor (c_runtimes ca ! g) = rt_cursor (c_runtimes c ! g) + 1"
    "rt_start_time (c_runtimes ca ! g) = rt_start_time (c_runtimes c ! g)"
    using fe gl lo act by (simp_all add: rts)
  have gco: "gc \<le> length (c_runtimes co)" "g < gc" using gcl lo g by (simp_all add: gc_def)
  have "pass_work (c_runtimes co ! g) = pass_work ?x + {# gr_id (c_groups c ! g) #}"
    using fe act room f(7) [OF g] by (simp add: pass_work_def Suc_diff_Suc)
  then show "(\<Sum>h<gc. pass_work (c_runtimes ca ! h)) + {# gr_id (c_groups c ! g) #} = (\<Sum>h<gc. pass_work (c_runtimes c ! h))"
    using sum_upd [OF gco(2,1), of pass_work ?x] flag_eq_work(2) [OF co(5) gcl] unfolding rts by simp
  have dw: "due_work ts (c_runtimes co ! g) = due_work ts ?x + (if rt_start_time (c_runtimes c ! g) \<noteq> ts then 1 else 0)"
    using fe act room f(7) [OF g] by (simp add: due_work_def Suc_diff_Suc)
  have dsum: "(\<Sum>h<gc. due_work ts (c_runtimes ca ! h)) + (if rt_start_time (c_runtimes c ! g) \<noteq> ts then 1 else 0)
      = (\<Sum>h<gc. due_work ts (c_runtimes c ! h))"
    using sum_upd [OF gco(2,1), of "due_work ts" ?x] flag_eq_work(1) [OF co(5) gcl, of ts] dw unfolding rts by simp
  show "(\<Sum>h<gc. due_work ts (c_runtimes ca ! h)) < (\<Sum>h<gc. due_work ts (c_runtimes c ! h)) \<or>
     (\<Sum>h<gc. due_work ts (c_runtimes ca ! h)) = (\<Sum>h<gc. due_work ts (c_runtimes c ! h)) \<and>
     (\<Sum>h<gc. flag_work (c_runtimes ca ! h)) = (\<Sum>h<gc. flag_work (c_runtimes c ! h))"
  proof (cases "0 < ?m")
    case True
    then have "(0 :: u32) < ucast ?m" by (simp add: word_less_nat_alt word_nat)
    then have "rt_start_time (c_runtimes c ! g) \<noteq> ts" using due by auto
    then show ?thesis using dsum by simp
  next
    case False
    then have "co = c" by (simp add: co_def)
    then have "(\<Sum>h<gc. flag_work (c_runtimes ca ! h)) = (\<Sum>h<gc. flag_work (c_runtimes c ! h))"
      unfolding rts by (simp only:) (rule sum_upd_same, simp add: flag_work_def)
    then show ?thesis using dsum by (cases "rt_start_time (c_runtimes c ! g) = ts") auto
  qed
qed

lemma mult_replaced:
  assumes "X + {# a #} = Y" "\<And>b. b \<in># K \<Longrightarrow> (b, a) \<in> r"
  shows "(X + K, Y) \<in> mult r"
proof -
  have "Y = add_mset a X" using assms(1) by simp
  then show ?thesis unfolding mult_def mult1_def using assms(2) by blast
qed

text \<open>
  What a dispatch may do after the cursor has moved: the due work and the flags stay, and the pass
  work may grow by groups that the dispatching group calls.
\<close>

lemma dispatch_measure:
  assumes adv: "(\<Sum>h<gc. pass_work (rts1 ! h)) + {# a #} = (\<Sum>h<gc. pass_work (rts ! h))"
      "(\<Sum>h<gc. due_work ts (rts1 ! h)) < (\<Sum>h<gc. due_work ts (rts ! h)) \<or>
       (\<Sum>h<gc. due_work ts (rts1 ! h)) = (\<Sum>h<gc. due_work ts (rts ! h)) \<and>
       (\<Sum>h<gc. flag_work (rts1 ! h)) = (\<Sum>h<gc. flag_work (rts ! h))"
    and more: "(\<Sum>h<gc. due_work ts (rts2 ! h)) = (\<Sum>h<gc. due_work ts (rts1 ! h))"
      "(\<Sum>h<gc. flag_work (rts2 ! h)) = (\<Sum>h<gc. flag_work (rts1 ! h))"
      "(\<Sum>h<gc. pass_work (rts2 ! h)) = (\<Sum>h<gc. pass_work (rts1 ! h)) + K"
    and K: "\<And>b. b \<in># K \<Longrightarrow> (a, b) \<in> cs\<^sup>+"
    and c: "c_group_count c = gc" "c_runtimes c = rts" "c_group_count c' = gc" "c_runtimes c' = rts2"
      "reached ts (c_executing c') = reached ts (c_executing c)"
  shows "(tick_measure ts c', tick_measure ts c) \<in> tick_order cs"
proof -
  have "((\<Sum>h<gc. pass_work (rts1 ! h)) + K, \<Sum>h<gc. pass_work (rts ! h)) \<in> mult ((cs\<^sup>+)\<inverse>)"
    using adv(1) K by (intro mult_replaced) auto
  then show ?thesis
    using adv(2) more c by (auto simp: tick_measure_def tick_order_def)
qed

lemma reached_append:
  "\<not> DeadlineReached ts (ex_deadline e) \<Longrightarrow> reached ts (exs @ [e]) = reached ts exs"
  by (simp add: reached_def)

text \<open>A timed or immediate instruction is dispatched.\<close>

lemma dispatch_execute_ok:
  assumes inv: "live_inv c" and g: "g < c_group_count c" "rt_active (c_runtimes c ! g)"
    and pos: "p < rt_cursor (c_runtimes c ! g)" "c_group_indices c ! (gr_index_begin (c_groups c ! g) + p) = si"
    and si: "si < c_instruction_count c" "si \<notin># image_mset snd (epairs (c_executing c))"
    and plain: "\<not> IsRunGroup (c_instructions c ! si)"
    and r: "DispatchDueInstruction g si ts st c = (started, st', c')"
  shows "\<not> started" "st' = st" "live_inv c'" "static c' = static c"
    "reached ts (c_executing c') = reached ts (c_executing c)"
    "\<exists>k. c_runtimes c' = (c_runtimes c)[g := (c_runtimes c ! g)\<lparr>rt_active_count := k\<rparr>]"
proof -
  note l = live_invD [OF inv]
  note f = run_okD [OF l(7)]
  obtain delay c1 where ex: "execute_slot ts si c = (delay, c1)" by (metis prod.exhaust)
  note x = execute_slot_frame [OF ex l(5)]
  have inv1: "live_inv c1" using inv x l(6,7) by (intro live_inv_static [OF inv]) simp_all
  have "size (epairs (c_executing c)) < c_instruction_count c"
    using si by (intro exec_capacity [OF f(6)]) (auto elim: executing_index [OF inv])
  then have cap: "\<not> kMaxExecuting \<le> length (c_executing c1)"
    using l(4) x(4) by (simp add: epairs_def kMaxExecuting_def)
  have id: "(c_runtimes c)[g := (c_runtimes c ! g)\<lparr>rt_active_count := rt_active_count (c_runtimes c ! g)\<rparr>] = c_runtimes c"
    by simp
  have goal: "\<not> started \<and> st' = st \<and> live_inv c' \<and> static c' = static c
    \<and> reached ts (c_executing c') = reached ts (c_executing c)
    \<and> (\<exists>k. c_runtimes c' = (c_runtimes c)[g := (c_runtimes c ! g)\<lparr>rt_active_count := k\<rparr>])"
  proof (cases "delay = 0")
    case True
    then have "started = False" "st' = st" "c' = c1" using r plain ex by (simp_all add: DispatchDueInstruction_def)
    then show ?thesis using inv1 x id by metis
  next
    case False
    define e where "e = \<lparr>ex_instruction_index = si, ex_runtime_index = g, ex_deadline = ts + delay\<rparr>"
    define c2 where "c2 = upd_runtime g (\<lambda>r. r\<lparr>rt_active_count := rt_active_count r + 1\<rparr>) (c1\<lparr>c_executing := c_executing c1 @ [e]\<rparr>)"
    have res: "started = False" "st' = st" "c' = c2"
      using r plain ex False cap by (simp_all add: DispatchDueInstruction_def c2_def e_def)
    have ep: "epairs (c_executing c2) = add_mset (g, si) (epairs (c_executing c))"
      using x(4) by (simp add: c2_def epairs_def e_def)
    have rts: "c_runtimes c2 = (c_runtimes c)[g := (c_runtimes c ! g)\<lparr>rt_active_count := rt_active_count (c_runtimes c ! g) + 1\<rparr>]"
      using x(3) by (simp add: c2_def)
    have st2: "static c2 = static c" "c_state c2 = c_state c" "c_device c2 = c_device c1" using x by (simp_all add: c2_def)
    have "live_inv c2"
      using run_ok_append [OF l(7) g pos si(2)] st2 x(6) l(6)
      by (intro live_inv_static [OF inv]) (simp_all add: ep rts)
    moreover have "reached ts (c_executing c2) = reached ts (c_executing c)"
      using not_reached [OF False x(5), of ts] x(4) by (simp add: c2_def reached_append e_def)
    ultimately show ?thesis using res rts st2 by blast
  qed
  then show "\<not> started" "st' = st" "live_inv c'" "static c' = static c"
    "reached ts (c_executing c') = reached ts (c_executing c)"
    "\<exists>k. c_runtimes c' = (c_runtimes c)[g := (c_runtimes c ! g)\<lparr>rt_active_count := k\<rparr>]" by blast+
qed

text \<open>A RunGroup resolves to a callee, which starts unless it is active.\<close>

lemma run_group_target:
  assumes inv: "live_inv c" and g: "g < c_group_count c"
    and si: "si < c_instruction_count c" "GetGroupId (map slot_ResetForReplay (c_instructions c) ! si) = gr_id (c_groups c ! g)"
    and run: "IsRunGroup (c_instructions c ! si)"
  obtains t where "FindGroup (c_groups c) (c_group_count c) (GetTargetGroupId (c_instructions c ! si)) = t"
    "t < c_group_count c" "t \<noteq> 0" "t \<noteq> kMaxGroups" "(gr_id (c_groups c ! g), gr_id (c_groups c ! t)) \<in> prog_calls c"
proof -
  note l = live_invD [OF inv]
  note f = run_okD [OF l(7)]
  let ?S = "map slot_ResetForReplay (c_instructions c)" and ?n = "c_instruction_count c"
  have sl: "si < kMaxInstructions" using si(1) l(4) by simp
  note sn = static_nth [OF l(3) sl]
  have run': "IsRunGroup (?S ! si)" using run sn by simp
  have tg: "targets_ok ?S ?n" using l(2) by (simp add: prog_ok_def)
  have t: "table_ok ?S ?n (c_groups c) (c_group_count c)" using l(8) by (simp add: pool_ok_def)
  obtain j where j: "j < ?n" "GetGroupId (?S ! j) = GetTargetGroupId (?S ! si)" and nz: "GetTargetGroupId (?S ! si) \<noteq> 0"
    using tg run' si(1) unfolding targets_ok_def by blast
  obtain k where k: "k < c_group_count c" "gr_id (c_groups c ! k) = GetTargetGroupId (?S ! si)"
      "FindGroup (c_groups c) (c_group_count c) (GetTargetGroupId (?S ! si)) = k"
    using table_owner [OF t j(1)] j(2) by metis
  have "gr_id (c_groups c ! 0) = 0" using t by (simp add: table_ok_def)
  then have k0: "k \<noteq> 0" using k(2) nz by metis
  have "(GetGroupId (?S ! si), GetTargetGroupId (?S ! si)) \<in> prog_calls c"
    using si(1) run' unfolding prog_calls_def calls_def by blast
  then show thesis
    using that [of k] k k0 f(2) si(2) sn(3) by simp
qed

lemma dispatch_run_group_ok:
  assumes inv: "live_inv c" and g: "g < c_group_count c" "rt_active (c_runtimes c ! g)"
    and si: "si < c_instruction_count c" "GetGroupId (map slot_ResetForReplay (c_instructions c) ! si) = gr_id (c_groups c ! g)"
    and run: "IsRunGroup (c_instructions c ! si)"
    and r: "DispatchDueInstruction g si ts st c = (started, st', c')"
  shows "if started
    then st' = st \<and> live_inv c' \<and> static c' = static c \<and> c_executing c' = c_executing c
      \<and> (\<exists>t k n d. t < c_group_count c \<and> t \<noteq> g \<and> \<not> rt_active (c_runtimes c ! t)
          \<and> (gr_id (c_groups c ! g), gr_id (c_groups c ! t)) \<in> prog_calls c
          \<and> n = GetAdditionalRepeats (c_instructions c ! si)
          \<and> c_instructions c' = c_instructions (ResetGroupInstructionReplayState t c)
          \<and> c_runtimes c' = (c_runtimes c)[t := started_runtime ts n g d (c_runtimes c ! t),
                                            g := (c_runtimes c ! g)\<lparr>rt_child_count := k\<rparr>])
    else st' = LatchRunStatus st kAlreadyActiveGroup \<and> c' = c"
proof -
  note l = live_invD [OF inv]
  note f = run_okD [OF l(7)]
  obtain t where t: "FindGroup (c_groups c) (c_group_count c) (GetTargetGroupId (c_instructions c ! si)) = t"
    "t < c_group_count c" "t \<noteq> 0" "t \<noteq> kMaxGroups" "(gr_id (c_groups c ! g), gr_id (c_groups c ! t)) \<in> prog_calls c"
    by (rule run_group_target [OF inv g(1) si run])
  show ?thesis
  proof (cases "rt_active (c_runtimes c ! t)")
    case True
    then show ?thesis using r run t by (simp add: DispatchDueInstruction_def Let_def)
  next
    case False
    let ?d = "rt_depth (c_runtimes c ! g) + 1" and ?n = "GetAdditionalRepeats (c_instructions c ! si)"
    have tl: "t < length (c_runtimes c)" and gk: "g \<noteq> kMaxGroups" and tg: "t \<noteq> g"
      using t g f(2,3) False by auto
    have d: "?d = (if g = kMaxGroups then 0 else (rt_depth (c_runtimes c ! g) + 1) mod 256)"
      using depth_bound [OF l(7) g] f(2) gk by (simp add: capacity_simps)
    have par: "g = kMaxGroups \<or> g < c_group_count c \<and> rt_active (c_runtimes c ! g) \<and> g \<noteq> t" using g tg by auto
    obtain c1 where c1: "StartGroupRuntime t ts ?n g c = (True, c1)" "static c1 = static c" "c_state c1 = c_state c"
        "c_executing c1 = c_executing c" "c_device c1 = c_device c"
        "c_runtimes c1 = (c_runtimes c)[t := started_runtime ts ?n g ?d (c_runtimes c ! t)]"
        "c_instructions c1 = c_instructions (ResetGroupInstructionReplayState t c)"
      using StartGroupRuntime_ok [OF t(2) tl par d, of ts ?n] by blast
    define c2 where "c2 = upd_runtime g (\<lambda>r. r\<lparr>rt_child_count := rt_child_count r + 1\<rparr>) c1"
    have res: "started" "st' = st" "c' = c2"
      using r run t False c1(1) by (simp_all add: DispatchDueInstruction_def Let_def c2_def)
    have rts: "c_runtimes c2 = (c_runtimes c)[t := started_runtime ts ?n g ?d (c_runtimes c ! t),
        g := (c_runtimes c ! g)\<lparr>rt_child_count := rt_child_count (c_runtimes c ! g) + 1\<rparr>]"
      using tg by (simp add: c2_def c1(6))
    have "live_inv c2"
      using run_ok_child [OF l(7) g t(2,3) False t(5) refl, of ts ?n] c1 l(6)
      by (intro live_inv_static [OF inv]) (simp_all add: rts, simp_all add: c2_def)
    moreover have "c_instructions c2 = c_instructions (ResetGroupInstructionReplayState t c)"
      using c1(7) by (simp add: c2_def upd_runtime_def)
    ultimately show ?thesis
      using res rts c1 t(2,5) tg False unfolding c2_def by (simp del: runtimes_upd_runtime) blast
  qed
qed

text \<open>
  What dispatching the instruction under the cursor does to the measure, from the state in which the
  cursor has moved on: nothing, but for the labels \<open>K\<close> of a group that was started.
\<close>

definition dispatched :: "u32 \<Rightarrow> nat \<Rightarrow> 'mb Controller \<Rightarrow> 'mb Controller \<Rightarrow> GroupId multiset \<Rightarrow> bool" where
  "dispatched ts g ca c' K \<longleftrightarrow> live_inv c' \<and> static c' = static ca
     \<and> reached ts (c_executing c') = reached ts (c_executing ca)
     \<and> (\<Sum>h<c_group_count ca. due_work ts (c_runtimes c' ! h)) = (\<Sum>h<c_group_count ca. due_work ts (c_runtimes ca ! h))
     \<and> (\<Sum>h<c_group_count ca. flag_work (c_runtimes c' ! h)) = (\<Sum>h<c_group_count ca. flag_work (c_runtimes ca ! h))
     \<and> (\<Sum>h<c_group_count ca. pass_work (c_runtimes c' ! h)) = (\<Sum>h<c_group_count ca. pass_work (c_runtimes ca ! h)) + K
     \<and> (\<forall>b. b \<in># K \<longrightarrow> (gr_id (c_groups ca ! g), b) \<in> (prog_calls ca)\<^sup>+)"

lemma pick_instruction:
  assumes inv: "live_inv c" and g: "g < c_group_count c" and act: "rt_active (c_runtimes c ! g)"
    and room: "rt_cursor (c_runtimes c ! g) < gr_instruction_count (rt_record (c_runtimes c ! g))"
    and due: "\<not> ts - rt_start_time (c_runtimes c ! g) < ucast (GetMark (c_instructions c ! cursor_slot g c))"
    and r: "DispatchDueInstruction g (cursor_slot g c) ts st (advance_cursor g c) = (started, st', c')"
    and kind: "\<not> IsRunGroup (c_instructions (advance_cursor g c) ! cursor_slot g c)"
  shows "\<not> started \<and> st' = st \<and> dispatched ts g (advance_cursor g c) c' {#}
    \<and> rt_active (c_runtimes c' ! g) \<and> rt_start_time (c_runtimes c' ! g) = rt_start_time (c_runtimes c ! g)"
proof -
  let ?ca = "advance_cursor g c" and ?si = "cursor_slot g c" and ?gc = "c_group_count c"
  note a = advance_cursor_ok [OF inv g act room due]
  note s = cursor_slot_facts [OF inv g room]
  note f = run_okD [OF live_invD(7) [OF a(1)]]
  have st: "c_group_count ?ca = ?gc" "c_groups ?ca = c_groups c" "c_group_indices ?ca = c_group_indices c"
      "c_instruction_count ?ca = c_instruction_count c"
      "map slot_ResetForReplay (c_instructions ?ca) = map slot_ResetForReplay (c_instructions c)"
    using a(2) by (simp_all add: static_def program_def)
  have gca: "g < c_group_count ?ca" using g st(1) by simp
  have pos: "rt_cursor (c_runtimes c ! g) < rt_cursor (c_runtimes ?ca ! g)"
    "c_group_indices ?ca ! (gr_index_begin (c_groups ?ca ! g) + rt_cursor (c_runtimes c ! g)) = ?si"
    using a(6) s(4) st by simp_all
  note d = dispatch_execute_ok [OF a(1) gca a(5) pos _ _ kind r]
  have d': "\<not> started" "st' = st" "live_inv c'" "static c' = static ?ca"
      "reached ts (c_executing c') = reached ts (c_executing ?ca)"
      "\<exists>k. c_runtimes c' = (c_runtimes ?ca)[g := (c_runtimes ?ca ! g)\<lparr>rt_active_count := k\<rparr>]"
    using d s(1,3) st(4) a(4) by simp_all
  then obtain k where k: "c_runtimes c' = (c_runtimes ?ca)[g := (c_runtimes ?ca ! g)\<lparr>rt_active_count := k\<rparr>]" by blast
  have "(\<Sum>h<m. due_work ts (c_runtimes c' ! h)) = (\<Sum>h<m. due_work ts (c_runtimes ?ca ! h))"
    "(\<Sum>h<m. flag_work (c_runtimes c' ! h)) = (\<Sum>h<m. flag_work (c_runtimes ?ca ! h))"
    "(\<Sum>h<m. pass_work (c_runtimes c' ! h)) = (\<Sum>h<m. pass_work (c_runtimes ?ca ! h))" for m
    unfolding k by (rule sum_upd_same, simp add: due_work_def flag_work_def pass_work_def)+
  then have "dispatched ts g ?ca c' {#}" using d' by (simp add: dispatched_def)
  moreover have "g < length (c_runtimes ?ca)" using gca f(2,3) by simp
  ultimately show ?thesis using d' a(5,7) by (simp add: k)
qed

lemma pick_run_group:
  assumes inv: "live_inv c" and g: "g < c_group_count c" and act: "rt_active (c_runtimes c ! g)"
    and room: "rt_cursor (c_runtimes c ! g) < gr_instruction_count (rt_record (c_runtimes c ! g))"
    and due: "\<not> ts - rt_start_time (c_runtimes c ! g) < ucast (GetMark (c_instructions c ! cursor_slot g c))"
    and r: "DispatchDueInstruction g (cursor_slot g c) ts st (advance_cursor g c) = (started, st', c')"
    and kind: "IsRunGroup (c_instructions (advance_cursor g c) ! cursor_slot g c)"
  shows "(tick_status st \<longrightarrow> tick_status st') \<and> (\<exists>K. dispatched ts g (advance_cursor g c) c' K)
    \<and> (\<not> started \<longrightarrow> rt_active (c_runtimes c' ! g) \<and> rt_start_time (c_runtimes c' ! g) = rt_start_time (c_runtimes c ! g))"
proof -
  let ?ca = "advance_cursor g c" and ?si = "cursor_slot g c" and ?gc = "c_group_count c"
  note a = advance_cursor_ok [OF inv g act room due]
  note s = cursor_slot_facts [OF inv g room]
  note f = run_okD [OF live_invD(7) [OF a(1)]]
  have st: "c_group_count ?ca = ?gc" "c_groups ?ca = c_groups c" "c_group_indices ?ca = c_group_indices c"
      "c_instruction_count ?ca = c_instruction_count c"
      "map slot_ResetForReplay (c_instructions ?ca) = map slot_ResetForReplay (c_instructions c)"
    using a(2) by (simp_all add: static_def program_def)
  have gca: "g < c_group_count ?ca" using g st(1) by simp
  have gl: "?gc \<le> length (c_runtimes ?ca)" using f(2,3) st(1) by simp
  have sid: "?si < c_instruction_count ?ca"
    "GetGroupId (map slot_ResetForReplay (c_instructions ?ca) ! ?si) = gr_id (c_groups ?ca ! g)"
    using s(1,2) st by simp_all
  note d = dispatch_run_group_ok [OF a(1) gca a(5) sid kind r]
  show ?thesis
  proof (cases started)
    case False
    then have "dispatched ts g ?ca c' {#}" using d a by (simp add: dispatched_def)
    then show ?thesis using False d a by auto
  next
    case started: True
    then obtain t k n dd where t: "t < ?gc" "t \<noteq> g" "\<not> rt_active (c_runtimes ?ca ! t)"
        "(gr_id (c_groups ?ca ! g), gr_id (c_groups ?ca ! t)) \<in> prog_calls ?ca"
        "c_runtimes c' = (c_runtimes ?ca)[t := started_runtime ts n g dd (c_runtimes ?ca ! t),
           g := (c_runtimes ?ca ! g)\<lparr>rt_child_count := k\<rparr>]"
      and d': "st' = st" "live_inv c'" "static c' = static ?ca" "c_executing c' = c_executing ?ca"
      using d st by auto
    let ?x = "started_runtime ts n g dd (c_runtimes ?ca ! t)" and ?q = "(c_runtimes ?ca)[t := started_runtime ts n g dd (c_runtimes ?ca ! t)]"
    have none: "due_work ts (c_runtimes ?ca ! t) = 0" "flag_work (c_runtimes ?ca ! t) = 0" "pass_work (c_runtimes ?ca ! t) = {#}"
      using t(3) by (simp_all add: due_work_def flag_work_def pass_work_def)
    have y: "due_work ts ((c_runtimes ?ca ! g)\<lparr>rt_child_count := k\<rparr>) = due_work ts (?q ! g)"
        "flag_work ((c_runtimes ?ca ! g)\<lparr>rt_child_count := k\<rparr>) = flag_work (?q ! g)"
        "pass_work ((c_runtimes ?ca ! g)\<lparr>rt_child_count := k\<rparr>) = pass_work (?q ! g)"
      using t(2) by (simp_all add: due_work_def flag_work_def pass_work_def)
    have rec: "rt_record (c_runtimes ?ca ! t) = c_groups ?ca ! t" using f(7) [of t] t(1) st by simp
    let ?K = "replicate_mset (gr_instruction_count (c_groups ?ca ! t) + 1) (gr_id (c_groups ?ca ! t))"
    have "(\<Sum>h<?gc. due_work ts (c_runtimes c' ! h)) = (\<Sum>h<?gc. due_work ts (c_runtimes ?ca ! h))"
      unfolding t(5) sum_upd_same [where F = "due_work ts", OF y(1)]
      using sum_upd [OF t(1) gl, of "due_work ts" ?x] by (simp add: started_runtime_work none)
    moreover have "(\<Sum>h<?gc. flag_work (c_runtimes c' ! h)) = (\<Sum>h<?gc. flag_work (c_runtimes ?ca ! h))"
      unfolding t(5) sum_upd_same [where F = flag_work, OF y(2)]
      using sum_upd [OF t(1) gl, of flag_work ?x] by (simp add: started_runtime_work none)
    moreover have "(\<Sum>h<?gc. pass_work (c_runtimes c' ! h)) = (\<Sum>h<?gc. pass_work (c_runtimes ?ca ! h)) + ?K"
      unfolding t(5) sum_upd_same [where F = pass_work, OF y(3)]
      using sum_upd [OF t(1) gl, of pass_work ?x] by (simp add: started_runtime_work none rec)
    moreover have "\<forall>b. b \<in># ?K \<longrightarrow> (gr_id (c_groups ?ca ! g), b) \<in> (prog_calls ?ca)\<^sup>+"
      using t(4) by (auto simp: in_replicate_mset)
    ultimately have "dispatched ts g ?ca c' ?K" using d' st(1) by (simp add: dispatched_def)
    then show ?thesis using d'(1) started by blast
  qed
qed

lemma pick_step_ok:
  assumes inv: "live_inv c" and g: "g < c_group_count c" and act: "rt_active (c_runtimes c ! g)"
    and room: "rt_cursor (c_runtimes c ! g) < gr_instruction_count (rt_record (c_runtimes c ! g))"
    and due: "\<not> ts - rt_start_time (c_runtimes c ! g) < ucast (GetMark (c_instructions c ! cursor_slot g c))"
    and r: "DispatchDueInstruction g (cursor_slot g c) ts st (advance_cursor g c) = (started, st', c')"
  shows "tick_step ts c c'" "tick_status st \<Longrightarrow> tick_status st'"
    "\<not> started \<Longrightarrow> rt_active (c_runtimes c' ! g) \<and> rt_start_time (c_runtimes c' ! g) = rt_start_time (c_runtimes c ! g)"
proof -
  let ?ca = "advance_cursor g c"
  note a = advance_cursor_ok [OF inv g act room due]
  have goal: "(\<exists>K. dispatched ts g ?ca c' K) \<and> (tick_status st \<longrightarrow> tick_status st')
      \<and> (\<not> started \<longrightarrow> rt_active (c_runtimes c' ! g) \<and> rt_start_time (c_runtimes c' ! g) = rt_start_time (c_runtimes c ! g))"
    using pick_instruction [OF inv g act room due r] pick_run_group [OF inv g act room due r] by blast
  then show "tick_status st \<Longrightarrow> tick_status st'"
    "\<not> started \<Longrightarrow> rt_active (c_runtimes c' ! g) \<and> rt_start_time (c_runtimes c' ! g) = rt_start_time (c_runtimes c ! g)"
    by blast+
  from goal obtain K where K: "dispatched ts g ?ca c' K" by blast
  have st: "c_group_count ?ca = c_group_count c" "c_groups ?ca = c_groups c" "prog_calls ?ca = prog_calls c"
    using a(2) prog_calls_static [OF a(2)] by (simp_all add: static_def program_def)
  note d = K [unfolded dispatched_def st]
  have "c_group_count c' = c_group_count c" using d a(2) by (simp add: static_def program_def)
  then have "(tick_measure ts c', tick_measure ts c) \<in> tick_order (prog_calls c)"
    using dispatch_measure [OF a(8,9), where c = c and c' = c' and cs = "prog_calls c" and ?rts2.0 = "c_runtimes c'" and K = K] d a(4) by simp
  then show "tick_step ts c c'" using d a(2) by (simp add: tick_step_def)
qed

end
