(* ===== verification/Ticks.thy ===== *)
theory Ticks
  imports ControllerInv
begin

text \<open>
  The loops of a progress tick. The pieces of progress (an executing instruction resumed, a group
  completed or repeated, a due instruction consumed) are the interface: a client names an invariant
  and a well-founded order that every piece keeps and descends, and gets that the tick keeps and
  descends them, returns, and leaves nothing due. The first client is the measure of
  \<^theory_text>\<open>ControllerInv\<close>, which gives that Run always returns; the second, in
  \<^theory_text>\<open>Completion\<close>, is the work left in a whole program.
\<close>

section \<open>Nothing left to do\<close>

text \<open>A runtime has nothing due: its pass is over, or its next mark lies ahead.\<close>

definition nothing_due :: "u32 \<Rightarrow> 'mb Controller \<Rightarrow> nat \<Rightarrow> bool" where
  "nothing_due ts c g \<longleftrightarrow>
     rt_cursor (c_runtimes c ! g) < gr_instruction_count (rt_record (c_runtimes c ! g)) \<longrightarrow>
     ts - rt_start_time (c_runtimes c ! g) < ucast (GetMark (c_instructions c ! cursor_slot g c))"

text \<open>Nothing is left to do at this timestamp.\<close>

definition quiescent :: "u32 \<Rightarrow> 'mb Controller \<Rightarrow> bool" where
  "quiescent ts c \<longleftrightarrow>
     (\<forall>e\<in>set (c_executing c). \<not> DeadlineReached ts (ex_deadline e)) \<and>
     (\<forall>g < c_group_count c. \<not> group_ready c g) \<and>
     (\<forall>g < c_group_count c. rt_active (c_runtimes c ! g) \<longrightarrow> nothing_due ts c g)"

section \<open>The loops, over any order that the pieces descend\<close>

definition round_part ::
  "('mb Controller \<Rightarrow> bool) \<Rightarrow> ('mb Controller \<times> 'mb Controller) set \<Rightarrow> 'mb Controller \<Rightarrow> bool \<Rightarrow> 'mb Controller \<Rightarrow> bool" where
  "round_part P R c p c' \<longleftrightarrow> P c' \<and> (if p then (c', c) \<in> R else c' = c)"

locale round_steps =
  fixes P :: "'mb Controller \<Rightarrow> bool" and R :: "('mb Controller \<times> 'mb Controller) set"
    and ts :: u32 and gc :: nat
  assumes live: "P c \<Longrightarrow> live_inv c \<and> c_group_count c = gc"
    and wf_R: "wf R" and trans_R: "trans R"
    and drain_step: "P c \<Longrightarrow> i < length (c_executing c) \<Longrightarrow> DeadlineReached ts (ex_deadline (c_executing c ! i)) \<Longrightarrow>
      drain_one ts i st c = (i', p, st', c') \<Longrightarrow> P c' \<and> (c', c) \<in> R"
    and complete_step: "P c \<Longrightarrow> g < gc \<Longrightarrow> group_ready c g \<Longrightarrow>
      complete_one ts g (p, st, c) = (p', st', c') \<Longrightarrow> P c' \<and> (c', c) \<in> R"
    and pick_step: "P c \<Longrightarrow> g < gc \<Longrightarrow> rt_active (c_runtimes c ! g) \<Longrightarrow> \<not> nothing_due ts c g \<Longrightarrow>
      DispatchDueInstruction g (cursor_slot g c) ts st (advance_cursor g c) = (started, st', c') \<Longrightarrow>
      P c' \<and> (c', c) \<in> R"
begin

lemma part_refl: "P c \<Longrightarrow> round_part P R c False c"
  by (simp add: round_part_def)

lemma part_trans: "round_part P R c p c1 \<Longrightarrow> round_part P R c1 q c2 \<Longrightarrow> round_part P R c (p \<or> q) c2"
  using transD [OF trans_R, of c2 c1 c] unfolding round_part_def by (cases p; cases q) auto

lemma drain_loop:
  assumes "P c" "drain_loop timestamp i p st c = (p', st', c')" "timestamp = ts"
  shows "st' = st \<and> (\<exists>q. p' = (p \<or> q) \<and> round_part P R c q c'
     \<and> (\<not> q \<longrightarrow> (\<forall>j<length (c_executing c). i \<le> j \<longrightarrow> \<not> DeadlineReached ts (ex_deadline (c_executing c ! j)))))"
  using assms
proof (induction timestamp i p st c rule: drain_loop.induct)
  case (1 timestamp i p st c)
  note ts = 1(4)
  show ?case
  proof (cases "i < length (c_executing c)")
    case False
    then have "p' = p" "st' = st" "c' = c" using 1(3) by (simp_all add: drain_loop.simps [of timestamp i p st c])
    then show ?thesis using False part_refl [OF 1(2)] by (intro conjI exI [of _ False]) simp_all
  next
    case True
    obtain i1 q st1 c1 where d: "drain_one timestamp i st c = (i1, q, st1, c1)" by (metis prod.exhaust)
    have one: "st1 = st" "if DeadlineReached timestamp (ex_deadline (c_executing c ! i)) then q else \<not> q \<and> c1 = c \<and> i1 = i + 1"
      using drain_one_ok [OF _ True d] live [OF 1(2)] by (auto split: if_splits)
    have part: "round_part P R c q c1"
      using one(2) drain_step [OF 1(2) True _ d [unfolded ts]] 1(2) ts by (auto simp: round_part_def split: if_splits)
    have "drain_loop timestamp i1 (p \<or> q) st1 c1 = (p', st', c')"
      using 1(3) True d by (simp add: drain_loop.simps [of timestamp i p st c])
    from 1(1) [OF True d [symmetric] refl refl _ this ts] part ts
    obtain q' where rec: "st' = st1" "p' = ((p \<or> q) \<or> q')" "round_part P R c1 q' c'"
        "\<not> q' \<longrightarrow> (\<forall>j<length (c_executing c1). i1 \<le> j \<longrightarrow> \<not> DeadlineReached timestamp (ex_deadline (c_executing c1 ! j)))"
      by (auto simp: round_part_def)
    have "\<forall>j<length (c_executing c). i \<le> j \<longrightarrow> \<not> DeadlineReached timestamp (ex_deadline (c_executing c ! j))"
      if "\<not> (q \<or> q')"
    proof (intro allI impI)
      fix j assume j: "j < length (c_executing c)" "i \<le> j"
      show "\<not> DeadlineReached timestamp (ex_deadline (c_executing c ! j))"
        using that one(2) rec(4) j by (cases "j = i") (auto split: if_splits)
    qed
    then show ?thesis
      using rec one(1) part_trans [OF part rec(3)] ts by (intro conjI exI [of _ "q \<or> q'"]) auto
  qed
qed

lemma DrainExecuting:
  assumes "P c" "DrainExecuting ts st c = (p, st', c')"
  shows "st' = st" "round_part P R c p c'"
    "\<not> p \<Longrightarrow> \<forall>e\<in>set (c_executing c). \<not> DeadlineReached ts (ex_deadline e)"
  using drain_loop [OF assms(1) assms(2) [unfolded DrainExecuting_def] refl]
  by (auto simp: in_set_conv_nth)

lemma CompleteReadyGroups:
  assumes P: "P c" and r: "CompleteReadyGroups ts st c = (p, st', c')"
  shows "round_part P R c p c'" "tick_status st \<Longrightarrow> tick_status st'"
    "\<not> p \<Longrightarrow> st' = st \<and> (\<forall>g < gc. \<not> group_ready c g)"
proof -
  let ?Q = "\<lambda>k (p, st1, c1). round_part P R c p c1 \<and> (tick_status st \<longrightarrow> tick_status st1)
      \<and> (\<not> p \<longrightarrow> st1 = st \<and> (\<forall>g<k. \<not> group_ready c g))"
  have "?Q 0 (False, st, c)" using part_refl [OF P] by simp
  then have "?Q gc (fold (complete_one ts) [0..<gc] (False, st, c))"
  proof (rule fold_upt_invariant [where P = "?Q"])
    fix k s assume k: "k < gc" and inv1: "?Q k s"
    obtain p1 st1 c1 where s: "s = (p1, st1, c1)" by (cases s)
    have c1: "round_part P R c p1 c1" "P c1" using inv1 by (simp_all add: s round_part_def)
    obtain p2 st2 c2 where o: "complete_one ts k (p1, st1, c1) = (p2, st2, c2)" by (metis prod.exhaust)
    have q: "if group_ready c1 k then p2 \<and> (st2 = st1 \<or> st2 = LatchRunStatus st1 kInvalidProgram)
        else p2 = p1 \<and> st2 = st1 \<and> c2 = c1"
      using complete_one_ok [OF _ _ o] live [OF c1(2)] k by (auto split: if_splits)
    have part: "round_part P R c1 (group_ready c1 k) c2"
      using q complete_step [OF c1(2) k _ o] c1(2) by (auto simp: round_part_def split: if_splits)
    have old: "tick_status st \<longrightarrow> tick_status st1" "\<not> p1 \<longrightarrow> st1 = st \<and> (\<forall>g<k. \<not> group_ready c g)"
      using inv1 by (simp_all add: s)
    have same: "p1 \<or> c1 = c" using c1(1) by (simp add: round_part_def split: if_splits)
    have p2: "p2 = (p1 \<or> group_ready c1 k)" using q by (auto split: if_splits)
    have "tick_status st \<longrightarrow> tick_status st2" using old(1) q tick_status_latch(1) by metis
    moreover have "\<not> p2 \<longrightarrow> st2 = st \<and> (\<forall>g<Suc k. \<not> group_ready c g)"
      using q p2 old(2) same by (auto simp: less_Suc_eq)
    ultimately show "?Q (Suc k) (complete_one ts k s)"
      using part_trans [OF c1(1) part] by (simp add: s o p2)
  qed
  then have "?Q gc (p, st', c')" using r live [OF P] by (simp add: CompleteReadyGroups_def)
  then show "round_part P R c p c'" "tick_status st \<Longrightarrow> tick_status st'"
    "\<not> p \<Longrightarrow> st' = st \<and> (\<forall>g < gc. \<not> group_ready c g)" by auto
qed

lemma pick_runtime:
  assumes "P c" "g < gc" "rt_active (c_runtimes c ! g)"
    and "elapsed = timestamp - rt_start_time (c_runtimes c ! g)"
    and "pick_runtime timestamp g elapsed p st c = (started, p', st', c')" and "timestamp = ts"
  shows "\<exists>q. p' = (p \<or> q) \<and> round_part P R c q c' \<and> (tick_status st \<longrightarrow> tick_status st')
    \<and> (started \<longrightarrow> p') \<and> (\<not> q \<longrightarrow> \<not> started \<and> st' = st \<and> nothing_due ts c g)"
  using assms
proof (induction timestamp g elapsed p st c rule: pick_runtime.induct)
  case (1 timestamp g elapsed p st c)
  note P = 1(2) and g = 1(3) and act = 1(4) and el = 1(5) and ts = 1(7)
  have inv: "live_inv c" and gcc: "g < c_group_count c" using live [OF P] g by simp_all
  have gl: "g < length (c_runtimes c)" using gcc run_okD(2,3) [OF live_invD(7) [OF inv]] by simp
  note unf = pick_runtime.simps [of timestamp g elapsed p st c]
  show ?case
  proof (cases "nothing_due timestamp c g")
    case True
    then have "started = False" "p' = p" "st' = st" "c' = c"
      using 1(6) gl el unfolding unf by (auto simp: nothing_due_def split: if_splits)
    then show ?thesis using True part_refl [OF P] ts by (intro exI [of _ False]) simp
  next
    case nd: False
    then have room: "rt_cursor (c_runtimes c ! g) < gr_instruction_count (rt_record (c_runtimes c ! g))"
      and due: "\<not> timestamp - rt_start_time (c_runtimes c ! g) < ucast (GetMark (c_instructions c ! cursor_slot g c))"
      by (simp_all add: nothing_due_def)
    obtain s1 st1 c1 where d: "DispatchDueInstruction g (cursor_slot g c) timestamp st (advance_cursor g c) = (s1, st1, c1)"
      by (metis prod.exhaust)
    note ok = pick_step_ok [OF inv gcc act room due d] and step = pick_step [OF P g act nd [unfolded ts] d [unfolded ts]]
    have part: "round_part P R c True c1" using step by (simp add: round_part_def)
    show ?thesis
    proof (cases s1)
      case True
      then have "started" "p'" "st' = st1" "c' = c1"
        using 1(6) gl room due el d unfolding unf by simp_all
      then show ?thesis using ok(2) part by (intro exI [of _ True]) simp
    next
      case False
      have rec: "pick_runtime timestamp g elapsed True st1 c1 = (started, p', st', c')"
        using 1(6) gl room due el d False unfolding unf by simp
      obtain q where q: "p' = (True \<or> q)" "round_part P R c1 q c'" "tick_status st1 \<longrightarrow> tick_status st'"
        using 1(1) [OF conjI [OF gl room] _ d [symmetric] refl False] step due el g ok(3) [OF False] rec ts by auto
      show ?thesis
        using q ok(2) part_trans [OF part q(2)] by (intro exI [of _ True]) auto
    qed
  qed
qed

lemma pick_scan:
  assumes "P c" "\<forall>(d, g) \<in> set ps. g < gc" "pick_scan ts ps p st c = (p', st', c')"
  shows "\<exists>q. p' = (p \<or> q) \<and> round_part P R c q c' \<and> (tick_status st \<longrightarrow> tick_status st')
    \<and> (\<not> q \<longrightarrow> st' = st \<and> (\<forall>(d, g) \<in> set ps. rt_active (c_runtimes c ! g) \<longrightarrow> rt_depth (c_runtimes c ! g) = d \<longrightarrow> nothing_due ts c g))"
  using assms
proof (induction ps arbitrary: p st c)
  case Nil
  then show ?case using part_refl [of c] by (intro exI [of _ False]) simp
next
  case (Cons x ps)
  obtain d g where x: "x = (d, g)" by (cases x)
  have g: "g < gc" and rest: "\<forall>(d, g) \<in> set ps. g < gc" using Cons.prems(2) x by auto
  show ?case
  proof (cases "rt_active (c_runtimes c ! g) \<and> rt_depth (c_runtimes c ! g) = d")
    case False
    then have "pick_scan ts ps p st c = (p', st', c')" using Cons.prems(3) x by auto
    from Cons.IH [OF Cons.prems(1) rest this] False show ?thesis using x by auto
  next
    case True
    obtain s1 p1 st1 c1 where k: "pick_runtime ts g (ts - rt_start_time (c_runtimes c ! g)) p st c = (s1, p1, st1, c1)"
      by (metis prod.exhaust)
    have act: "rt_active (c_runtimes c ! g)" using True by simp
    obtain q where q: "p1 = (p \<or> q)" "round_part P R c q c1" "tick_status st \<longrightarrow> tick_status st1" "s1 \<longrightarrow> p1"
        "\<not> q \<longrightarrow> \<not> s1 \<and> st1 = st \<and> nothing_due ts c g"
      using pick_runtime [OF Cons.prems(1) g act refl k refl] by blast
    show ?thesis
    proof (cases s1)
      case s: True
      then have "p'" "st' = st1" "c' = c1" using Cons.prems(3) x True k by simp_all
      then show ?thesis using q s by (intro exI [of _ True]) auto
    next
      case s: False
      have rec: "pick_scan ts ps p1 st1 c1 = (p', st', c')" using Cons.prems(3) x True k s by simp
      have c1: "P c1" using q(2) by (simp add: round_part_def)
      obtain q' where q': "p' = (p1 \<or> q')" "round_part P R c1 q' c'" "tick_status st1 \<longrightarrow> tick_status st'"
          "\<not> q' \<longrightarrow> st' = st1 \<and> (\<forall>(d, g) \<in> set ps. rt_active (c_runtimes c1 ! g) \<longrightarrow> rt_depth (c_runtimes c1 ! g) = d \<longrightarrow> nothing_due ts c1 g)"
        using Cons.IH [OF c1 rest rec] by auto
      have same: "\<not> q \<longrightarrow> c1 = c" using q(2) by (simp add: round_part_def)
      have "\<not> (q \<or> q') \<longrightarrow> st' = st \<and> (\<forall>(d, g) \<in> set (x # ps). rt_active (c_runtimes c ! g) \<longrightarrow> rt_depth (c_runtimes c ! g) = d \<longrightarrow> nothing_due ts c g)"
        using q(5) q'(4) same x by auto
      then show ?thesis using q(1,3) q'(1,3) part_trans [OF q(2) q'(2)] by (intro exI [of _ "q \<or> q'"]) auto
    qed
  qed
qed

lemma PickDueInstructions:
  assumes P: "P c" and r: "PickDueInstructions ts st c = (p, st', c')"
  shows "round_part P R c p c'" "tick_status st \<Longrightarrow> tick_status st'"
    "\<not> p \<Longrightarrow> st' = st \<and> (\<forall>g < gc. rt_active (c_runtimes c ! g) \<longrightarrow> nothing_due ts c g)"
proof -
  have l: "live_inv c" "c_group_count c = gc" using live [OF P] by simp_all
  let ?ps = "List.product (rev [0..<gc]) [0..<gc]"
  have ps: "\<forall>(d, g) \<in> set ?ps. g < gc" by auto
  obtain q where q: "p = (False \<or> q)" "round_part P R c q c'" "tick_status st \<longrightarrow> tick_status st'"
      "\<not> q \<longrightarrow> st' = st \<and> (\<forall>(d, g) \<in> set ?ps. rt_active (c_runtimes c ! g) \<longrightarrow> rt_depth (c_runtimes c ! g) = d \<longrightarrow> nothing_due ts c g)"
    using pick_scan [OF P ps r [unfolded PickDueInstructions_def l(2)]] by blast
  then show "round_part P R c p c'" "tick_status st \<Longrightarrow> tick_status st'" by simp_all
  have dep: "(rt_depth (c_runtimes c ! g), g) \<in> set ?ps" if "g < gc" "rt_active (c_runtimes c ! g)" for g
    using depth_bound [OF live_invD(7) [OF l(1)], of g] that l(2) by auto
  assume "\<not> p"
  then show "st' = st \<and> (\<forall>g < gc. rt_active (c_runtimes c ! g) \<longrightarrow> nothing_due ts c g)"
    using q dep by fastforce
qed

lemma progress_round:
  assumes P: "P c" and r: "progress_round ts st c = (p, st', c')"
  shows "round_part P R c p c'" "tick_status st \<Longrightarrow> tick_status st'" "\<not> p \<Longrightarrow> st' = st \<and> quiescent ts c"
proof -
  obtain p1 st1 c1 where d: "DrainExecuting ts st c = (p1, st1, c1)" by (metis prod.exhaust)
  obtain p2 st2 c2 where k: "CompleteReadyGroups ts st1 c1 = (p2, st2, c2)" by (metis prod.exhaust)
  obtain p3 st3 c3 where i: "PickDueInstructions ts st2 c2 = (p3, st3, c3)" by (metis prod.exhaust)
  have res: "p = (p3 \<or> p2 \<or> p1)" "st' = st3" "c' = c3" using r d k i by (simp_all add: progress_round_def)
  note D = DrainExecuting [OF P d]
  have P1: "P c1" using D(2) by (simp add: round_part_def)
  note K = CompleteReadyGroups [OF P1 k]
  have P2: "P c2" using K(1) by (simp add: round_part_def)
  note I = PickDueInstructions [OF P2 i]
  show "round_part P R c p c'"
    using part_trans [OF part_trans [OF D(2) K(1)] I(1)] res by (simp add: disj_ac)
  show "tick_status st \<Longrightarrow> tick_status st'" using D(1) K(2) I(2) res by simp
  assume np: "\<not> p"
  then have "c1 = c" "c2 = c" using D(2) K(1) res(1) by (simp_all add: round_part_def)
  then show "st' = st \<and> quiescent ts c"
    using np res D(1,3) K(3) I(3) live [OF P] by (simp add: quiescent_def)
qed

text \<open>The loop ends, and only a tick at which nothing is due leaves the controller as it was.\<close>

lemma run_loop:
  assumes "P c" "tick_status st"
  shows "\<exists>st' c'. run_loop ts st c = Some (st', c') \<and> P c' \<and> tick_status st' \<and> quiescent ts c'
    \<and> (if quiescent ts c then (c', c) \<in> R\<^sup>= else (c', c) \<in> R)"
  using assms
proof (induction c arbitrary: st rule: wf_induct_rule [OF wf_R])
  case (1 c)
  obtain p st2 c2 where r: "progress_round ts st c = (p, st2, c2)" by (metis prod.exhaust)
  note o = progress_round [OF 1(2) r]
  show ?case
  proof (cases p)
    case True
    then have c2: "(c2, c) \<in> R" "P c2" using o(1) by (simp_all add: round_part_def)
    obtain st' c' where rec: "run_loop ts st2 c2 = Some (st', c')" "P c'" "tick_status st'" "quiescent ts c'"
        "(c', c2) \<in> R\<^sup>="
      using 1(1) [OF c2 o(2) [OF 1(3)]] by (auto split: if_splits)
    then have "(c', c) \<in> R" using c2(1) transD [OF trans_R, of c' c2 c] by auto
    then show ?thesis using rec True by (subst run_loop.simps) (simp add: r)
  next
    case False
    then have "c2 = c" using o(1) by (simp add: round_part_def)
    then show ?thesis using False o(2,3) 1(2,3) by (subst run_loop.simps) (simp add: r)
  qed
qed

end

section \<open>Termination of a tick\<close>

section \<open>Termination of a tick\<close>

text \<open>
  Descending a measure under the program the controller runs, whose calls order the measure. A
  valid program has no cycle of calls, so that the descent ends.
\<close>

definition descent ::
  "('mb Controller \<Rightarrow> 'a) \<Rightarrow> ((GroupId \<times> GroupId) set \<Rightarrow> ('a \<times> 'a) set) \<Rightarrow> ('mb Controller \<times> 'mb Controller) set" where
  "descent m ord = {(c', c). live_inv c \<and> program c' = program c \<and> (m c', m c) \<in> ord (prog_calls c)}"

lemma finite_prog_calls: "finite (prog_calls c)"
  by (simp add: prog_calls_def finite_calls)

lemma prog_calls_program: "program c' = program c \<Longrightarrow> prog_calls c' = prog_calls c"
  by (simp add: program_def prog_calls_def)

lemma wf_descent:
  assumes "\<And>cs. acyclic cs \<Longrightarrow> finite cs \<Longrightarrow> wf (ord cs)"
  shows "wf (descent m ord :: ('mb Controller \<times> 'mb Controller) set)"
proof -
  let ?S = "same_fst (\<lambda>cs. acyclic cs \<and> finite cs) ord" and ?f = "\<lambda>c :: 'mb Controller. (prog_calls c, m c)"
  have "wf ?S" by (rule wf_same_fst) (simp add: assms)
  then have "wf (inv_image ?S ?f)" by (rule wf_inv_image)
  moreover have "descent m ord \<subseteq> inv_image ?S ?f"
  proof
    fix x :: "'mb Controller \<times> 'mb Controller"
    assume "x \<in> descent m ord"
    then obtain c c' where x: "x = (c', c)" and s: "live_inv c" "program c' = program c" "(m c', m c) \<in> ord (prog_calls c)"
      by (auto simp: descent_def)
    then show "x \<in> inv_image ?S ?f"
      using live_invD(2) [OF s(1)] prog_calls_program [OF s(2)]
      by (simp add: same_fst_def finite_prog_calls prog_ok_def)
  qed
  ultimately show ?thesis by (rule wf_subset)
qed

lemma trans_descent:
  assumes "\<And>cs. trans (ord cs)"
  shows "trans (descent m ord)"
proof (rule transI)
  fix a b c
  assume "(a, b) \<in> descent m ord" "(b, c) \<in> descent m ord"
  then have s: "program b = program c" "program a = program b" "live_inv c"
      "(m a, m b) \<in> ord (prog_calls b)" "(m b, m c) \<in> ord (prog_calls c)" by (simp_all add: descent_def)
  with prog_calls_program [OF s(1)] show "(a, c) \<in> descent m ord"
    using transD [OF assms, of "m a" "m b" "prog_calls c" "m c"] by (simp add: descent_def)
qed

definition tick_rel :: "u32 \<Rightarrow> ('mb Controller \<times> 'mb Controller) set" where
  "tick_rel ts = {(c', c). static c' = static c} \<inter> descent (tick_measure ts) tick_order"

lemma wf_tick_rel: "wf (tick_rel ts)"
  unfolding tick_rel_def by (rule wf_subset [OF wf_descent [OF wf_tick_order]]) auto

lemma trans_tick_rel: "trans (tick_rel ts)"
  unfolding tick_rel_def by (intro trans_Int trans_descent trans_tick_order) (auto intro: transI)

lemma tick_step_rel: "live_inv c \<Longrightarrow> tick_step ts c c' \<Longrightarrow> (c', c) \<in> tick_rel ts"
  by (simp add: tick_rel_def descent_def tick_step_def) (simp add: static_def)

lemma tick_step_group_count: "tick_step ts c c' \<Longrightarrow> live_inv c' \<and> c_group_count c' = c_group_count c"
  by (simp add: tick_step_def static_def program_def)

interpretation tick: round_steps "\<lambda>c. live_inv c \<and> c_group_count c = gc" "tick_rel ts" ts gc for ts gc
proof (unfold_locales, goal_cases)
  case (4 c i st i' p st' c')
  then have "tick_step ts c c'" using drain_one_ok [of c i ts] by simp
  then show ?case using 4 tick_step_group_count tick_step_rel by auto
next
  case (5 c g p st p' st' c')
  then have "tick_step ts c c'" using complete_one_ok [of c g ts] by simp
  then show ?case using 5 tick_step_group_count tick_step_rel by auto
next
  case (6 c g st started st' c')
  then have "tick_step ts c c'" using pick_step_ok(1) [of c g ts st started st' c'] by (simp add: nothing_due_def)
  then show ?case using 6 tick_step_group_count tick_step_rel by auto
qed (simp_all add: wf_tick_rel trans_tick_rel)

lemma run_loop_returns:
  fixes c :: "'mb Controller"
  assumes "live_inv c" "tick_status st"
  shows "\<exists>st' c'. run_loop ts st c = Some (st', c') \<and> live_inv c' \<and> static c' = static c
    \<and> tick_status st' \<and> quiescent ts c'"
  using tick.run_loop [of c "c_group_count c" st ts] assms by (auto simp: tick_rel_def split: if_splits)

section \<open>Scheduling the next tick\<close>

text \<open>The delays ScheduleNextRun offers: to each pending deadline and to each next mark.\<close>

definition pending_delays :: "u32 \<Rightarrow> 'mb Controller \<Rightarrow> u32 list" where
  "pending_delays ts c =
     map (\<lambda>e. ex_deadline e - ts) (filter (\<lambda>e. \<not> DeadlineReached ts (ex_deadline e)) (c_executing c)) @
     map (\<lambda>g. ucast (GetMark (c_instructions c ! cursor_slot g c)) - (ts - rt_start_time (c_runtimes c ! g)))
       (filter (\<lambda>g. rt_active (c_runtimes c ! g)
            \<and> rt_cursor (c_runtimes c ! g) < gr_instruction_count (rt_record (c_runtimes c ! g))
            \<and> ts - rt_start_time (c_runtimes c ! g) < ucast (GetMark (c_instructions c ! cursor_slot g c)))
         [0..<c_group_count c])"

lemma pending_delays_positive: "d \<in> set (pending_delays ts c) \<Longrightarrow> d \<noteq> 0"
  by (auto simp: pending_delays_def DeadlineReached_def kTimestampHalfRange_def)

lemma fold_filter: "fold f (filter P xs) m = fold (\<lambda>x m. if P x then f x m else m) xs m"
  by (induction xs arbitrary: m) auto

lemma fold_ScheduleTimeout:
  assumes "\<forall>d\<in>set ds. d \<noteq> 0"
  shows "if ds = [] then fold ScheduleTimeout ds m = m
    else fold ScheduleTimeout ds m \<noteq> 0 \<and> (fold ScheduleTimeout ds m \<in> set ds \<or> fold ScheduleTimeout ds m = m)
      \<and> (\<forall>d\<in>set ds. fold ScheduleTimeout ds m \<le> d) \<and> (m \<noteq> 0 \<longrightarrow> fold ScheduleTimeout ds m \<le> m)"
  using assms
proof (induction ds arbitrary: m)
  case (Cons d ds)
  let ?m = "ScheduleTimeout d m"
  have m: "?m \<noteq> 0" "?m \<le> d" "?m = d \<or> ?m = m" "m \<noteq> 0 \<longrightarrow> ?m \<le> m"
    using Cons.prems by (auto simp: ScheduleTimeout_def)
  show ?case
  proof (cases "ds = []")
    case True
    then show ?thesis using m by auto
  next
    case False
    with Cons.IH [of ?m] Cons.prems have IH: "fold ScheduleTimeout ds ?m \<noteq> 0"
        "fold ScheduleTimeout ds ?m \<in> set ds \<or> fold ScheduleTimeout ds ?m = ?m"
        "\<forall>x\<in>set ds. fold ScheduleTimeout ds ?m \<le> x" "fold ScheduleTimeout ds ?m \<le> ?m"
      using m(1) by auto
    then have "fold ScheduleTimeout ds ?m \<le> d" "m \<noteq> 0 \<longrightarrow> fold ScheduleTimeout ds ?m \<le> m"
      using m(2,4) order.trans by blast+
    then show ?thesis using IH m(3) by auto
  qed
qed simp

lemma ScheduleNextRun_fold:
  "snd (ScheduleNextRun ts c) = c\<lparr>c_min_scheduled_timeout := fold ScheduleTimeout (pending_delays ts c) (c_min_scheduled_timeout c)\<rparr>"
  "fst (ScheduleNextRun ts c) = (let m = fold ScheduleTimeout (pending_delays ts c) (c_min_scheduled_timeout c)
     in if 0 < m \<and> c_schedule_next_run c then Some m else None)"
proof -
  have e: "schedule_executing ts = (\<lambda>e m. if \<not> DeadlineReached ts (ex_deadline e) then ScheduleTimeout (ex_deadline e - ts) m else m)"
    by (intro ext) (simp add: schedule_executing_def)
  have g: "schedule_group ts c = (\<lambda>i m. if rt_active (c_runtimes c ! i)
            \<and> rt_cursor (c_runtimes c ! i) < gr_instruction_count (rt_record (c_runtimes c ! i))
            \<and> ts - rt_start_time (c_runtimes c ! i) < ucast (GetMark (c_instructions c ! cursor_slot i c))
          then ScheduleTimeout (ucast (GetMark (c_instructions c ! cursor_slot i c)) - (ts - rt_start_time (c_runtimes c ! i))) m else m)"
    by (intro ext) (auto simp: schedule_group_def Let_def)
  show "snd (ScheduleNextRun ts c) = c\<lparr>c_min_scheduled_timeout := fold ScheduleTimeout (pending_delays ts c) (c_min_scheduled_timeout c)\<rparr>"
    "fst (ScheduleNextRun ts c) = (let m = fold ScheduleTimeout (pending_delays ts c) (c_min_scheduled_timeout c)
     in if 0 < m \<and> c_schedule_next_run c then Some m else None)"
    unfolding ScheduleNextRun_def Let_def e g pending_delays_def
    by (simp_all add: fold_map fold_filter comp_def)
qed

text \<open>An active program at rest always has a pending delay: its deepest runtime is waiting.\<close>

lemma active_pending:
  assumes inv: "live_inv c" and q: "quiescent ts c" and act: "c_state c = kActive"
  shows "pending_delays ts c \<noteq> []"
proof -
  note l = live_invD [OF inv]
  note f = run_okD [OF l(7)]
  let ?A = "{g. g < c_group_count c \<and> rt_active (c_runtimes c ! g)}"
  have "0 \<in> ?A" using f(1,5) act by (simp add: tree_ok_def)
  then have ne: "?A \<noteq> {}" by blast
  let ?D = "(\<lambda>g. rt_depth (c_runtimes c ! g)) ` ?A"
  have fin: "finite ?D" by simp
  have "Max ?D \<in> ?D" using ne fin by (intro Max_in) simp_all
  then obtain g where top: "Max ?D = rt_depth (c_runtimes c ! g)" and g: "g \<in> ?A" by (rule imageE)
  have deepest: "rt_depth (c_runtimes c ! h) \<le> rt_depth (c_runtimes c ! g)" if "h \<in> ?A" for h
    using Max_ge [OF fin imageI [OF that]] unfolding top .
  have gc: "g < c_group_count c" "rt_active (c_runtimes c ! g)" using g by simp_all
  have "children (c_group_count c) (c_runtimes c) g = {}"
  proof (rule ccontr)
    assume "\<not> ?thesis"
    then obtain h where h: "h < c_group_count c" "h \<noteq> 0" "rt_active (c_runtimes c ! h)" "rt_parent_group_index (c_runtimes c ! h) = g"
      by (auto simp: children_def)
    then have "rt_depth (c_runtimes c ! h) = rt_depth (c_runtimes c ! g) + 1"
      using f(5) unfolding tree_ok_def by metis
    then show False using deepest [of h] h by simp
  qed
  then have child: "rt_child_count (c_runtimes c ! g) = 0" using f(10) [OF gc(1)] by simp
  have notready: "\<not> group_ready c g" and due: "nothing_due ts c g" using q gc by (simp_all add: quiescent_def)
  show ?thesis
  proof (cases "rt_cursor (c_runtimes c ! g) < gr_instruction_count (rt_record (c_runtimes c ! g))")
    case True
    then show ?thesis using due gc by (auto simp: pending_delays_def nothing_due_def filter_empty_conv)
  next
    case False
    then have "rt_active_count (c_runtimes c ! g) \<noteq> 0"
      using notready child gc f(7) [OF gc(1)] by (simp add: group_ready_def)
    then have "g \<in># image_mset fst (epairs (c_executing c))" using f(9) [OF gc(1)] by (simp add: count_eq_zero_iff [symmetric] del: count_eq_zero_iff)
    then obtain e where "e \<in> set (c_executing c)" by (auto simp: epairs_def)
    then show ?thesis using q by (auto simp: pending_delays_def quiescent_def filter_empty_conv)
  qed
qed

section \<open>The public operations\<close>

lemma ctl_inv_init: "strip_inv device \<Longrightarrow> ctl_inv (Controller_init device)"
  by (simp add: ctl_inv_def base_inv_def Controller_init_def kTimestampHalfRange_def)

lemma Run_ok:
  assumes inv: "ctl_inv c"
  shows "\<exists>st sched shown c'. Run send now c = Some (st, sched, shown, c') \<and> ctl_inv c' \<and> program c' = program c \<and> tick_status st
    \<and> (\<exists>device. link device = link (c_device c) \<and> c_device c' = (if shown then snd (Show send device) else device)) \<and> (\<forall>d. sched = Some d \<longrightarrow> d \<noteq> 0)
    \<and> (c_state c \<noteq> kActive \<longrightarrow> c' = c \<and> st = kSuccess \<and> sched = None \<and> \<not> shown)
    \<and> (c_state c = kActive \<longrightarrow> c_state c' \<noteq> kEditable \<and> quiescent (GetTimestamp now c) c' \<and>
         (c_state c' = kActive \<longrightarrow> c_schedule_next_run c \<longrightarrow>
           (\<exists>d. sched = Some d \<and> d \<noteq> 0 \<and> d \<in> set (pending_delays (GetTimestamp now c) c')
              \<and> (\<forall>x\<in>set (pending_delays (GetTimestamp now c) c'). d \<le> x))))"
proof (cases "c_state c = kActive")
  case False
  then have "Run send now c = Some (kSuccess, None, False, c)" by (simp add: Run_def)
  then show ?thesis
    using inv False by (intro exI [of _ kSuccess] exI [of _ None] exI [of _ False] exI [of _ c]) (auto simp: tick_status_def)
next
  case act: True
  let ?ts = "GetTimestamp now c"
  let ?c1 = "c\<lparr>c_show_requested := False, c_min_scheduled_timeout := 0\<rparr>"
  have live: "live_inv c" using inv act by (simp add: ctl_inv_def)
  have "live_inv ?c1" using live_invD(6) [OF live] by (intro live_inv_program [OF live]) simp_all
  then obtain st c2 where r: "run_loop ?ts kSuccess ?c1 = Some (st, c2)" "live_inv c2" "static c2 = static ?c1"
      "tick_status st" "quiescent ?ts c2"
    using run_loop_returns [of ?c1 kSuccess ?ts] by (auto simp: tick_status_def)
  have pr: "program c2 = program c" "c_min_scheduled_timeout c2 = 0" "link (c_device c2) = link (c_device c)"
    using r(3) by (simp_all add: static_def)
  obtain sched c3 where s: "ScheduleNextRun ?ts c2 = (sched, c3)" by (metis prod.exhaust)
  let ?m = "fold ScheduleTimeout (pending_delays ?ts c2) 0"
  have c3: "c3 = c2\<lparr>c_min_scheduled_timeout := ?m\<rparr>" and sched: "sched = (if 0 < ?m \<and> c_schedule_next_run c2 then Some ?m else None)"
    using ScheduleNextRun_fold [of ?ts c2] pr(2) by (simp_all add: s Let_def)
  define c4 where "c4 = (if c_show_requested c3 \<and> c_strip c3 then c3\<lparr>c_device := snd (Show send (c_device c3))\<rparr> else c3)"
  have Run: "Run send now c = Some (st, sched, c_show_requested c3 \<and> c_strip c3, c4)"
    using act r(1) s by (simp add: Run_def c4_def Let_def)
  have p4: "program c4 = program c2" "c_state c4 = c_state c2" "c_runtimes c4 = c_runtimes c2" "c_executing c4 = c_executing c2"
      "c_instructions c4 = c_instructions c2" "c_group_count c4 = c_group_count c2" "c_group_indices c4 = c_group_indices c2" "c_groups c4 = c_groups c2"
    by (simp_all add: c4_def c3)
  have dev: "\<exists>device. link device = link (c_device c) \<and> c_device c4 = (if c_show_requested c3 \<and> c_strip c3 then snd (Show send device) else device)"
    using pr(3) by (intro exI [of _ "c_device c2"]) (simp add: c4_def c3)
  have "strip_inv (c_device c4)" using live_invD(6) [OF r(2)] strip_inv_Show by (auto simp: c4_def c3)
  then have live4: "live_inv c4" using p4 by (intro live_inv_program [OF r(2)]) simp_all
  then have ne: "c_state c4 \<noteq> kEditable" using run_okD(11) [OF live_invD(7)] by blast
  have cs: "cursor_slot g c4 = cursor_slot g c2" for g using p4 by (simp add: cursor_slot_def)
  have q4: "quiescent ?ts c4" using r(5) p4 by (simp add: quiescent_def nothing_due_def group_ready_def cs)
  have pd: "pending_delays ?ts c4 = pending_delays ?ts c2" using p4 by (simp add: pending_delays_def cs)
  have "\<exists>d. sched = Some d \<and> d \<noteq> 0 \<and> d \<in> set (pending_delays ?ts c4) \<and> (\<forall>x\<in>set (pending_delays ?ts c4). d \<le> x)"
    if "c_state c4 = kActive" "c_schedule_next_run c"
  proof -
    have "pending_delays ?ts c2 \<noteq> []" using active_pending [OF r(2,5)] that(1) p4(2) by simp
    then have "?m \<noteq> 0" "?m \<in> set (pending_delays ?ts c2)" "\<forall>x\<in>set (pending_delays ?ts c2). ?m \<le> x"
      using fold_ScheduleTimeout [of "pending_delays ?ts c2" 0] pending_delays_positive by auto
    moreover have "c_schedule_next_run c2" using pr(1) that(2) by (simp add: program_def)
    ultimately show ?thesis using sched pd by (simp add: word_gt_0)
  qed
  then show ?thesis
    using Run r(4) pr(1) p4(1) live4 ne q4 act dev sched live_invD(1) [OF live4] by (auto simp: ctl_inv_def word_gt_0)
qed

subsection \<open>Start\<close>

lemma sort_key_cong: "(\<And>x. x \<in> set xs \<Longrightarrow> f x = h x) \<Longrightarrow> sort_key f xs = sort_key h xs"
proof (induction xs)
  case (Cons x xs)
  have "insort_key f x ys = insort_key h x ys" if "set ys \<subseteq> set xs" for ys
    using that Cons.prems by (induction ys) auto
  then show ?case using Cons by simp
qed simp

lemma static_program:
  assumes "n \<le> length slots"
  shows "valid_program (map slot_ResetForReplay slots) n r = valid_program slots n r"
    "calls (map slot_ResetForReplay slots) n = calls slots n"
    "targets_ok (map slot_ResetForReplay slots) n = targets_ok slots n"
    "pool_ok (map slot_ResetForReplay slots) n groups gc indices = pool_ok slots n groups gc indices"
proof -
  let ?S = "map slot_ResetForReplay slots"
  have eq: "GetMark (?S ! i) = GetMark (slots ! i)" "GetGroupId (?S ! i) = GetGroupId (slots ! i)"
      "IsRunGroup (?S ! i) = IsRunGroup (slots ! i)" "GetTargetGroupId (?S ! i) = GetTargetGroupId (slots ! i)"
      "GetAdditionalRepeats (?S ! i) = GetAdditionalRepeats (slots ! i)"
      "HasPositiveSchedulingBoundary (?S ! i) = HasPositiveSchedulingBoundary (slots ! i)" if "i < n" for i
    using that assms by simp_all
  show c: "calls ?S n = calls slots n" unfolding calls_def by (intro Collect_cong ex_cong1) (auto simp: eq)
  show t: "targets_ok ?S n = targets_ok slots n" unfolding targets_ok_def by (simp add: eq cong: conj_cong)
  have o: "own_boundary ?S n = own_boundary slots n" unfolding own_boundary_def by (intro ext) (simp add: eq cong: conj_cong)
  then have h: "has_boundary ?S n = has_boundary slots n" unfolding has_boundary_def [abs_def] c by simp
  then have "repeats_ok ?S n r = repeats_ok slots n r" unfolding repeats_ok_def by (simp add: eq cong: conj_cong)
  then show "valid_program ?S n r = valid_program slots n r" by (simp add: valid_program_def c t)
  have fl: "filter (\<lambda>i. GetGroupId (?S ! i) = g) [0..<n] = filter (\<lambda>i. GetGroupId (slots ! i) = g) [0..<n]" for g
    using eq(2) by (intro filter_cong) auto
  have tb: "table_ok ?S n groups gc = table_ok slots n groups gc"
    unfolding table_ok_def fl by (simp add: eq(2) cong: conj_cong)
  have "group_members ?S n g = group_members slots n g" for g
    unfolding group_members_def fl using eq(1) by (intro sort_key_cong) auto
  then show "pool_ok ?S n groups gc indices = pool_ok slots n groups gc indices"
    by (simp add: pool_ok_def tb)
qed

lemma commit_groups:
  assumes "table_ok slots n groups gc"
  shows "map (\<lambda>i. if i < gc then groups ! i else GroupRecord_init) [0..<kMaxGroups] = groups"
  using assms by (intro nth_equalityI) (auto simp: table_ok_def)

text \<open>A freshly committed program, before and after its root group starts.\<close>

lemma run_ok_fresh:
  assumes t: "table_ok slots n groups gc" and gc: "gc \<le> kMaxGroups"
    and rts: "rts = map (\<lambda>i. if i < gc then GroupRuntime_init\<lparr>rt_record := groups ! i\<rparr> else GroupRuntime_init) [0..<kMaxGroups]"
  shows "run_ok cs groups indices gc kCompleted (rts[0 := GroupRuntime_Reset (rts ! 0)]) {#}"
    "run_ok cs groups indices gc kActive (rts[0 := started_runtime ts r kMaxGroups 0 (rts ! 0)]) {#}"
proof -
  have gc0: "0 < gc" using t by (simp add: table_ok_def)
  have len: "length rts = kMaxGroups" by (simp add: rts)
  have nth: "rts ! g = GroupRuntime_init\<lparr>rt_record := groups ! g\<rparr>" if "g < gc" for g
    using that gc by (simp add: rts)
  have upd: "rts[0 := x] ! g = (if g = 0 then x else GroupRuntime_init\<lparr>rt_record := groups ! g\<rparr>)" if "g < gc" for g x
    using that gc0 gc len nth [OF that] by (simp add: nth_list_update)
  have ch: "children gc (rts[0 := x]) g = {}" for g x
    by (auto simp: children_def nth GroupRuntime_init_def)
  show "run_ok cs groups indices gc kCompleted (rts[0 := GroupRuntime_Reset (rts ! 0)]) {#}"
    using gc0 gc len nth [OF gc0] ch
    by (auto simp: run_ok_def rts_ok_def tree_ok_def exec_ok_def upd nth GroupRuntime_init_def GroupRuntime_Reset_def)
  show "run_ok cs groups indices gc kActive (rts[0 := started_runtime ts r kMaxGroups 0 (rts ! 0)]) {#}"
    using gc0 gc len nth [OF gc0] ch
    by (auto simp: run_ok_def rts_ok_def tree_ok_def exec_ok_def upd nth GroupRuntime_init_def GroupRuntime_Reset_def started_runtime_def)
qed

lemma Start_ok:
  assumes inv: "ctl_inv c" and idle: "c_state c \<noteq> kActive"
  shows "if valid_program (c_instructions c) (c_instruction_count c) repeats
    then \<exists>c'. Start now repeats c = (kSuccess, c') \<and> ctl_inv c' \<and> c_executing c' = [] \<and> c_device c' = c_device c
      \<and> map slot_ResetForReplay (c_instructions c') = map slot_ResetForReplay (c_instructions c)
      \<and> c_instruction_count c' = c_instruction_count c
      \<and> c_state c' = (if \<exists>i < c_instruction_count c. GetGroupId (c_instructions c ! i) = 0 then kActive else kCompleted)
      \<and> c_strip c' = c_strip c \<and> c_get_timestamp c' = c_get_timestamp c \<and> c_schedule_next_run c' = c_schedule_next_run c
      \<and> (c_state c' = kActive \<longrightarrow> c_runtimes c' ! 0 = started_runtime (GetTimestamp now c) repeats kMaxGroups 0
            (GroupRuntime_init\<lparr>rt_record := c_groups c' ! 0\<rparr>)
          \<and> (\<forall>g < c_group_count c'. g \<noteq> 0 \<longrightarrow> \<not> rt_active (c_runtimes c' ! g)))
    else Start now repeats c = (kInvalidProgram, c)"
proof -
  have base: "base_inv c" using inv by (simp add: ctl_inv_def)
  have n: "c_instruction_count c \<le> kMaxInstructions" "c_instruction_count c \<le> length (c_instructions c)"
    using base by (simp_all add: base_inv_def)
  let ?n = "c_instruction_count c" and ?S = "map slot_ResetForReplay (c_instructions c)"
  note bv = build_and_validate_ok [OF n(1), of "c_instructions c" repeats]
  show ?thesis
  proof (cases "valid_program (c_instructions c) ?n repeats")
    case False
    then show ?thesis using bv idle by (simp add: Start_def BuildAndValidateGroups_def)
  next
    case valid: True
    then obtain build where b: "build_and_validate (c_instructions c) ?n repeats = Inr build"
      and pool: "pool_ok (c_instructions c) ?n (b_groups build) (b_group_count build) (b_instruction_indices build)"
      using bv by auto
    let ?gc = "b_group_count build" and ?g = "b_groups build"
    have t: "table_ok (c_instructions c) ?n ?g ?gc" using pool by (simp add: pool_ok_def)
    have gc: "?gc \<le> kMaxGroups" "0 < ?gc" using table_ok_le [OF t n(1)] t by (simp_all add: table_ok_def)
    have root: "gr_id (?g ! 0) = 0" using t by (simp add: table_ok_def)
    define c2 where "c2 = (CommitGroupBuild build c)\<lparr>c_executing := [], c_show_requested := False, c_min_scheduled_timeout := 0\<rparr>"
    define rts where "rts = map (\<lambda>i. if i < ?gc then GroupRuntime_init\<lparr>rt_record := ?g ! i\<rparr> else GroupRuntime_init) [0..<kMaxGroups]"
    have c2: "c_groups c2 = ?g" "c_group_count c2 = ?gc" "c_runtimes c2 = rts" "c_executing c2 = []" "c_device c2 = c_device c"
        "c_group_indices c2 = b_instruction_indices build" "c_instructions c2 = c_instructions c" "c_instruction_count c2 = ?n"
        "c_refresh_period_ms c2 = c_refresh_period_ms c" "c_strip c2 = c_strip c" "c_get_timestamp c2 = c_get_timestamp c"
        "c_schedule_next_run c2 = c_schedule_next_run c" "GetTimestamp now c2 = GetTimestamp now c"
      by (simp_all add: c2_def CommitGroupBuild_def Let_def commit_groups [OF t] rts_def GetTimestamp_def)
    have cg: "c_groups (CommitGroupBuild build c) = ?g" "c_group_count (CommitGroupBuild build c) = ?gc"
      by (simp_all add: CommitGroupBuild_def Let_def commit_groups [OF t])
    have find: "FindGroup ?g ?gc 0 = 0" using FindGroup_unique [OF t gc(2)] root by simp
    have cnt: "gr_instruction_count (?g ! 0) = 0 \<longleftrightarrow> \<not> (\<exists>i < ?n. GetGroupId (c_instructions c ! i) = 0)"
    proof -
      have "gr_instruction_count (?g ! 0) = length (filter (\<lambda>i. GetGroupId (c_instructions c ! i) = 0) [0..<?n])"
        using t root gc(2) unfolding table_ok_def by metis
      then show ?thesis by (simp only: length_0_conv filter_empty_conv) auto
    qed
    have k0: "kMaxGroups \<noteq> 0" by (simp add: capacity_simps)
    have start: "Start now repeats c = (if gr_instruction_count (?g ! 0) = 0
        then (kSuccess, (upd_runtime 0 GroupRuntime_Reset c2)\<lparr>c_state := kCompleted\<rparr>)
        else case StartGroupRuntime 0 (GetTimestamp now c2) repeats kMaxGroups c2 of
          (started, c3) \<Rightarrow> if \<not> started then (kInvalidProgram, c3) else (kSuccess, c3\<lparr>c_state := kActive\<rparr>))"
      using idle b find k0 c2(1,2) cg by (simp add: Start_def BuildAndValidateGroups_def c2_def [symmetric] Let_def)
    have prog: "pool_ok ?S ?n ?g ?gc (b_instruction_indices build)" "targets_ok ?S ?n" "acyclic (calls ?S ?n)"
      using pool valid by (simp_all add: static_program [OF n(2)] valid_program_def)
    have live: "live_inv c'" if "program c' = program c2" "strip_inv (c_device c')" "c_executing c' = []"
        "run_ok (calls ?S ?n) ?g (b_instruction_indices build) ?gc (c_state c') (c_runtimes c') {#}" for c' :: "'a Controller"
    proof -
      have p: "map slot_ResetForReplay (c_instructions c') = ?S" "c_instruction_count c' = ?n" "c_groups c' = ?g"
          "c_group_count c' = ?gc" "c_group_indices c' = b_instruction_indices build" "c_refresh_period_ms c' = c_refresh_period_ms c"
        using that(1) c2 by (simp_all add: program_def)
      have "base_inv c'"
        using base_inv_program [OF base, of "c'\<lparr>c_groups := c_groups c, c_group_count := c_group_count c,
            c_group_indices := c_group_indices c, c_strip := c_strip c, c_get_timestamp := c_get_timestamp c,
            c_schedule_next_run := c_schedule_next_run c\<rparr>"] p that(2)
        by (simp add: program_def base_inv_def)
      then show ?thesis
        using prog p that(3,4) by (simp add: live_inv_def prog_ok_def prog_calls_def epairs_def)
    qed
    have strip: "strip_inv (c_device c)" using base by (simp add: base_inv_def)
    show ?thesis
    proof (cases "gr_instruction_count (?g ! 0) = 0")
      case True
      let ?c = "(upd_runtime 0 GroupRuntime_Reset c2)\<lparr>c_state := kCompleted\<rparr>"
      have "program ?c = program c2" "c_instructions ?c = c_instructions c2" "c_instruction_count ?c = c_instruction_count c2"
          "c_strip ?c = c_strip c2" "c_get_timestamp ?c = c_get_timestamp c2" "c_schedule_next_run ?c = c_schedule_next_run c2"
        by (simp_all add: program_def upd_runtime_def)
      then show ?thesis
        using True start valid cnt strip c2 live [of ?c] run_ok_fresh(1) [OF t gc(1) rts_def, of "calls ?S ?n" "b_instruction_indices build"]
        by (simp add: ctl_inv_def) (simp add: live_inv_def)
    next
      case False
      have l0: "0 < c_group_count c2" "0 < length (c_runtimes c2)" using c2 gc by (simp_all add: rts_def)
      obtain c3 where c3: "StartGroupRuntime 0 (GetTimestamp now c2) repeats kMaxGroups c2 = (True, c3)" "static c3 = static c2"
          "c_executing c3 = c_executing c2" "c_device c3 = c_device c2"
          "c_runtimes c3 = (c_runtimes c2)[0 := started_runtime (GetTimestamp now c2) repeats kMaxGroups 0 (c_runtimes c2 ! 0)]"
        using StartGroupRuntime_ok [OF l0, of kMaxGroups 0 "GetTimestamp now c2" repeats] by auto
      let ?c = "c3\<lparr>c_state := kActive\<rparr>"
      have p: "program ?c = program c2" using c3(2) by (simp add: static_def program_def)
      then have "map slot_ResetForReplay (c_instructions ?c) = ?S" "c_instruction_count ?c = ?n"
          "c_strip c3 = c_strip c" "c_get_timestamp c3 = c_get_timestamp c" "c_schedule_next_run c3 = c_schedule_next_run c"
          "c_groups c3 = ?g"
        using c2 by (simp_all add: program_def)
      moreover have "c_runtimes c3 ! 0 = started_runtime (GetTimestamp now c) repeats kMaxGroups 0 (GroupRuntime_init\<lparr>rt_record := ?g ! 0\<rparr>)"
        using c3(5) c2 l0 gc by (simp add: rts_def)
      moreover have "\<forall>g < c_group_count c3. g \<noteq> 0 \<longrightarrow> \<not> rt_active (c_runtimes c3 ! g)"
        using c3(2,5) c2 gc by (simp add: static_def program_def rts_def GroupRuntime_init_def)
      ultimately show ?thesis
        using False start valid cnt strip c2 c3 p live [of ?c]
          run_ok_fresh(2) [OF t gc(1) rts_def, of "calls ?S ?n" "b_instruction_indices build" "GetTimestamp now c2" repeats]
        by (simp add: ctl_inv_def) (simp add: live_inv_def)
    qed
  qed
qed

end
