(* ===== verification/ControllerProps.thy ===== *)
theory ControllerProps
  imports Ticks
begin

text \<open>
  The controller as a state machine over its public operations, and the properties of every state
  it can reach.
\<close>

section \<open>Operations keep the invariant\<close>

lemma AddInstruction_cases:
  "AddInstruction i c =
     (case i of None \<Rightarrow> (kInvalidArgument, c)
      | Some x \<Rightarrow>
          if c_state c \<noteq> kEditable then (kBusy, c)
          else if kMaxInstructions \<le> c_instruction_count c then (kCapacityExhausted, c)
          else (kSuccess, c\<lparr>c_instructions := (c_instructions c)[c_instruction_count c :=
                  Some (x\<lparr>i_strip := c_strip c, i_controller := True\<rparr>)],
                c_instruction_count := c_instruction_count c + 1\<rparr>))"
  by (auto simp: AddInstruction_def slot_Set_def slot_SetStrip_def slot_SetController_def Let_def split: option.splits)

lemma ctl_inv_Add: "ctl_inv c \<Longrightarrow> ctl_inv (snd (AddInstruction i c))"
  by (auto simp: AddInstruction_cases ctl_inv_def base_inv_def nth_list_update split: option.splits)

lemma ctl_inv_Start: "ctl_inv c \<Longrightarrow> ctl_inv (snd (Start now r c))"
proof (cases "c_state c = kActive")
  case True
  then show "ctl_inv c \<Longrightarrow> ctl_inv (snd (Start now r c))" by (simp add: Start_def)
next
  case False
  then show "ctl_inv c \<Longrightarrow> ctl_inv (snd (Start now r c))" using Start_ok [of c r now] by (auto split: if_splits)
qed

lemma ctl_inv_Run: "ctl_inv c \<Longrightarrow> Run send now c = Some (st, d, sh, c') \<Longrightarrow> ctl_inv c'"
  using Run_ok [of c send now] by auto

lemma ctl_inv_Reset: "ctl_inv c \<Longrightarrow> ctl_inv (ResetInstructions c)"
  by (simp add: ctl_inv_def base_inv_def ResetInstructions_def slot_Clear_def)

lemma live_inv_config [simp]:
  "live_inv (c\<lparr>c_strip := b\<rparr>) = live_inv c" "live_inv (c\<lparr>c_get_timestamp := b\<rparr>) = live_inv c"
  "live_inv (c\<lparr>c_schedule_next_run := b\<rparr>) = live_inv c"
  "0 < p \<Longrightarrow> p < kTimestampHalfRange \<Longrightarrow> live_inv c \<Longrightarrow> live_inv (c\<lparr>c_refresh_period_ms := p\<rparr>)"
  by (simp_all add: live_inv_def base_inv_def prog_ok_def prog_calls_def)

lemma ctl_inv_config:
  "ctl_inv c \<Longrightarrow> ctl_inv (SetStrip b c)" "ctl_inv c \<Longrightarrow> ctl_inv (SetTimestampCallback b c)"
  "ctl_inv c \<Longrightarrow> ctl_inv (SetScheduleCallback b c)"
  by (simp_all add: ctl_inv_def base_inv_def SetStrip_def SetTimestampCallback_def SetScheduleCallback_def)

lemma ctl_inv_SetRefresh: "ctl_inv c \<Longrightarrow> ctl_inv (snd (SetRefreshPeriodMs p c))"
proof -
  assume inv: "ctl_inv c"
  show ?thesis
  proof (cases "p = 0 \<or> 0x80000000 \<le> p \<or> c_state c = kActive")
    case True
    then show ?thesis using inv by (auto simp: SetRefreshPeriodMs_def)
  next
    case False
    then have p: "0 < p" "p < kTimestampHalfRange" by (auto simp: word_gt_0 kTimestampHalfRange_def)
    have "snd (SetRefreshPeriodMs p c) = c\<lparr>c_refresh_period_ms := p\<rparr>" using False by (simp add: SetRefreshPeriodMs_def)
    then show ?thesis using inv p by (auto simp: ctl_inv_def) (auto simp: base_inv_def)
  qed
qed

lemma ctl_inv_taken: "ctl_inv c \<Longrightarrow> ctl_inv (c\<lparr>c_device := (c_device c)\<lparr>strip_mailbox := mb\<rparr>\<rparr>)"
  by (auto simp: ctl_inv_def live_inv_def base_inv_def prog_ok_def prog_calls_def strip_inv_def split: if_splits)

section \<open>The state machine\<close>

text \<open>The public operations of the controller, and the other task working on the mailbox of frames.\<close>

inductive ctl_step :: "('mb \<Rightarrow> SharedFrame \<Rightarrow> status \<times> 'mb) \<Rightarrow> 'mb Controller \<Rightarrow> 'mb Controller \<Rightarrow> bool"
  for send where
  add: "ctl_step send c (snd (AddInstruction i c))"
| start: "ctl_step send c (snd (Start now repeats c))"
| run: "Run send now c = Some (st, d, sh, c') \<Longrightarrow> ctl_step send c c'"
| reset: "ctl_step send c (ResetInstructions c)"
| refresh: "ctl_step send c (snd (SetRefreshPeriodMs p c))"
| strip: "ctl_step send c (SetStrip b c)"
| timestamp: "ctl_step send c (SetTimestampCallback b c)"
| schedule: "ctl_step send c (SetScheduleCallback b c)"
| taken: "ctl_step send c (c\<lparr>c_device := (c_device c)\<lparr>strip_mailbox := mb\<rparr>\<rparr>)"

inductive reachable :: "('mb \<Rightarrow> SharedFrame \<Rightarrow> status \<times> 'mb) \<Rightarrow> 'mb Controller \<Rightarrow> bool" for send where
  init: "strip_inv device \<Longrightarrow> reachable send (Controller_init device)"
| step: "reachable send c \<Longrightarrow> ctl_step send c c' \<Longrightarrow> reachable send c'"

inductive_cases ctl_stepE: "ctl_step send c c'"

lemma ctl_step_inv: "ctl_step send c c' \<Longrightarrow> ctl_inv c \<Longrightarrow> ctl_inv c'"
  by (induction rule: ctl_step.induct)
     (auto intro: ctl_inv_Add ctl_inv_Start ctl_inv_Run ctl_inv_Reset ctl_inv_SetRefresh ctl_inv_config ctl_inv_taken)

lemma reachable_inv: "reachable send c \<Longrightarrow> ctl_inv c"
  by (induction rule: reachable.induct) (auto intro: ctl_inv_init ctl_step_inv)

section \<open>Facts of reachable states\<close>

lemma executing_distinct:
  assumes inv: "live_inv c"
  shows "distinct (map ex_instruction_index (c_executing c))"
proof -
  have "image_mset snd (epairs (c_executing c)) = mset (map ex_instruction_index (c_executing c))"
    by (simp add: epairs_def mset_map [symmetric] del: mset_map) (simp add: comp_def)
  moreover have "count (image_mset snd (epairs (c_executing c))) i \<le> 1" for i
    using run_okD(6) [OF live_invD(7) [OF inv]] by (simp add: exec_ok_def)
  ultimately have le: "count (mset (map ex_instruction_index (c_executing c))) i \<le> 1" for i
    by metis
  have "count (mset xs) a = (if a \<in> set xs then 1 else 0)" if "\<And>i. count (mset xs) i \<le> 1" for xs :: "nat list" and a
    using that [of a] count_inI [of "mset xs" a] not_in_iff [of a "mset xs"] by (cases "count (mset xs) a") (auto simp: set_mset_mset)
  from this [OF le] show ?thesis by (simp only: distinct_count_atmost_1) blast
qed

lemma executing_bound:
  assumes inv: "live_inv c"
  shows "\<forall>e\<in>set (c_executing c). ex_instruction_index e < c_instruction_count c \<and> ex_runtime_index e < c_group_count c
           \<and> rt_active (c_runtimes c ! ex_runtime_index e)"
proof
  fix e assume "e \<in> set (c_executing c)"
  then have m: "(ex_runtime_index e, ex_instruction_index e) \<in># epairs (c_executing c)" by (force simp: epairs_def)
  then show "ex_instruction_index e < c_instruction_count c \<and> ex_runtime_index e < c_group_count c
           \<and> rt_active (c_runtimes c ! ex_runtime_index e)"
    using executing_index [OF inv m] run_okD(6) [OF live_invD(7) [OF inv]] by (auto simp: exec_ok_def)
qed

lemma executing_length:
  assumes inv: "live_inv c"
  shows "length (c_executing c) \<le> c_instruction_count c"
proof -
  have "length (c_executing c) = card (ex_instruction_index ` set (c_executing c))"
    using distinct_card [OF executing_distinct [OF inv]] by simp
  also have "\<dots> \<le> card {..<c_instruction_count c}"
    using executing_bound [OF inv] by (intro card_mono) auto
  finally show ?thesis by simp
qed

text \<open>When the root is not active no runtime is: a shallowest active one would need an active parent.\<close>

lemma idle_runtimes:
  assumes inv: "live_inv c" and idle: "c_state c \<noteq> kActive" and g: "g < c_group_count c"
  shows "\<not> rt_active (c_runtimes c ! g)"
proof -
  have t: "tree_ok (prog_calls c) (c_groups c) (c_group_count c) (c_state c) (c_runtimes c)"
    using run_okD(5) [OF live_invD(7) [OF inv]] .
  have root: "\<not> rt_active (c_runtimes c ! 0)" using t idle by (simp add: tree_ok_def)
  show ?thesis using g
  proof (induction "rt_depth (c_runtimes c ! g)" arbitrary: g rule: less_induct)
    case less
    show ?case
    proof
      assume act: "rt_active (c_runtimes c ! g)"
      let ?p = "rt_parent_group_index (c_runtimes c ! g)"
      have "g \<noteq> 0" using act root by metis
      then have "?p < c_group_count c" "rt_active (c_runtimes c ! ?p)" "rt_depth (c_runtimes c ! g) = rt_depth (c_runtimes c ! ?p) + 1"
        using t act less.prems by (simp_all add: tree_ok_def)
      then show False using less.hyps [of ?p] by simp
    qed
  qed
qed

lemma idle_executing:
  assumes inv: "ctl_inv c" and idle: "c_state c \<noteq> kActive"
  shows "c_executing c = []"
proof (cases "c_state c = kEditable")
  case False
  then have l: "live_inv c" using inv by (simp add: ctl_inv_def)
  show ?thesis using executing_bound [OF l] idle_runtimes [OF l idle] by (cases "c_executing c") auto
qed (use inv in \<open>simp add: ctl_inv_def\<close>)

section \<open>A small program\<close>

definition demo_controller :: "SharedFrame list Controller" where
  "demo_controller = SetScheduleCallback True (SetTimestampCallback True (SetStrip True (Controller_init demo_strip)))"

definition demo_loaded :: "SharedFrame list Controller" where
  "demo_loaded = snd (AddInstruction (Some (instr 10 0 (SetSingleColor (rgb 1 2 3) 0)))
     (snd (AddInstruction (Some (instr 0 0 (Fade demo_fade))) demo_controller)))"

definition demo_active :: "SharedFrame list Controller" where
  "demo_active = snd (Start 100 0 demo_loaded)"

lemma reachable_demo:
  "reachable fifo_send demo_controller" "reachable fifo_send demo_loaded" "reachable fifo_send demo_active"
proof -
  have i: "strip_inv demo_strip" by code_simp
  show a: "reachable fifo_send demo_controller"
    unfolding demo_controller_def by (intro reachable.step [OF _ ctl_step.schedule] reachable.step [OF _ ctl_step.timestamp]
      reachable.step [OF _ ctl_step.strip] reachable.init i)
  show b: "reachable fifo_send demo_loaded"
    unfolding demo_loaded_def by (intro reachable.step [OF _ ctl_step.add] a)
  show "reachable fifo_send demo_active"
    unfolding demo_active_def by (intro reachable.step [OF _ ctl_step.start] b)
qed

lemma demo_active_state: "c_state demo_active = kActive \<and> c_schedule_next_run demo_active"
  by code_simp

lemma demo_run:
  "map_option (\<lambda>(st, d, sh, c). (st, d, sh, c_state c)) (Run fifo_send 100 demo_active) = Some (kSuccess, Some 10, False, kActive)"
  by code_simp

lemma demo_runE:
  obtains c where "Run fifo_send 100 demo_active = Some (kSuccess, Some 10, False, c)" "c_state c = kActive"
  using demo_run by (auto split: prod.splits)

section \<open>Properties\<close>

lemma count_list_map_filter: "count_list (map f xs) y = length (filter (\<lambda>x. f x = y) xs)"
  by (induction xs) auto

text \<open>
  C4. Progress always ends. From every state the controller can reach by its public operations, and
  at any time, the do-while loop of Run stops after finitely many rounds: Run returns, the resulting
  state is reachable again, the stored program is the same, and the reported status is never that
  the list of executing instructions was full.
\<close>

theorem Run_terminates:
  assumes "reachable send c"
  shows "\<exists>st sched shown c'. Run send now c = Some (st, sched, shown, c') \<and> reachable send c'
    \<and> program c' = program c \<and> st \<in> {kSuccess, kInvalidProgram, kAlreadyActiveGroup}"
proof -
  obtain st sched shown c' where r: "Run send now c = Some (st, sched, shown, c')" "program c' = program c" "tick_status st"
    using Run_ok [OF reachable_inv [OF assms], of send now] by blast
  then show ?thesis using reachable.step [OF assms ctl_step.run [OF r(1)]] by (auto simp: tick_status_def)
qed

theorem Run_terminates_witness:
  "\<exists>st sched shown c'. Run fifo_send 100 demo_active = Some (st, sched, shown, c') \<and> reachable fifo_send c'
    \<and> program c' = program demo_active \<and> st \<in> {kSuccess, kInvalidProgram, kAlreadyActiveGroup}"
  using Run_terminates [OF reachable_demo(3), of 100] .

text \<open>
  C9. An active program is never stalled. If a tick of a reachable active controller with a schedule
  callback leaves the program active, it has called the callback, with a delay that is not zero and
  that is the least of the times to a pending deadline and to the next mark of an active group.
\<close>

theorem Run_schedules_earliest:
  assumes "reachable send c" "c_state c = kActive" "c_schedule_next_run c"
    and "Run send now c = Some (st, sched, shown, c')" "c_state c' = kActive"
  shows "\<exists>d. sched = Some d \<and> d \<noteq> 0 \<and> d \<in> set (pending_delays (GetTimestamp now c) c')
    \<and> (\<forall>x\<in>set (pending_delays (GetTimestamp now c) c'). d \<le> x)"
  using Run_ok [OF reachable_inv [OF assms(1)], of send now] assms(2-5) by auto

theorem Run_schedules_earliest_witness:
  "\<exists>d c'. Run fifo_send 100 demo_active = Some (kSuccess, Some d, False, c') \<and> d \<noteq> 0
    \<and> (\<forall>x\<in>set (pending_delays (GetTimestamp 100 demo_active) c'). d \<le> x)"
proof -
  obtain c where r: "Run fifo_send 100 demo_active = Some (kSuccess, Some 10, False, c)" "c_state c = kActive"
    by (rule demo_runE)
  then show ?thesis using Run_schedules_earliest [OF reachable_demo(3) _ _ r] demo_active_state by blast
qed

text \<open>
  C13. A tick does everything that is due. After Run of a reachable active controller, at the
  timestamp of the tick: no executing instruction has reached its deadline, no active group with an
  instruction left has its next mark behind it, and no active group that has executed all its
  instructions is without executing instructions and children.
\<close>

theorem Run_leaves_nothing_due:
  assumes "reachable send c" "c_state c = kActive" "Run send now c = Some (st, sched, shown, c')"
  shows "(\<forall>e\<in>set (c_executing c'). \<not> DeadlineReached (GetTimestamp now c) (ex_deadline e))
    \<and> (\<forall>g < c_group_count c'. rt_active (c_runtimes c' ! g) \<longrightarrow>
         (if rt_cursor (c_runtimes c' ! g) < gr_instruction_count (rt_record (c_runtimes c' ! g))
          then GetTimestamp now c - rt_start_time (c_runtimes c' ! g) < ucast (GetMark (c_instructions c' ! cursor_slot g c'))
          else rt_active_count (c_runtimes c' ! g) \<noteq> 0 \<or> rt_child_count (c_runtimes c' ! g) \<noteq> 0))"
proof -
  have q: "quiescent (GetTimestamp now c) c'" and inv: "ctl_inv c'" and "c_state c' \<noteq> kEditable"
    using Run_ok [OF reachable_inv [OF assms(1)], of send now] assms(2,3) by auto
  then have "live_inv c'" by (simp add: ctl_inv_def)
  then have "rt_record (c_runtimes c' ! g) = c_groups c' ! g" if "g < c_group_count c'" for g
    using run_okD(7) [OF live_invD(7)] that by blast
  with q show ?thesis by (auto simp: quiescent_def nothing_due_def group_ready_def)
qed

theorem Run_leaves_nothing_due_witness:
  "\<exists>c'. Run fifo_send 100 demo_active = Some (kSuccess, Some 10, False, c')
     \<and> (\<forall>e\<in>set (c_executing c'). \<not> DeadlineReached 100 (ex_deadline e))"
proof -
  obtain c where r: "Run fifo_send 100 demo_active = Some (kSuccess, Some 10, False, c)" by (rule demo_runE)
  moreover have "GetTimestamp 100 demo_active = 100" by code_simp
  ultimately show ?thesis using Run_leaves_nothing_due [OF reachable_demo(3) _ r] demo_active_state by auto
qed

text \<open>
  C14. The bookkeeping of a reachable controller is exact: no instruction executes twice, so that the
  executing list never outgrows the program; each entry belongs to an active group; each group's
  counters are the numbers of its executing instructions and of its active children; a program that
  is not active has nothing executing and no active group.
\<close>

theorem reachable_bookkeeping:
  assumes "reachable send c"
  shows "length (c_executing c) \<le> c_instruction_count c \<and> c_instruction_count c \<le> kMaxExecuting
    \<and> distinct (map ex_instruction_index (c_executing c))
    \<and> (\<forall>e\<in>set (c_executing c). ex_instruction_index e < c_instruction_count c \<and> ex_runtime_index e < c_group_count c
         \<and> rt_active (c_runtimes c ! ex_runtime_index e))
    \<and> (\<forall>g < c_group_count c.
         rt_active_count (c_runtimes c ! g) = length (filter (\<lambda>e. ex_runtime_index e = g) (c_executing c))
         \<and> rt_child_count (c_runtimes c ! g) = card {h. h < c_group_count c \<and> h \<noteq> 0
               \<and> rt_active (c_runtimes c ! h) \<and> rt_parent_group_index (c_runtimes c ! h) = g})
    \<and> (c_state c \<noteq> kActive \<longrightarrow> c_executing c = [] \<and> (\<forall>g < c_group_count c. \<not> rt_active (c_runtimes c ! g)))"
proof -
  have inv: "ctl_inv c" using reachable_inv [OF assms] .
  then have n: "c_instruction_count c \<le> kMaxExecuting" by (simp add: ctl_inv_def base_inv_def kMaxExecuting_def)
  show ?thesis
  proof (cases "c_state c = kEditable")
    case True
    then show ?thesis using inv n by (simp add: ctl_inv_def)
  next
    case False
    then have l: "live_inv c" using inv by (simp add: ctl_inv_def)
    note f = run_okD [OF live_invD(7) [OF l]]
    have ac: "rt_active_count (c_runtimes c ! g) = length (filter (\<lambda>e. ex_runtime_index e = g) (c_executing c))"
      if "g < c_group_count c" for g
    proof -
      have "image_mset fst (epairs (c_executing c)) = mset (map ex_runtime_index (c_executing c))"
        by (simp add: epairs_def comp_def flip: mset_map)
      then have "rt_active_count (c_runtimes c ! g) = count_list (map ex_runtime_index (c_executing c)) g"
        using f(9) [OF that] by (simp only: count_mset)
      then show ?thesis by (simp only: count_list_map_filter)
    qed
    show ?thesis
      using executing_length [OF l] n executing_distinct [OF l] executing_bound [OF l] ac f(10) idle_executing [OF inv]
        idle_runtimes [OF l]
      by (simp add: children_def)
  qed
qed

theorem reachable_bookkeeping_witness:
  "\<exists>c'. Run fifo_send 100 demo_active = Some (kSuccess, Some 10, False, c')
     \<and> length (c_executing c') \<le> c_instruction_count c' \<and> distinct (map ex_instruction_index (c_executing c'))"
proof -
  obtain c where r: "Run fifo_send 100 demo_active = Some (kSuccess, Some 10, False, c)" by (rule demo_runE)
  from reachable_bookkeeping [OF reachable.step [OF reachable_demo(3) ctl_step.run [OF r]]] r show ?thesis by blast
qed

text \<open>
  C10. Start admits exactly the valid programs. A reachable controller that is not active accepts its
  stored program if and only if every RunGroup target exists, no group calls itself through others
  and every repeated group has a time boundary; otherwise the status is kInvalidProgram. Every
  rejection, kBusy included, leaves the controller as it was. An accepted program is active unless
  its root group is empty, nothing is executing yet, and neither the program nor the strip changed.
\<close>

theorem Start_admits_exactly_valid:
  assumes "reachable send c"
  shows "if c_state c = kActive then Start now repeats c = (kBusy, c)
    else if valid_program (c_instructions c) (c_instruction_count c) repeats
    then \<exists>c'. Start now repeats c = (kSuccess, c') \<and> c_executing c' = [] \<and> c_device c' = c_device c
      \<and> map slot_ResetForReplay (c_instructions c') = map slot_ResetForReplay (c_instructions c)
      \<and> c_instruction_count c' = c_instruction_count c
      \<and> c_state c' = (if \<exists>i < c_instruction_count c. GetGroupId (c_instructions c ! i) = 0 then kActive else kCompleted)
    else Start now repeats c = (kInvalidProgram, c)"
proof (cases "c_state c = kActive")
  case False
  then show ?thesis using Start_ok [OF reachable_inv [OF assms] False, of repeats now] by (auto split: if_splits)
qed (simp add: Start_def)

theorem Start_admits_exactly_valid_witness:
  "c_state demo_active = kActive \<and> Start 7 3 demo_active = (kBusy, demo_active)
   \<and> valid_program (c_instructions demo_loaded) (c_instruction_count demo_loaded) 0"
proof -
  have "fst (Start 100 0 demo_loaded) = kSuccess" "c_state demo_loaded = kEditable" by code_simp+
  then show ?thesis
    using Start_admits_exactly_valid [OF reachable_demo(3), of 7 3] demo_active_state
      Start_admits_exactly_valid [OF reachable_demo(2), of 100 0] by (auto split: if_splits)
qed

text \<open>
  C18. A running program cannot be changed. While a reachable controller is active every public
  operation except ResetInstructions, and the other task taking frames, keeps the program (its instructions up to their replay state,
  their number, the groups and their order, the refresh period), and the program stays active or is
  completed; it never becomes editable.
\<close>

theorem active_program_is_fixed:
  assumes "reachable send c" "c_state c = kActive" "ctl_step send c c'"
  shows "c' = ResetInstructions c \<or>
    (map slot_ResetForReplay (c_instructions c') = map slot_ResetForReplay (c_instructions c)
     \<and> c_instruction_count c' = c_instruction_count c \<and> c_group_indices c' = c_group_indices c
     \<and> c_groups c' = c_groups c \<and> c_group_count c' = c_group_count c
     \<and> c_refresh_period_ms c' = c_refresh_period_ms c \<and> c_state c' \<noteq> kEditable)"
  using assms(3)
proof (cases rule: ctl_step.cases)
  case (run now st d sh)
  then show ?thesis
    using Run_ok [OF reachable_inv [OF assms(1)], of send now] assms(2) by (auto simp: program_def)
next
  case (add i)
  then show ?thesis using assms(2) by (simp add: AddInstruction_cases split: option.splits)
qed (use assms(2) in \<open>simp_all add: Start_def SetRefreshPeriodMs_def SetStrip_def SetTimestampCallback_def
        SetScheduleCallback_def\<close>)

theorem active_program_is_fixed_witness:
  "\<exists>c'. Run fifo_send 100 demo_active = Some (kSuccess, Some 10, False, c')
     \<and> (c' = ResetInstructions demo_active \<or> c_instruction_count c' = c_instruction_count demo_active)"
proof -
  obtain c where r: "Run fifo_send 100 demo_active = Some (kSuccess, Some 10, False, c)" by (rule demo_runE)
  from active_program_is_fixed [OF reachable_demo(3) _ ctl_step.run [OF r]] demo_active_state r show ?thesis by blast
qed

fun add_all :: "ControllerInstruction list \<Rightarrow> 'mb Controller \<Rightarrow> ControllerStatus list \<times> 'mb Controller" where
  "add_all [] c = ([], c)"
| "add_all (i # is) c =
     (case AddInstruction (Some i) c of (st, c1) \<Rightarrow> case add_all is c1 of (sts, c2) \<Rightarrow> (st # sts, c2))"

lemma add_all_ok:
  assumes "c_state c = kEditable" "length (c_instructions c) = kMaxInstructions" "c_instruction_count c \<le> kMaxInstructions"
    and "add_all is c = (sts, c')"
  shows "let room = kMaxInstructions - c_instruction_count c in
    take (c_instruction_count c') (c_instructions c') = take (c_instruction_count c) (c_instructions c)
        @ map (\<lambda>i. Some (i\<lparr>i_strip := c_strip c, i_controller := True\<rparr>)) (take room is)
    \<and> c_instruction_count c' = min kMaxInstructions (c_instruction_count c + length is)
    \<and> sts = replicate (min room (length is)) kSuccess @ replicate (length is - room) kCapacityExhausted"
  using assms
proof (induction "is" arbitrary: c sts c')
  case (Cons i "is")
  obtain st c1 where a: "AddInstruction (Some i) c = (st, c1)" by (metis prod.exhaust)
  obtain sts2 where b: "add_all is c1 = (sts2, c')" "sts = st # sts2"
    using Cons.prems(4) by (auto simp: a split: prod.splits)
  show ?case
  proof (cases "c_instruction_count c < kMaxInstructions")
    case True
    then have c1: "st = kSuccess" "c1 = c\<lparr>c_instructions := (c_instructions c)[c_instruction_count c :=
                  Some (i\<lparr>i_strip := c_strip c, i_controller := True\<rparr>)], c_instruction_count := c_instruction_count c + 1\<rparr>"
      using a Cons.prems by (simp_all add: AddInstruction_cases)
    obtain room where room: "kMaxInstructions - c_instruction_count c = Suc room" "kMaxInstructions - Suc (c_instruction_count c) = room"
      using True by (cases "kMaxInstructions - c_instruction_count c") auto
    have "take (Suc (c_instruction_count c)) ((c_instructions c)[c_instruction_count c := x]) = take (c_instruction_count c) (c_instructions c) @ [x]" for x
      using True Cons.prems(2) by (simp add: take_Suc_conv_app_nth)
    moreover have "let room = kMaxInstructions - c_instruction_count c1 in
        take (c_instruction_count c') (c_instructions c') = take (c_instruction_count c1) (c_instructions c1)
            @ map (\<lambda>i. Some (i\<lparr>i_strip := c_strip c1, i_controller := True\<rparr>)) (take room is)
        \<and> c_instruction_count c' = min kMaxInstructions (c_instruction_count c1 + length is)
        \<and> sts2 = replicate (min room (length is)) kSuccess @ replicate (length is - room) kCapacityExhausted"
      using Cons.prems True b(1) by (intro Cons.IH) (simp_all add: c1)
    ultimately show ?thesis
      unfolding b(2) c1(1) Let_def room by (clarsimp simp: c1(2) room)
  next
    case False
    then have c1: "st = kCapacityExhausted" "c1 = c" using a Cons.prems by (simp_all add: AddInstruction_cases)
    have full: "c_instruction_count c = kMaxInstructions" using False Cons.prems(3) by simp
    have "let room = kMaxInstructions - c_instruction_count c in
        take (c_instruction_count c') (c_instructions c') = take (c_instruction_count c) (c_instructions c)
            @ map (\<lambda>i. Some (i\<lparr>i_strip := c_strip c, i_controller := True\<rparr>)) (take room is)
        \<and> c_instruction_count c' = min kMaxInstructions (c_instruction_count c + length is)
        \<and> sts2 = replicate (min room (length is)) kSuccess @ replicate (length is - room) kCapacityExhausted"
      using Cons.prems b(1) by (intro Cons.IH) (simp_all add: c1)
    then show ?thesis by (clarsimp simp: b(2) c1(1) full)
  qed
qed simp

text \<open>
  C22. Loading a program. Adding a sequence of instructions to an editable controller with an empty
  program, whatever the outcome of each call, stores the longest prefix that fits, in order, each
  bound to the controller and its strip; the calls beyond the capacity are rejected with
  kCapacityExhausted.
\<close>

theorem AddInstruction_loads_prefix:
  assumes "reachable send c" "c_state c = kEditable" "c_instruction_count c = 0" "add_all is c = (sts, c')"
  shows "take (c_instruction_count c') (c_instructions c') =
           map (\<lambda>i. Some (i\<lparr>i_strip := c_strip c, i_controller := True\<rparr>)) (take kMaxInstructions is)
    \<and> c_instruction_count c' = min kMaxInstructions (length is)
    \<and> sts = replicate (min kMaxInstructions (length is)) kSuccess @ replicate (length is - kMaxInstructions) kCapacityExhausted"
proof -
  have "length (c_instructions c) = kMaxInstructions"
    using reachable_inv [OF assms(1)] by (simp add: ctl_inv_def base_inv_def)
  from add_all_ok [OF assms(2) this _ assms(4)] show ?thesis by (clarsimp simp: Let_def assms(3))
qed

theorem AddInstruction_loads_prefix_witness:
  "fst (add_all (replicate 40 (instr 0 0 (SetSingleColor black 0))) demo_controller)
     = replicate 28 kSuccess @ replicate 12 kCapacityExhausted"
proof -
  obtain sts c' where r: "add_all (replicate 40 (instr 0 0 (SetSingleColor black 0))) demo_controller = (sts, c')"
    by (metis prod.exhaust)
  have "c_state demo_controller = kEditable" "c_instruction_count demo_controller = 0" by code_simp+
  from AddInstruction_loads_prefix [OF reachable_demo(1) this r] r show ?thesis
    by (simp add: kMaxInstructions_def)
qed

text \<open>
  Deadlines survive the wrap of the millisecond counter: for a deadline less than half the range
  after some instant, and a time less than half the range after the same instant, DeadlineReached
  holds exactly when the deadline is not later, wherever the instant lies.
\<close>

theorem DeadlineReached_wraps:
  assumes "unat d < 2 ^ 31" "unat k < 2 ^ 31"
  shows "DeadlineReached (t + k) (t + d) \<longleftrightarrow> d \<le> k"
proof -
  have "(t + k) - (t + d) = k - d" by simp
  then show ?thesis
    using assms by (auto simp: DeadlineReached_def kTimestampHalfRange_def word_less_nat_alt word_le_nat_alt unat_sub_if')
qed

theorem DeadlineReached_wraps_witness:
  "DeadlineReached (0xFFFFFFFF + 5) (0xFFFFFFFF + 2) \<and> \<not> DeadlineReached (0xFFFFFFFF + 1) (0xFFFFFFFF + 2)"
  using DeadlineReached_wraps [of 2 5 "0xFFFFFFFF"] DeadlineReached_wraps [of 2 1 "0xFFFFFFFF"]
  by (simp add: word_le_nat_alt)

end
