(* ===== verification/Protocol.thy ===== *)
theory Protocol
  imports Bytes
begin

text \<open>
  The tag-length-value protocol engine of src/protocol: tags.hpp, frame.hpp, protocol.hpp and
  protocol.cpp. A frame on the wire is a sync byte, a little-endian tag and length, the data and
  the XOR of header and data.

  The stream callbacks, the clock and the registered handlers act on an environment of type \<open>'e\<close>;
  they are functions the model takes as they are given to the class. The read callback gets the
  size of the buffer and returns the bytes it stored there and the count it reports. The handlers
  of the repository use their context argument for debug output only, so a user handler is a
  function of the payload and the environment; the built-in loopback handler works on the engine
  itself. Debug output is not modelled. The first \<open>handler_count_\<close> entries of the handler table are
  a list. The pointer \<open>tx_data_\<close>, null or the address of the transmit buffer, is a flag. Buffer
  indexes are natural numbers, and every index is shown to stay within its buffer.
\<close>

section \<open>Tags and frames\<close>

type_synonym Tag = u16

definition Tag_kLoopback :: Tag where "Tag_kLoopback = 0x0000"
definition Tag_kSetMultipleColor :: Tag where "Tag_kSetMultipleColor = 0x0100"
definition Tag_kSetSingleColor :: Tag where "Tag_kSetSingleColor = 0x0101"
definition Tag_kResetInstructions :: Tag where "Tag_kResetInstructions = 0x0102"
definition Tag_kRun :: Tag where "Tag_kRun = 0x0103"
definition Tag_kSetSingleColorHsv :: Tag where "Tag_kSetSingleColorHsv = 0x0105"
definition Tag_kSetMultipleColorHsv :: Tag where "Tag_kSetMultipleColorHsv = 0x0106"
definition Tag_kSetMultipleColorGrouped :: Tag where "Tag_kSetMultipleColorGrouped = 0x0107"
definition Tag_kSetSingleColorGrouped :: Tag where "Tag_kSetSingleColorGrouped = 0x0108"
definition Tag_kSetSingleColorHsvGrouped :: Tag where "Tag_kSetSingleColorHsvGrouped = 0x0109"
definition Tag_kSetMultipleColorHsvGrouped :: Tag where "Tag_kSetMultipleColorHsvGrouped = 0x010A"
definition Tag_kRunGroup :: Tag where "Tag_kRunGroup = 0x010B"
definition Tag_kStart :: Tag where "Tag_kStart = 0x010C"
definition Tag_kFade :: Tag where "Tag_kFade = 0x010D"
definition Tag_kGradient :: Tag where "Tag_kGradient = 0x010E"

lemmas tag_defs = Tag_kLoopback_def Tag_kSetMultipleColor_def Tag_kSetSingleColor_def Tag_kResetInstructions_def
  Tag_kRun_def Tag_kSetSingleColorHsv_def Tag_kSetMultipleColorHsv_def Tag_kSetMultipleColorGrouped_def
  Tag_kSetSingleColorGrouped_def Tag_kSetSingleColorHsvGrouped_def Tag_kSetMultipleColorHsvGrouped_def
  Tag_kRunGroup_def Tag_kStart_def Tag_kFade_def Tag_kGradient_def

definition kSyncByte :: u8 where "kSyncByte = 0xAA"
definition kHeaderSize :: nat where "kHeaderSize = 4"
definition kMaxFrameDataLength :: nat where "kMaxFrameDataLength = 256"
definition kRxBufferSize :: nat where "kRxBufferSize = kHeaderSize + kMaxFrameDataLength"
definition kMaxHandlers :: nat where "kMaxHandlers = 15"

lemmas size_defs = kHeaderSize_def kMaxFrameDataLength_def kRxBufferSize_def

record FrameHeader =
  hdr_tag :: u16
  hdr_length :: u16

record Frame =
  fr_tag :: Tag
  fr_data :: "u8 list option"
  fr_length :: u16

definition Frame_default :: Frame where
  "Frame_default = \<lparr>fr_tag = 0, fr_data = None, fr_length = 0\<rparr>"

definition Frame_Create :: "Tag \<Rightarrow> u8 list option \<Rightarrow> u16 \<Rightarrow> Frame" where
  "Frame_Create tag data len =
     (if kMaxFrameDataLength < unat len then Frame_default
      else if 0 < len \<and> data = None then Frame_default
      else \<lparr>fr_tag = tag, fr_data = data, fr_length = len\<rparr>)"

definition IsValid :: "Frame \<Rightarrow> bool" where
  "IsValid f \<longleftrightarrow> fr_length f = 0 \<or> fr_data f \<noteq> None"

definition ParseHeader :: "u8 list option \<Rightarrow> FrameHeader" where
  "ParseHeader wire_data =
     (case wire_data of
        None \<Rightarrow> \<lparr>hdr_tag = 0, hdr_length = 0\<rparr>
      | Some d \<Rightarrow> \<lparr>hdr_tag = le16 (d ! 0) (d ! 1), hdr_length = le16 (d ! 2) (d ! 3)\<rparr>)"

section \<open>The engine\<close>

datatype State = kWaitingForSync | kReadingHeader | kReadingData | kReadingChecksum

datatype 'e FrameHandler =
    LoopbackImpl
  | Handler "u8 list \<Rightarrow> u16 \<Rightarrow> 'e \<Rightarrow> 'e"

record 'e ProtocolConfig =
  cfg_read :: "(nat \<Rightarrow> 'e \<Rightarrow> u8 list \<times> u32 \<times> 'e) option"
  cfg_write :: "(u8 list \<Rightarrow> 'e \<Rightarrow> bool \<times> 'e) option"
  cfg_timestamp :: "('e \<Rightarrow> u32) option"
  cfg_frame_timeout :: u32

record 'e Protocol =
  p_config :: "'e ProtocolConfig"
  p_handlers :: "(Tag \<times> 'e FrameHandler) list"
  p_readahead :: "u8 list"
  p_readahead_idx :: nat
  p_readahead_cnt :: nat
  p_state :: State
  p_frame_start_ts :: u32
  p_rx_buffer :: "u8 list"
  p_rx_index :: nat
  p_rx_data_length :: u16
  p_rx_tag :: u16
  p_tx_data_buffer :: "u8 list"
  p_tx_data :: bool
  p_tx_length :: u16
  p_tx_tag :: u16

definition kReadahead :: nat where "kReadahead = 16"

definition Protocol_init :: "'e ProtocolConfig \<Rightarrow> 'e Protocol" where
  "Protocol_init config =
     \<lparr>p_config = config, p_handlers = [(Tag_kLoopback, LoopbackImpl)],
      p_readahead = replicate kReadahead 0, p_readahead_idx = 0, p_readahead_cnt = 0,
      p_state = kWaitingForSync, p_frame_start_ts = 0, p_rx_buffer = replicate kRxBufferSize 0,
      p_rx_index = 0, p_rx_data_length = 0, p_rx_tag = 0,
      p_tx_data_buffer = replicate kMaxFrameDataLength 0, p_tx_data = False, p_tx_length = 0,
      p_tx_tag = 0\<rparr>"

definition AddHandler :: "Tag \<Rightarrow> 'e FrameHandler option \<Rightarrow> 'e Protocol \<Rightarrow> bool \<times> 'e Protocol" where
  "AddHandler tag handler p =
     (case handler of
        None \<Rightarrow> (False, p)
      | Some h \<Rightarrow>
          if kMaxHandlers \<le> length (p_handlers p) then (False, p)
          else if list_ex (\<lambda>(t, _). t = tag) (p_handlers p) then (False, p)
          else (True, p\<lparr>p_handlers := p_handlers p @ [(tag, h)]\<rparr>))"

definition Send :: "Frame \<Rightarrow> 'e Protocol \<Rightarrow> bool \<times> 'e Protocol" where
  "Send frame p =
     (if \<not> IsValid frame then (False, p)
      else if p_tx_data p then (False, p)
      else
        let p1 = p\<lparr>p_tx_tag := fr_tag frame, p_tx_length := fr_length frame\<rparr>;
            p2 = (case fr_data frame of
                    Some d \<Rightarrow> if 0 < fr_length frame
                              then p1\<lparr>p_tx_data_buffer := memcpy (unat (fr_length frame)) d (p_tx_data_buffer p1)\<rparr>
                              else p1
                  | None \<Rightarrow> p1)
        in (True, p2\<lparr>p_tx_data := True\<rparr>))"

section \<open>Transmission\<close>

definition ComputeChecksum :: "u8 list \<Rightarrow> u8 list \<Rightarrow> u16 \<Rightarrow> u8" where
  "ComputeChecksum header data data_length =
     fold (\<lambda>i cs. cs XOR data ! i) [0..<unat data_length]
       (fold (\<lambda>i cs. cs XOR header ! i) [0..<kHeaderSize] 0)"

definition k_chunk_size :: nat where "k_chunk_size = 64"

text \<open>The lambdas of WriteFrameWire; the first \<open>fill\<close> bytes of the chunk are a list.\<close>

definition flush :: "(u8 list \<Rightarrow> 'e \<Rightarrow> bool \<times> 'e) \<Rightarrow> u8 list \<times> 'e \<Rightarrow> bool \<times> u8 list \<times> 'e" where
  "flush wr s = (case s of (chunk, e) \<Rightarrow>
     if chunk = [] then (True, [], e) else case wr chunk e of (ok, e1) \<Rightarrow> (ok, [], e1))"

definition emit :: "(u8 list \<Rightarrow> 'e \<Rightarrow> bool \<times> 'e) \<Rightarrow> u8 \<Rightarrow> u8 list \<times> 'e \<Rightarrow> bool \<times> u8 list \<times> 'e" where
  "emit wr b s =
     (if k_chunk_size < length (fst s) + 1
      then case flush wr s of (ok, chunk, e) \<Rightarrow>
             if \<not> ok then (False, chunk, e) else (True, chunk @ [b], e)
      else (True, fst s @ [b], snd s))"

fun emit_all :: "(u8 list \<Rightarrow> 'e \<Rightarrow> bool \<times> 'e) \<Rightarrow> u8 list \<Rightarrow> u8 list \<times> 'e \<Rightarrow> bool \<times> u8 list \<times> 'e" where
  "emit_all wr [] s = (True, s)"
| "emit_all wr (b # bs) s =
     (case emit wr b s of (ok, s1) \<Rightarrow> if ok then emit_all wr bs s1 else (False, s1))"

definition WriteFrameWire :: "u8 list \<Rightarrow> u8 list \<Rightarrow> u16 \<Rightarrow> 'e Protocol \<Rightarrow> 'e \<Rightarrow> bool \<times> 'e" where
  "WriteFrameWire header data data_length p e =
     (case cfg_write (p_config p) of
        None \<Rightarrow> (False, e)
      | Some wr \<Rightarrow>
          (case emit wr kSyncByte ([], e) of (ok1, s1) \<Rightarrow>
             if \<not> ok1 then (False, snd s1)
             else case emit_all wr (map ((!) header) [0..<kHeaderSize]) s1 of (ok2, s2) \<Rightarrow>
               if \<not> ok2 then (False, snd s2)
               else case emit_all wr (map ((!) data) [0..<unat data_length]) s2 of (ok3, s3) \<Rightarrow>
                 if \<not> ok3 then (False, snd s3)
                 else case emit wr (ComputeChecksum header data data_length) s3 of (ok4, s4) \<Rightarrow>
                   if \<not> ok4 then (False, snd s4)
                   else case flush wr s4 of (ok5, s5) \<Rightarrow> (ok5, snd s5)))"

definition TxPhase :: "'e Protocol \<Rightarrow> 'e \<Rightarrow> 'e Protocol \<times> 'e" where
  "TxPhase p e =
     (if p_tx_data p
      then
        let header = bytes16 (p_tx_tag p) @ bytes16 (p_tx_length p)
        in case WriteFrameWire header (p_tx_data_buffer p) (p_tx_length p) p e of (ok, e1) \<Rightarrow>
             if ok then (p\<lparr>p_tx_data := False\<rparr>, e1) else (p, e1)
      else (p, e))"

section \<open>Reception\<close>

definition ResetParser :: "'e Protocol \<Rightarrow> 'e Protocol" where
  "ResetParser p =
     p\<lparr>p_state := kWaitingForSync, p_rx_index := 0, p_rx_data_length := 0, p_rx_tag := 0,
       p_frame_start_ts := 0\<rparr>"

text \<open>The built-in handler for kLoopback: the frame is echoed unless one is waiting to be sent.\<close>

definition Loopback :: "u8 list \<Rightarrow> u16 \<Rightarrow> 'e Protocol \<Rightarrow> 'e Protocol" where
  "Loopback data len p =
     (if p_tx_data p then p
      else
        let p1 = p\<lparr>p_tx_tag := Tag_kLoopback, p_tx_length := len\<rparr>;
            p2 = (if 0 < len then p1\<lparr>p_tx_data_buffer := memcpy (unat len) data (p_tx_data_buffer p1)\<rparr> else p1)
        in p2\<lparr>p_tx_data := True\<rparr>)"

definition DispatchFrame :: "'e Protocol \<Rightarrow> 'e \<Rightarrow> 'e Protocol \<times> 'e" where
  "DispatchFrame p e =
     (let data = take (unat (p_rx_data_length p)) (drop kHeaderSize (p_rx_buffer p))
      in case List.find (\<lambda>(t, _). t = p_rx_tag p) (p_handlers p) of
           None \<Rightarrow> (p, e)
         | Some (_, LoopbackImpl) \<Rightarrow> (Loopback data (p_rx_data_length p) p, e)
         | Some (_, Handler f) \<Rightarrow> (p, f data (p_rx_data_length p) e))"

definition ReadRawByte :: "'e Protocol \<Rightarrow> 'e \<Rightarrow> u8 option \<times> 'e Protocol \<times> 'e" where
  "ReadRawByte p e =
     (if p_readahead_idx p < p_readahead_cnt p
      then (Some (p_readahead p ! p_readahead_idx p), p\<lparr>p_readahead_idx := p_readahead_idx p + 1\<rparr>, e)
      else case cfg_read (p_config p) of
        None \<Rightarrow> (None, p, e)
      | Some rd \<Rightarrow>
          (case rd kReadahead e of (bytes, n, e1) \<Rightarrow>
             let p1 = p\<lparr>p_readahead := bytes @ drop (length bytes) (p_readahead p),
                        p_readahead_cnt := (if kReadahead < unat n then kReadahead else unat n)\<rparr>
             in if 0 < p_readahead_cnt p1
                then (Some (p_readahead p1 ! 0), p1\<lparr>p_readahead_idx := 1\<rparr>, e1)
                else (None, p1, e1)))"

text \<open>The body of the receive loop: one byte through the state machine.\<close>

definition rx_byte :: "u8 \<Rightarrow> 'e Protocol \<Rightarrow> 'e \<Rightarrow> 'e Protocol \<times> 'e" where
  "rx_byte raw p e =
     (case p_state p of
        kWaitingForSync \<Rightarrow>
          if raw = kSyncByte
          then
            let p1 = ResetParser p;
                p2 = (case cfg_timestamp (p_config p1) of
                        Some clock \<Rightarrow> p1\<lparr>p_frame_start_ts := clock e\<rparr> | None \<Rightarrow> p1)
            in (p2\<lparr>p_state := kReadingHeader\<rparr>, e)
          else (p, e)
      | kReadingHeader \<Rightarrow>
          let p1 = p\<lparr>p_rx_buffer := (p_rx_buffer p)[p_rx_index p := raw], p_rx_index := p_rx_index p + 1\<rparr>
          in if kHeaderSize \<le> p_rx_index p1
             then
               let hdr = ParseHeader (Some (p_rx_buffer p1))
               in if kMaxFrameDataLength < unat (hdr_length hdr) then (ResetParser p1, e)
                  else
                    let p2 = p1\<lparr>p_rx_tag := hdr_tag hdr, p_rx_data_length := hdr_length hdr, p_rx_index := 0\<rparr>
                    in if p_rx_data_length p2 = 0 then (p2\<lparr>p_state := kReadingChecksum\<rparr>, e)
                       else (p2\<lparr>p_state := kReadingData\<rparr>, e)
             else (p1, e)
      | kReadingData \<Rightarrow>
          let p1 = p\<lparr>p_rx_buffer := (p_rx_buffer p)[kHeaderSize + p_rx_index p := raw],
                     p_rx_index := p_rx_index p + 1\<rparr>
          in if unat (p_rx_data_length p1) \<le> p_rx_index p1 then (p1\<lparr>p_state := kReadingChecksum\<rparr>, e)
             else (p1, e)
      | kReadingChecksum \<Rightarrow>
          let expected = ComputeChecksum (p_rx_buffer p) (drop kHeaderSize (p_rx_buffer p)) (p_rx_data_length p)
          in if raw = expected
             then case DispatchFrame p e of (p1, e1) \<Rightarrow> (ResetParser p1, e1)
             else (ResetParser p, e))"

text \<open>The receive loop ends when no byte is available; None would be a loop that never ends.\<close>

partial_function (option) rx_loop :: "'e Protocol \<Rightarrow> 'e \<Rightarrow> ('e Protocol \<times> 'e) option" where
  "rx_loop p e =
     (case ReadRawByte p e of (byte, p1, e1) \<Rightarrow>
        (case byte of
           None \<Rightarrow> Some (p1, e1)
         | Some raw \<Rightarrow> (case rx_byte raw p1 e1 of (p2, e2) \<Rightarrow> rx_loop p2 e2)))"

declare rx_loop.simps [code]

definition check_timeout :: "'e Protocol \<Rightarrow> 'e \<Rightarrow> 'e Protocol" where
  "check_timeout p e =
     (case cfg_timestamp (p_config p) of
        None \<Rightarrow> p
      | Some clock \<Rightarrow>
          if 0 < cfg_frame_timeout (p_config p) \<and> p_state p \<noteq> kWaitingForSync \<and>
             cfg_frame_timeout (p_config p) < clock e - p_frame_start_ts p
          then ResetParser p else p)"

definition Protocol_Run :: "'e Protocol \<Rightarrow> 'e \<Rightarrow> ('e Protocol \<times> 'e) option" where
  "Protocol_Run p e =
     (case TxPhase p e of (p1, e1) \<Rightarrow>
        (case rx_loop (check_timeout p1 e1) e1 of
           None \<Rightarrow> None
         | Some (p2, e2) \<Rightarrow> Some (TxPhase p2 e2)))"

end
