(* ===== verification/ProtocolProps.thy ===== *)
theory ProtocolProps
  imports Protocol
begin

text \<open>
  Correctness of the protocol engine: transmission against a plain encoding of frames, the receive
  state machine against an abstract parser without buffers, the invariant of the engine, and the
  receive loop under the laws of a byte source.
\<close>

section \<open>The wire format\<close>

definition xorsum :: "u8 list \<Rightarrow> u8" where
  "xorsum bs = fold (\<lambda>b cs. cs XOR b) bs 0"

definition frame_header :: "Tag \<Rightarrow> u8 list \<Rightarrow> u8 list" where
  "frame_header tag data = bytes16 tag @ bytes16 (of_nat (length data))"

definition wire :: "Tag \<times> u8 list \<Rightarrow> u8 list" where
  "wire = (\<lambda>(tag, data). kSyncByte # frame_header tag data @ data @ [xorsum (frame_header tag data @ data)])"

lemma length_frame_header [simp]: "length (frame_header tag data) = 4"
  by (simp add: frame_header_def)

lemma fold_index: "n \<le> length xs \<Longrightarrow> fold (\<lambda>i. f (xs ! i)) [0..<n] a = fold f (take n xs) a"
proof (induction n)
  case (Suc n)
  then show ?case by (simp add: take_Suc_conv_app_nth)
qed simp

lemma ComputeChecksum_xorsum:
  "kHeaderSize \<le> length header \<Longrightarrow> unat n \<le> length data \<Longrightarrow>
   ComputeChecksum header data n = xorsum (take kHeaderSize header @ take (unat n) data)"
  using fold_index [of kHeaderSize header "\<lambda>b cs. cs XOR b" 0]
    fold_index [of "unat n" data "\<lambda>b cs. cs XOR b"]
  by (simp add: ComputeChecksum_def xorsum_def)

section \<open>Transmission in chunks\<close>

function chunks :: "u8 list \<Rightarrow> u8 list list" where
  "chunks xs = (if xs = [] then [] else take k_chunk_size xs # chunks (drop k_chunk_size xs))"
  by pat_completeness auto
termination
  by (relation "measure length") (auto simp: k_chunk_size_def)

declare chunks.simps [simp del]

fun write_all :: "(u8 list \<Rightarrow> 'e \<Rightarrow> bool \<times> 'e) \<Rightarrow> u8 list list \<Rightarrow> 'e \<Rightarrow> bool \<times> 'e" where
  "write_all wr [] e = (True, e)"
| "write_all wr (c # cs) e = (case wr c e of (ok, e1) \<Rightarrow> if ok then write_all wr cs e1 else (False, e1))"

lemma chunks_concat: "concat (chunks xs) = xs \<and> (\<forall>c\<in>set (chunks xs). c \<noteq> [] \<and> length c \<le> k_chunk_size)"
proof (induction xs rule: chunks.induct)
  case (1 xs)
  then show ?case by (subst (1 2) chunks.simps) (auto simp: k_chunk_size_def)
qed

lemma chunks_full: "length c = k_chunk_size \<Longrightarrow> chunks (c @ xs) = c # chunks xs"
  by (subst chunks.simps) (auto simp: k_chunk_size_def)

lemma chunks_short: "length c \<le> k_chunk_size \<Longrightarrow> chunks c = (if c = [] then [] else [c])"
  by (subst chunks.simps) (auto simp: chunks.simps [of "[]"])

definition finish :: "(u8 list \<Rightarrow> 'e \<Rightarrow> bool \<times> 'e) \<Rightarrow> bool \<times> u8 list \<times> 'e \<Rightarrow> bool \<times> 'e" where
  "finish wr r = (if fst r then case flush wr (snd r) of (ok, s) \<Rightarrow> (ok, snd s) else (False, snd (snd r)))"

lemma emit_all_chunks:
  "length chunk \<le> k_chunk_size \<Longrightarrow>
   finish wr (emit_all wr bs (chunk, e)) = write_all wr (chunks (chunk @ bs)) e"
proof (induction bs arbitrary: chunk e)
  case Nil
  then show ?case by (auto simp: finish_def flush_def chunks_short split: prod.splits)
next
  case (Cons b bs)
  show ?case
  proof (cases "length chunk = k_chunk_size")
    case True
    then have ne: "chunk \<noteq> []" by (auto simp: k_chunk_size_def)
    obtain ok e1 where w: "wr chunk e = (ok, e1)" by (metis prod.exhaust)
    have "emit wr b (chunk, e) = (ok, if ok then [b] else [], e1)"
      using True ne w by (simp add: emit_def flush_def)
    then have "finish wr (emit_all wr (b # bs) (chunk, e)) = (if ok then finish wr (emit_all wr bs ([b], e1)) else (False, e1))"
      by (simp add: finish_def)
    also have "\<dots> = write_all wr (chunks (chunk @ b # bs)) e"
      using Cons.IH [of "[b]" e1] w by (simp add: chunks_full [OF True] k_chunk_size_def)
    finally show ?thesis .
  next
    case False
    then have "length (chunk @ [b]) \<le> k_chunk_size" using Cons.prems by simp
    then show ?thesis using Cons.IH [of "chunk @ [b]" e] by (simp add: emit_def)
  qed
qed

lemma emit_all_append:
  "emit_all wr (xs @ ys) s = (case emit_all wr xs s of (ok, s1) \<Rightarrow> if ok then emit_all wr ys s1 else (False, s1))"
  by (induction xs arbitrary: s) (auto split: prod.splits)

lemma emit_single: "emit_all wr [b] s = emit wr b s"
  by (auto split: prod.splits)

lemma map_nth_take: "n \<le> length xs \<Longrightarrow> map ((!) xs) [0..<n] = take n xs"
  by (auto intro: nth_equalityI)

lemma WriteFrameWire_chunks:
  assumes "length header = kHeaderSize" "unat n \<le> length data" "cfg_write (p_config p) = Some wr"
  shows "WriteFrameWire header data n p e =
    write_all wr (chunks (kSyncByte # header @ take (unat n) data @ [xorsum (header @ take (unat n) data)])) e"
proof -
  let ?d = "take (unat n) data" and ?c = "xorsum (header @ take (unat n) data)"
  have "write_all wr (chunks ([] @ [kSyncByte] @ header @ ?d @ [?c])) e
      = finish wr (emit_all wr ([kSyncByte] @ header @ ?d @ [?c]) ([], e))"
    by (intro emit_all_chunks [symmetric]) simp
  also have "\<dots> = WriteFrameWire header data n p e"
    unfolding emit_all_append emit_single
    using assms
    by (auto simp: WriteFrameWire_def ComputeChecksum_xorsum map_nth_take finish_def split: prod.splits)
  finally show ?thesis by simp
qed

section \<open>The abstract parser\<close>

text \<open>
  What the receiver promises, without buffers and indexes: the bytes of the current frame seen so
  far, and a frame when a checksum byte completes one.
\<close>

datatype Parser = Sync | Header "u8 list" | Body "u8 list" "u8 list" | Check "u8 list" "u8 list"

definition header_length :: "u8 list \<Rightarrow> nat" where
  "header_length h = unat (le16 (h ! 2) (h ! 3))"

fun parse :: "u8 \<Rightarrow> Parser \<Rightarrow> Parser \<times> (Tag \<times> u8 list) option" where
  "parse b Sync = (if b = kSyncByte then Header [] else Sync, None)"
| "parse b (Header h) =
     (let h' = h @ [b]
      in (if length h' < kHeaderSize then Header h'
          else if kMaxFrameDataLength < header_length h' then Sync
          else if header_length h' = 0 then Check h' [] else Body h' [], None))"
| "parse b (Body h d) =
     (let d' = d @ [b] in (if length d' < header_length h then Body h d' else Check h d', None))"
| "parse b (Check h d) =
     (Sync, if b = xorsum (h @ d) then Some (le16 (h ! 0) (h ! 1), d) else None)"

fun parse_all :: "u8 list \<Rightarrow> Parser \<Rightarrow> Parser \<times> (Tag \<times> u8 list) list" where
  "parse_all [] s = (s, [])"
| "parse_all (b # bs) s =
     (case parse b s of (s1, out) \<Rightarrow> case parse_all bs s1 of (s2, outs) \<Rightarrow>
        (s2, (case out of None \<Rightarrow> outs | Some fr \<Rightarrow> fr # outs)))"

lemma parse_all_append:
  "parse_all (xs @ ys) s = (case parse_all xs s of (s1, o1) \<Rightarrow> case parse_all ys s1 of (s2, o2) \<Rightarrow> (s2, o1 @ o2))"
  by (induction xs arbitrary: s) (auto split: prod.splits option.splits)

text \<open>The data bytes of a frame, the last one excepted and the last one.\<close>

lemma parse_body:
  "length d + length bs \<le> header_length h \<Longrightarrow> bs \<noteq> [] \<Longrightarrow>
   parse_all bs (Body h d) = (if length d + length bs = header_length h then Check h (d @ bs) else Body h (d @ bs), [])"
proof (induction bs arbitrary: d)
  case (Cons b bs)
  show ?case
  proof (cases "bs = []")
    case False
    then have "length (d @ [b]) < header_length h" using Cons.prems by (cases bs) auto
    then show ?thesis using Cons.IH [of "d @ [b]"] Cons.prems False by (simp add: Let_def)
  qed (use Cons.prems in \<open>auto simp: Let_def\<close>)
qed simp

lemma parse_header:
  assumes "length h = kHeaderSize" "header_length h \<le> kMaxFrameDataLength"
  shows "parse_all h (Header []) = (if header_length h = 0 then Check h [] else Body h [], [])"
proof -
  obtain a b c d where "h = [a, b, c, d]" using assms(1) by (auto simp: kHeaderSize_def numeral_eq_Suc length_Suc_conv)
  then show ?thesis using assms by (simp add: Let_def kHeaderSize_def)
qed

lemma header_length_frame: "length data \<le> kMaxFrameDataLength \<Longrightarrow> header_length (frame_header tag data) = length data"
  by (simp add: header_length_def frame_header_def bytes16_ucast kMaxFrameDataLength_def unat_of_nat take_bit_eq_mod)

text \<open>From the sync state the encoding of a frame is parsed to this frame, whatever follows.\<close>

lemma parse_wire:
  assumes "length data \<le> kMaxFrameDataLength"
  shows "parse_all (wire (tag, data)) Sync = (Sync, [(tag, data)])"
proof -
  let ?h = "frame_header tag data"
  note hl = header_length_frame [OF assms, of tag]
  have h: "parse_all ?h (Header []) = (if header_length ?h = 0 then Check ?h [] else Body ?h [], [])"
    using assms hl by (intro parse_header) (simp_all add: kHeaderSize_def)
  have d: "parse_all data (if header_length ?h = 0 then Check ?h [] else Body ?h []) = (Check ?h data, [])"
    using parse_body [of "[]" data ?h] hl by (cases "data = []") auto
  have t: "le16 (?h ! 0) (?h ! Suc 0) = tag" by (simp add: frame_header_def bytes16_ucast)
  show ?thesis by (simp add: wire_def parse_all_append h d t)
qed

lemma parse_junk: "kSyncByte \<notin> set bs \<Longrightarrow> parse_all bs Sync = (Sync, [])"
  by (induction bs) auto

lemma parse_stream:
  assumes "\<forall>(junk, tag, data)\<in>set msgs. kSyncByte \<notin> set junk \<and> length data \<le> kMaxFrameDataLength"
  shows "parse_all (concat (map (\<lambda>(junk, frame). junk @ wire frame) msgs)) Sync = (Sync, map snd msgs)"
  using assms
proof (induction msgs)
  case (Cons m msgs)
  obtain junk tag data where m: "m = (junk, tag, data)" by (cases m)
  show ?case using Cons by (simp add: m parse_all_append parse_junk parse_wire)
qed simp

text \<open>One wrong byte after the header: the checksum cannot match.\<close>

lemma xorsum_snoc [simp]: "xorsum (bs @ [b]) = xorsum bs XOR b"
  by (simp add: xorsum_def)

lemma fold_xor: "fold (\<lambda>b cs. cs XOR b) bs a = a XOR xorsum bs" for a :: u8
proof (induction bs rule: rev_induct)
  case (snoc b bs)
  then show ?case by (simp add: xor.assoc)
qed (simp add: xorsum_def)

lemma xorsum_append: "xorsum (xs @ ys) = xorsum xs XOR xorsum ys"
proof -
  have "xorsum (xs @ ys) = fold (\<lambda>b cs. cs XOR b) ys (xorsum xs)" by (simp add: xorsum_def)
  then show ?thesis by (simp only: fold_xor)
qed

lemma xorsum_Cons: "xorsum (b # bs) = b XOR xorsum bs"
  using xorsum_append [of "[b]" bs] by (simp add: xorsum_def [of "[b]"])

lemma xor_cancel: "a XOR b = a XOR c \<longleftrightarrow> b = (c :: u8)"
  by (metis xor.assoc xor_self_eq xor.left_neutral)

lemma xorsum_update:
  assumes "i < length bs"
  shows "xorsum (bs[i := x]) = xorsum bs \<longleftrightarrow> x = bs ! i"
proof -
  have split: "bs = take i bs @ bs ! i # drop (Suc i) bs" using assms by (rule id_take_nth_drop)
  have a: "xorsum bs = xorsum (take i bs) XOR (bs ! i XOR xorsum (drop (Suc i) bs))"
    by (subst split) (simp only: xorsum_append xorsum_Cons)
  have b: "xorsum (bs[i := x]) = xorsum (take i bs) XOR (x XOR xorsum (drop (Suc i) bs))"
    using assms by (simp only: upd_conv_take_nth_drop xorsum_append xorsum_Cons)
  show ?thesis unfolding a b xor_cancel by (metis xor.commute xor_cancel)
qed

section \<open>The engine refines the parser\<close>

definition abs_parser :: "'e Protocol \<Rightarrow> Parser" where
  "abs_parser p =
     (let header = take kHeaderSize (p_rx_buffer p); data = drop kHeaderSize (p_rx_buffer p)
      in case p_state p of
           kWaitingForSync \<Rightarrow> Sync
         | kReadingHeader \<Rightarrow> Header (take (p_rx_index p) (p_rx_buffer p))
         | kReadingData \<Rightarrow> Body header (take (p_rx_index p) data)
         | kReadingChecksum \<Rightarrow> Check header (take (unat (p_rx_data_length p)) data))"

text \<open>Every index the receiver writes next lies within the buffer, and the cached fields are those of the header.\<close>

definition rx_ok :: "'e Protocol \<Rightarrow> bool" where
  "rx_ok p \<longleftrightarrow> length (p_rx_buffer p) = kRxBufferSize \<and>
     (p_state p = kReadingHeader \<longrightarrow> p_rx_index p < kHeaderSize) \<and>
     (p_state p = kReadingData \<longrightarrow> p_rx_index p < unat (p_rx_data_length p)) \<and>
     (p_state p \<in> {kReadingData, kReadingChecksum} \<longrightarrow>
        unat (p_rx_data_length p) \<le> kMaxFrameDataLength \<and>
        p_rx_tag p = le16 (p_rx_buffer p ! 0) (p_rx_buffer p ! 1) \<and>
        p_rx_data_length p = le16 (p_rx_buffer p ! 2) (p_rx_buffer p ! 3))"

definition tx_ok :: "'e Protocol \<Rightarrow> bool" where
  "tx_ok p \<longleftrightarrow> length (p_tx_data_buffer p) = kMaxFrameDataLength \<and> unat (p_tx_length p) \<le> kMaxFrameDataLength"

definition table_inv :: "'e Protocol \<Rightarrow> bool" where
  "table_inv p \<longleftrightarrow> length (p_handlers p) \<le> kMaxHandlers \<and> p_handlers p \<noteq> [] \<and>
     hd (p_handlers p) = (Tag_kLoopback, LoopbackImpl) \<and> distinct (map fst (p_handlers p))"

definition readahead_ok :: "'e Protocol \<Rightarrow> bool" where
  "readahead_ok p \<longleftrightarrow> length (p_readahead p) = kReadahead \<and> p_readahead_cnt p \<le> kReadahead \<and> p_readahead_idx p \<le> kReadahead"

definition protocol_inv :: "'e Protocol \<Rightarrow> bool" where
  "protocol_inv p \<longleftrightarrow> rx_ok p \<and> tx_ok p \<and> table_inv p \<and> readahead_ok p"

text \<open>The frame waiting to be sent, and what the delivery of a frame does.\<close>

definition tx_frame :: "'e Protocol \<Rightarrow> (Tag \<times> u8 list) option" where
  "tx_frame p = (if p_tx_data p then Some (p_tx_tag p, take (unat (p_tx_length p)) (p_tx_data_buffer p)) else None)"

definition deliver ::
  "(Tag \<times> 'e FrameHandler) list \<Rightarrow> Tag \<times> u8 list \<Rightarrow> (Tag \<times> u8 list) option \<times> 'e \<Rightarrow> (Tag \<times> u8 list) option \<times> 'e" where
  "deliver handlers = (\<lambda>(tag, data) (tx, e).
     case map_of handlers tag of
       None \<Rightarrow> (tx, e)
     | Some LoopbackImpl \<Rightarrow> (case tx of None \<Rightarrow> Some (Tag_kLoopback, data) | Some _ \<Rightarrow> tx, e)
     | Some (Handler f) \<Rightarrow> (tx, f data (of_nat (length data)) e))"

lemma find_map_of: "List.find (\<lambda>(k, _). k = x) xs = map_option (Pair x) (map_of xs x)"
  by (induction xs) auto

lemma abs_parser_Reset [simp]: "abs_parser (ResetParser p) = Sync"
  by (simp add: abs_parser_def ResetParser_def)

lemma Reset_ok [simp]: "length (p_rx_buffer p) = kRxBufferSize \<Longrightarrow> rx_ok (ResetParser p)"
  by (simp add: rx_ok_def ResetParser_def)

text \<open>The fields the receiver leaves alone.\<close>

definition rx_frame where
  "rx_frame p p' \<longleftrightarrow> p_config p' = p_config p \<and> p_handlers p' = p_handlers p \<and>
     p_readahead p' = p_readahead p \<and> p_readahead_idx p' = p_readahead_idx p \<and>
     p_readahead_cnt p' = p_readahead_cnt p"

lemma rx_frame_refl [simp]: "rx_frame p p"
  by (simp add: rx_frame_def)

lemma take_update_snoc: "i < length xs \<Longrightarrow> take (Suc i) (xs[i := x]) = take i xs @ [x]"
  by (simp add: take_Suc_conv_app_nth)

lemma rx_byte_header:
  assumes ok: "rx_ok p" and st: "p_state p = kReadingHeader" and r: "rx_byte raw p e = (p', e')"
  shows "rx_ok p' \<and> parse raw (abs_parser p) = (abs_parser p', None) \<and> rx_frame p p' \<and> e' = e
    \<and> tx_frame p' = tx_frame p \<and> (tx_ok p \<longrightarrow> tx_ok p')"
proof -
  let ?i = "p_rx_index p" and ?b = "(p_rx_buffer p)[p_rx_index p := raw]"
  have i: "?i < 4" "length (p_rx_buffer p) = 260" using ok st by (simp_all add: rx_ok_def size_defs)
  have t: "take (Suc ?i) ?b = take ?i (p_rx_buffer p) @ [raw]" using i by (intro take_update_snoc) simp
  have abs: "abs_parser p = Header (take ?i (p_rx_buffer p))" using st by (simp add: abs_parser_def)
  show ?thesis
  proof (cases "?i = 3")
    case True
    then have h: "take 4 ?b = take ?i (p_rx_buffer p) @ [raw]" using t by (simp add: numeral_eq_Suc)
    have hl: "header_length (take ?i (p_rx_buffer p) @ [raw]) = unat (le16 (?b ! 2) (?b ! 3))"
      unfolding header_length_def h [symmetric] by simp
    show ?thesis
      using r st i True h hl
      by (auto simp: rx_byte_def abs abs_parser_def Let_def size_defs ParseHeader_def rx_ok_def ResetParser_def
          rx_frame_def tx_frame_def tx_ok_def unat_eq_0 unat_gt_0 split: if_splits)
  next
    case False
    then show ?thesis
      using r st i t
      by (auto simp: rx_byte_def abs abs_parser_def Let_def size_defs rx_ok_def rx_frame_def tx_frame_def tx_ok_def)
  qed
qed

lemma rx_byte_data:
  assumes ok: "rx_ok p" and st: "p_state p = kReadingData" and r: "rx_byte raw p e = (p', e')"
  shows "rx_ok p' \<and> parse raw (abs_parser p) = (abs_parser p', None) \<and> rx_frame p p' \<and> e' = e
    \<and> tx_frame p' = tx_frame p \<and> (tx_ok p \<longrightarrow> tx_ok p')"
proof -
  let ?i = "p_rx_index p" and ?b = "(p_rx_buffer p)[4 + p_rx_index p := raw]"
  have i: "?i < unat (p_rx_data_length p)" "unat (p_rx_data_length p) \<le> 256" "length (p_rx_buffer p) = 260"
      "p_rx_data_length p = le16 (p_rx_buffer p ! 2) (p_rx_buffer p ! 3)"
    using ok st unfolding rx_ok_def size_defs by auto
  have t: "take (Suc ?i) (drop 4 ?b) = take ?i (drop 4 (p_rx_buffer p)) @ [raw]"
    using i by (simp add: drop_update_swap take_update_snoc)
  have hl: "header_length (take 4 (p_rx_buffer p)) = unat (p_rx_data_length p)"
    using i by (simp add: header_length_def)
  show ?thesis
  proof (cases "Suc ?i < unat (p_rx_data_length p)")
    case True
    then show ?thesis
      using r st i t hl ok
      by (auto simp: rx_byte_def abs_parser_def Let_def size_defs rx_ok_def rx_frame_def tx_frame_def tx_ok_def)
  next
    case False
    then have "Suc ?i = unat (p_rx_data_length p)" using i by simp
    then show ?thesis
      using r st i t hl ok
      by (auto simp: rx_byte_def abs_parser_def Let_def size_defs rx_ok_def rx_frame_def tx_frame_def tx_ok_def)
  qed
qed

lemma Loopback_tx:
  assumes "tx_ok p" "unat n = length data" "length data \<le> kMaxFrameDataLength"
  shows "tx_ok (Loopback data n p) \<and>
    tx_frame (Loopback data n p) = (case tx_frame p of None \<Rightarrow> Some (Tag_kLoopback, data) | Some f \<Rightarrow> Some f)"
proof (cases "p_tx_data p")
  case False
  have "n = 0 \<longleftrightarrow> data = []" using assms(2) by (metis length_0_conv unat_eq_zero)
  then show ?thesis
    using assms False by (auto simp: Loopback_def Let_def tx_ok_def tx_frame_def word_gt_0)
qed (use assms in \<open>simp add: Loopback_def tx_frame_def\<close>)

lemma Loopback_frame [simp]:
  "rx_frame p (Loopback data n p)" "p_rx_buffer (Loopback data n p) = p_rx_buffer p"
  by (simp_all add: Loopback_def rx_frame_def Let_def)

lemma tx_Reset [simp]: "tx_frame (ResetParser p) = tx_frame p" "tx_ok (ResetParser p) = tx_ok p"
  "rx_frame q (ResetParser p) = rx_frame q p"
  by (simp_all add: tx_frame_def tx_ok_def ResetParser_def rx_frame_def)

lemma rx_byte_checksum:
  assumes ok: "rx_ok p" "tx_ok p" and st: "p_state p = kReadingChecksum" and r: "rx_byte raw p e = (p', e')"
  shows "rx_ok p' \<and> tx_ok p' \<and> rx_frame p p' \<and> fst (parse raw (abs_parser p)) = abs_parser p'
    \<and> (tx_frame p', e') = (case snd (parse raw (abs_parser p)) of None \<Rightarrow> (tx_frame p, e)
          | Some fr \<Rightarrow> deliver (p_handlers p) fr (tx_frame p, e))"
proof -
  let ?h = "take 4 (p_rx_buffer p)" and ?n = "unat (p_rx_data_length p)"
  let ?d = "take ?n (drop 4 (p_rx_buffer p))"
  have i: "?n \<le> 256" "length (p_rx_buffer p) = 260" "p_rx_tag p = le16 (p_rx_buffer p ! 0) (p_rx_buffer p ! 1)"
    using ok st unfolding rx_ok_def size_defs by auto
  have sum: "ComputeChecksum (p_rx_buffer p) (drop 4 (p_rx_buffer p)) (p_rx_data_length p) = xorsum (?h @ ?d)"
    using i by (simp add: ComputeChecksum_xorsum kHeaderSize_def)
  have tag: "le16 (?h ! 0) (?h ! 1) = p_rx_tag p" using i by simp
  have abs: "abs_parser p = Check ?h ?d" using st by (simp add: abs_parser_def kHeaderSize_def)
  have len: "length ?d = ?n" using i by simp
  show ?thesis
  proof (cases "raw = xorsum (?h @ ?d)")
    case False
    then show ?thesis using r st i ok by (auto simp: rx_byte_def Let_def sum kHeaderSize_def abs kRxBufferSize_def kMaxFrameDataLength_def)
  next
    case True
    obtain q e1 where d: "DispatchFrame p e = (q, e1)" by (metis prod.exhaust)
    have p': "p' = ResetParser q" "e' = e1"
      using r st True d by (auto simp: rx_byte_def Let_def sum kHeaderSize_def)
    have "rx_frame p q \<and> tx_ok q \<and> p_rx_buffer q = p_rx_buffer p \<and>
        (tx_frame q, e1) = deliver (p_handlers p) (p_rx_tag p, ?d) (tx_frame p, e)"
      using d ok Loopback_tx [OF ok(2), of "p_rx_data_length p" ?d] len i
      by (auto simp: DispatchFrame_def find_map_of deliver_def Let_def kHeaderSize_def kMaxFrameDataLength_def
          split: option.splits FrameHandler.splits)
    moreover have "parse raw (abs_parser p) = (Sync, Some (p_rx_tag p, ?d))"
      unfolding abs parse.simps tag using True by simp
    ultimately show ?thesis
      using i(2) by (simp add: p' kRxBufferSize_def kHeaderSize_def kMaxFrameDataLength_def)
  qed
qed

text \<open>One byte: the abstract parser makes the same step, and its output is what is delivered.\<close>

lemma rx_byte_refines:
  assumes inv: "protocol_inv p" and r: "rx_byte raw p e = (p', e')"
  shows "protocol_inv p' \<and> rx_frame p p' \<and> fst (parse raw (abs_parser p)) = abs_parser p'
    \<and> (tx_frame p', e') = (case snd (parse raw (abs_parser p)) of None \<Rightarrow> (tx_frame p, e)
          | Some fr \<Rightarrow> deliver (p_handlers p) fr (tx_frame p, e))"
proof -
  have ok: "rx_ok p" "tx_ok p" and rest: "table_inv p" "readahead_ok p" using inv by (simp_all add: protocol_inv_def)
  have frame: "table_inv q \<and> readahead_ok q" if "rx_frame p q" for q
    using that rest by (simp add: rx_frame_def table_inv_def readahead_ok_def)
  show ?thesis
  proof (cases "p_state p")
    case kWaitingForSync
    then have "rx_ok p' \<and> tx_ok p' \<and> rx_frame p p' \<and> parse raw (abs_parser p) = (abs_parser p', None) \<and> e' = e \<and> tx_frame p' = tx_frame p"
      using r ok by (auto simp: rx_byte_def Let_def rx_ok_def tx_ok_def rx_frame_def tx_frame_def abs_parser_def ResetParser_def
          kHeaderSize_def split: if_splits option.splits)
    then show ?thesis using frame by (simp add: protocol_inv_def)
  next
    case kReadingHeader
    then show ?thesis using rx_byte_header [OF ok(1) _ r] ok frame by (simp add: protocol_inv_def)
  next
    case kReadingData
    then show ?thesis using rx_byte_data [OF ok(1) _ r] ok frame by (simp add: protocol_inv_def)
  next
    case kReadingChecksum
    then show ?thesis using rx_byte_checksum [OF ok _ r] frame by (simp add: protocol_inv_def)
  qed
qed

fun rx_bytes :: "u8 list \<Rightarrow> 'e Protocol \<Rightarrow> 'e \<Rightarrow> 'e Protocol \<times> 'e" where
  "rx_bytes [] p e = (p, e)"
| "rx_bytes (b # bs) p e = (case rx_byte b p e of (p1, e1) \<Rightarrow> rx_bytes bs p1 e1)"

lemma rx_frame_trans: "rx_frame p q \<Longrightarrow> rx_frame q r \<Longrightarrow> rx_frame p r"
  by (simp add: rx_frame_def)

lemma rx_bytes_refines:
  assumes "protocol_inv p" "rx_bytes bs p e = (p', e')"
  shows "protocol_inv p' \<and> rx_frame p p' \<and> abs_parser p' = fst (parse_all bs (abs_parser p))
    \<and> (tx_frame p', e') = fold (deliver (p_handlers p)) (snd (parse_all bs (abs_parser p))) (tx_frame p, e)"
  using assms
proof (induction bs arbitrary: p e)
  case (Cons b bs)
  obtain p1 e1 where b: "rx_byte b p e = (p1, e1)" by (metis prod.exhaust)
  obtain s out where o: "parse b (abs_parser p) = (s, out)" by (metis prod.exhaust)
  have step: "protocol_inv p1" "rx_frame p p1" "abs_parser p1 = s"
      "(tx_frame p1, e1) = (case out of None \<Rightarrow> (tx_frame p, e) | Some fr \<Rightarrow> deliver (p_handlers p) fr (tx_frame p, e))"
    using rx_byte_refines [OF Cons.prems(1) b] by (simp_all add: o)
  have hs: "p_handlers p1 = p_handlers p" using step(2) by (simp add: rx_frame_def)
  have "rx_bytes bs p1 e1 = (p', e')" using Cons.prems(2) by (simp add: b)
  from Cons.IH [OF step(1) this] show ?case
    using rx_frame_trans [OF step(2), of p'] step(3,4) hs by (auto simp: o split: option.splits prod.splits)
qed simp

lemma abs_parser_Sync: "abs_parser p = Sync \<longleftrightarrow> p_state p = kWaitingForSync"
  by (simp add: abs_parser_def Let_def split: State.splits)

text \<open>A byte string with a plausible header is accepted exactly when its checksum is right.\<close>

lemma parse_raw_frame:
  assumes "length h = kHeaderSize" "header_length h = length d" "length d \<le> kMaxFrameDataLength"
  shows "parse_all (kSyncByte # h @ d @ [c]) Sync = (Sync, if c = xorsum (h @ d) then [(le16 (h ! 0) (h ! 1), d)] else [])"
proof -
  have h: "parse_all h (Header []) = (if header_length h = 0 then Check h [] else Body h [], [])"
    using assms by (intro parse_header) simp_all
  have d: "parse_all d (if header_length h = 0 then Check h [] else Body h []) = (Check h d, [])"
    using parse_body [of "[]" d h] assms by (cases "d = []") auto
  show ?thesis by (simp add: parse_all_append h d)
qed

lemma wire_corrupted:
  assumes len: "length data \<le> kMaxFrameDataLength"
    and k: "0 < k" "k \<noteq> 3" "k \<noteq> 4" "k < length (wire (tag, data))" and x: "x \<noteq> wire (tag, data) ! k"
  shows "parse_all ((wire (tag, data))[k := x]) Sync = (Sync, [])"
proof -
  let ?h = "frame_header tag data" and ?c = "xorsum (frame_header tag data @ data)"
  let ?b = "frame_header tag data @ data"
  obtain j where j: "k = Suc j" using k(1) by (cases k) auto
  have w: "wire (tag, data) = kSyncByte # ?b @ [?c]" by (simp add: wire_def)
  show ?thesis
  proof (cases "j < length ?b")
    case True
    define h d where "h = take 4 (?b[j := x])" and "d = drop 4 (?b[j := x])"
    have b: "?b[j := x] = h @ d" by (simp add: h_def d_def)
    have l: "length h = 4" "length d = length data" by (simp_all add: h_def d_def)
    have f: "h ! 2 = ?h ! 2" "h ! 3 = ?h ! 3" using k(2,3) j by (simp_all add: h_def nth_append)
    have hl: "header_length h = length d"
      using header_length_frame [OF len, of tag] f l by (simp add: header_length_def)
    have "(?b @ [?c]) ! j = ?b ! j" using True by (rule nth_append_left)
    then have "x \<noteq> ?b ! j" using x unfolding w j by (simp del: append_assoc)
    then have ne: "?c \<noteq> xorsum (h @ d)" using xorsum_update [OF True, of x] by (simp add: b)
    have "(wire (tag, data))[k := x] = kSyncByte # h @ d @ [?c]"
      unfolding w j list_update_code(3) list_update_append1 [OF True] b by simp
    then show ?thesis using parse_raw_frame [of h d ?c] l hl len ne by (simp add: kHeaderSize_def)
  next
    case False
    then have j': "j = length ?b" using k(4) by (simp add: w j)
    then have "(wire (tag, data))[k := x] = kSyncByte # ?h @ data @ [x]" by (simp add: w j list_update_append)
    moreover have "x \<noteq> ?c" using x unfolding w j j' nth_Cons_Suc nth_append_length .
    ultimately show ?thesis
      using parse_raw_frame [of ?h data x] header_length_frame [OF len, of tag] len by (simp add: kHeaderSize_def)
  qed
qed

lemma rx_part_updates [simp]:
  "rx_ok (p\<lparr>p_tx_tag := a0\<rparr>) = rx_ok p" "abs_parser (p\<lparr>p_tx_tag := a0\<rparr>) = abs_parser p"
  "rx_ok (p\<lparr>p_tx_length := a1\<rparr>) = rx_ok p" "abs_parser (p\<lparr>p_tx_length := a1\<rparr>) = abs_parser p"
  "rx_ok (p\<lparr>p_tx_data_buffer := a2\<rparr>) = rx_ok p" "abs_parser (p\<lparr>p_tx_data_buffer := a2\<rparr>) = abs_parser p"
  "rx_ok (p\<lparr>p_tx_data := a3\<rparr>) = rx_ok p" "abs_parser (p\<lparr>p_tx_data := a3\<rparr>) = abs_parser p"
  "rx_ok (p\<lparr>p_handlers := a4\<rparr>) = rx_ok p" "abs_parser (p\<lparr>p_handlers := a4\<rparr>) = abs_parser p"
  "rx_ok (p\<lparr>p_readahead := a5\<rparr>) = rx_ok p" "abs_parser (p\<lparr>p_readahead := a5\<rparr>) = abs_parser p"
  "rx_ok (p\<lparr>p_readahead_idx := a6\<rparr>) = rx_ok p" "abs_parser (p\<lparr>p_readahead_idx := a6\<rparr>) = abs_parser p"
  "rx_ok (p\<lparr>p_readahead_cnt := a7\<rparr>) = rx_ok p" "abs_parser (p\<lparr>p_readahead_cnt := a7\<rparr>) = abs_parser p"
  by (simp_all add: rx_ok_def abs_parser_def Let_def split: State.splits)

section \<open>The invariant of the public operations\<close>

lemma protocol_inv_init: "protocol_inv (Protocol_init cfg)"
  by (simp add: protocol_inv_def Protocol_init_def rx_ok_def tx_ok_def table_inv_def readahead_ok_def kMaxHandlers_def)

lemma protocol_inv_AddHandler: "protocol_inv p \<Longrightarrow> protocol_inv (snd (AddHandler tag h p))"
proof -
  assume inv: "protocol_inv p"
  have "tag \<notin> fst ` set (p_handlers p)" if "\<not> list_ex (\<lambda>(t, _). t = tag) (p_handlers p)"
    using that by (force simp: list_ex_iff)
  then show ?thesis using inv
    by (auto simp: AddHandler_def protocol_inv_def rx_ok_def tx_ok_def table_inv_def readahead_ok_def hd_append split: option.splits)
qed

definition frame_ok :: "Frame \<Rightarrow> bool" where
  "frame_ok f \<longleftrightarrow> unat (fr_length f) \<le> kMaxFrameDataLength \<and>
     (case fr_data f of None \<Rightarrow> fr_length f = 0 | Some d \<Rightarrow> unat (fr_length f) \<le> length d)"

lemma Frame_Create_ok: "(\<And>d. data = Some d \<Longrightarrow> unat n \<le> length d) \<Longrightarrow> frame_ok (Frame_Create tag data n)"
  by (auto simp: Frame_Create_def frame_ok_def Frame_default_def word_gt_0 split: option.splits)

lemma Send_ok:
  assumes inv: "protocol_inv p" and f: "frame_ok f"
  shows "protocol_inv (snd (Send f p)) \<and> rx_frame p (snd (Send f p)) \<and> abs_parser (snd (Send f p)) = abs_parser p
    \<and> (fst (Send f p) \<longleftrightarrow> tx_frame p = None)
    \<and> tx_frame (snd (Send f p)) = (case tx_frame p of Some fr \<Rightarrow> Some fr
        | None \<Rightarrow> Some (fr_tag f, case fr_data f of None \<Rightarrow> [] | Some d \<Rightarrow> take (unat (fr_length f)) d))"
proof -
  have v: "IsValid f" using f by (auto simp: frame_ok_def IsValid_def split: option.splits)
  show ?thesis
  proof (cases "p_tx_data p")
    case True
    then show ?thesis using inv v by (simp add: Send_def tx_frame_def)
  next
    case False
    define buf where "buf = (case fr_data f of None \<Rightarrow> p_tx_data_buffer p
      | Some d \<Rightarrow> if 0 < fr_length f then memcpy (unat (fr_length f)) d (p_tx_data_buffer p) else p_tx_data_buffer p)"
    have s: "Send f p = (True, p\<lparr>p_tx_tag := fr_tag f, p_tx_length := fr_length f, p_tx_data_buffer := buf, p_tx_data := True\<rparr>)"
      using False v by (cases "fr_data f") (simp_all add: Send_def Let_def buf_def)
    have "length buf = kMaxFrameDataLength"
      using inv f by (auto simp: buf_def frame_ok_def protocol_inv_def tx_ok_def split: option.splits)
    moreover have "take (unat (fr_length f)) buf = (case fr_data f of None \<Rightarrow> [] | Some d \<Rightarrow> take (unat (fr_length f)) d)"
      using f by (auto simp: buf_def frame_ok_def word_gt_0 split: option.splits)
    ultimately show ?thesis using False inv f
      by (simp add: s protocol_inv_def tx_ok_def table_inv_def readahead_ok_def frame_ok_def rx_frame_def
          tx_frame_def)
  qed
qed

section \<open>Sending and receiving\<close>

lemma tx_readahead_idx [simp]:
  "tx_frame (p\<lparr>p_readahead_idx := i\<rparr>) = tx_frame p" "tx_ok (p\<lparr>p_readahead_idx := i\<rparr>) = tx_ok p"
  "table_inv (p\<lparr>p_readahead_idx := i\<rparr>) = table_inv p"
  by (simp_all add: tx_frame_def tx_ok_def table_inv_def)

lemma tx_readahead [simp]:
  "tx_ok (p\<lparr>p_readahead := bs\<rparr>) = tx_ok p" "tx_ok (p\<lparr>p_readahead_cnt := k\<rparr>) = tx_ok p"
  "table_inv (p\<lparr>p_readahead := bs\<rparr>) = table_inv p" "table_inv (p\<lparr>p_readahead_cnt := k\<rparr>) = table_inv p"
  by (simp_all add: tx_ok_def table_inv_def)

lemma frame_header_tx:
  assumes "tx_ok p" "tx_frame p = Some (tag, data)"
  shows "bytes16 (p_tx_tag p) @ bytes16 (p_tx_length p) = frame_header tag data"
proof -
  have "length data = unat (p_tx_length p)" "tag = p_tx_tag p"
    using assms by (auto simp: tx_frame_def tx_ok_def split: if_splits)
  then show ?thesis by (simp add: frame_header_def of_nat_unat)
qed

lemma TxPhase_tx:
  assumes ok: "tx_ok p" and f: "tx_frame p = Some (tag, data)" and w: "cfg_write (p_config p) = Some wr"
  shows "TxPhase p e = (case write_all wr (chunks (wire (tag, data))) e of (ok, e1) \<Rightarrow>
    (if ok then p\<lparr>p_tx_data := False\<rparr> else p, e1))"
proof -
  let ?h = "bytes16 (p_tx_tag p) @ bytes16 (p_tx_length p)"
  have d: "p_tx_data p" "take (unat (p_tx_length p)) (p_tx_data_buffer p) = data"
    using f by (simp_all add: tx_frame_def split: if_splits)
  have "WriteFrameWire ?h (p_tx_data_buffer p) (p_tx_length p) p e = write_all wr (chunks (wire (tag, data))) e"
    using WriteFrameWire_chunks [of ?h "p_tx_length p" "p_tx_data_buffer p" p wr e] ok w d(2)
      frame_header_tx [OF ok f]
    by (simp add: wire_def kHeaderSize_def tx_ok_def)
  then show ?thesis using d(1) by (simp add: TxPhase_def split: prod.splits)
qed

lemma TxPhase_frame:
  assumes "protocol_inv p" "TxPhase p e = (p', e')"
  shows "protocol_inv p' \<and> rx_frame p p' \<and> abs_parser p' = abs_parser p \<and> p_state p' = p_state p
    \<and> (tx_frame p' = tx_frame p \<or> tx_frame p' = None)"
  using assms
  by (auto simp: TxPhase_def Let_def protocol_inv_def tx_ok_def table_inv_def readahead_ok_def rx_frame_def tx_frame_def
      split: if_splits prod.splits)

text \<open>The bytes the receive loop has not seen: the rest of the read-ahead buffer and what is available.\<close>

definition unread :: "('e \<Rightarrow> u8 list) \<Rightarrow> 'e Protocol \<Rightarrow> 'e \<Rightarrow> u8 list" where
  "unread avail p e = drop (p_readahead_idx p) (take (p_readahead_cnt p) (p_readahead p)) @ avail e"

text \<open>
  What the receive loop needs of its surroundings: a source of bytes that hands out what is
  available, at most one buffer at a time and something unless nothing is left, and handlers that
  neither consume input nor depend on it. Then the loop ends, whatever the sizes of the pieces,
  with the input consumed and exactly the frames of the abstract parser delivered in order. The
  law on reading may rest on a condition \<open>invar\<close> that reading and the handlers keep.
\<close>

locale byte_source =
  fixes invar :: "'e \<Rightarrow> bool"
    and rd :: "nat \<Rightarrow> 'e \<Rightarrow> u8 list \<times> u32 \<times> 'e"
    and avail :: "'e \<Rightarrow> u8 list"
    and rest :: "'e \<Rightarrow> 'o"
    and handlers :: "(Tag \<times> 'e FrameHandler) list"
  assumes read_law: "invar e \<Longrightarrow> rd kReadahead e = (bytes, n, e') \<Longrightarrow>
      unat n = length bytes \<and> length bytes \<le> kReadahead \<and> avail e = bytes @ avail e' \<and>
      (bytes = [] \<longrightarrow> avail e = []) \<and> rest e' = rest e \<and> invar e'"
    and handler_invar: "(tag, Handler f) \<in> set handlers \<Longrightarrow> invar e \<Longrightarrow> invar (f data len e)"
    and handler_avail: "(tag, Handler f) \<in> set handlers \<Longrightarrow> avail (f data len e) = avail e"
    and handler_rest: "(tag, Handler f) \<in> set handlers \<Longrightarrow> rest e1 = rest e2 \<Longrightarrow> rest (f data len e1) = rest (f data len e2)"
begin

lemma deliver_avail: "avail (snd (deliver handlers fr (tx, e))) = avail e"
  using handler_avail
  by (auto simp: deliver_def dest: map_of_SomeD split: option.splits FrameHandler.splits prod.splits)

lemma deliver_invar: "invar e \<Longrightarrow> invar (snd (deliver handlers fr (tx, e)))"
  using handler_invar
  by (auto simp: deliver_def dest: map_of_SomeD split: option.splits FrameHandler.splits prod.splits)

lemma deliver_rest:
  assumes "rest e1 = rest e2"
  shows "fst (deliver handlers fr (tx, e1)) = fst (deliver handlers fr (tx, e2))
    \<and> rest (snd (deliver handlers fr (tx, e1))) = rest (snd (deliver handlers fr (tx, e2)))"
proof (cases "map_of handlers (fst fr)")
  case (Some h)
  then have mem: "(fst fr, h) \<in> set handlers" by (rule map_of_SomeD)
  show ?thesis
  proof (cases h)
    case (Handler f)
    then show ?thesis using Some handler_rest [OF mem [unfolded Handler] assms] by (simp add: deliver_def case_prod_unfold)
  next
    case LoopbackImpl
    then show ?thesis using Some assms by (cases tx) (simp_all add: deliver_def case_prod_unfold)
  qed
qed (use assms in \<open>simp add: deliver_def case_prod_unfold\<close>)

lemma deliver_all_rest:
  "rest e1 = rest e2 \<Longrightarrow> fst (fold (deliver handlers) frs (tx, e1)) = fst (fold (deliver handlers) frs (tx, e2))
    \<and> rest (snd (fold (deliver handlers) frs (tx, e1))) = rest (snd (fold (deliver handlers) frs (tx, e2)))"
proof (induction frs arbitrary: tx e1 e2)
  case (Cons fr frs)
  obtain tx1 f1 tx2 f2 where d: "deliver handlers fr (tx, e1) = (tx1, f1)" "deliver handlers fr (tx, e2) = (tx2, f2)"
    by (metis prod.exhaust)
  then have "tx1 = tx2" "rest f1 = rest f2" using deliver_rest [OF Cons.prems, of fr tx] by simp_all
  then show ?case using Cons.IH [of f1 f2 tx2] by (simp add: d)
qed simp

lemma ReadRawByte_input:
  assumes inv: "protocol_inv p" and src: "invar e" and cfg: "cfg_read (p_config p) = Some rd" and r: "ReadRawByte p e = (byte, p1, e1)"
  shows "protocol_inv p1 \<and> p_config p1 = p_config p \<and> p_handlers p1 = p_handlers p \<and> abs_parser p1 = abs_parser p
    \<and> tx_frame p1 = tx_frame p \<and> rest e1 = rest e \<and> invar e1
    \<and> (case byte of None \<Rightarrow> unread avail p e = [] \<and> unread avail p1 e1 = [] | Some b \<Rightarrow> unread avail p e = b # unread avail p1 e1)"
proof (cases "p_readahead_idx p < p_readahead_cnt p")
  case True
  have ok: "length (p_readahead p) = kReadahead" "p_readahead_cnt p \<le> kReadahead"
    using inv by (simp_all add: protocol_inv_def readahead_ok_def)
  have "drop (p_readahead_idx p) (take (p_readahead_cnt p) (p_readahead p)) =
      p_readahead p ! p_readahead_idx p # drop (Suc (p_readahead_idx p)) (take (p_readahead_cnt p) (p_readahead p))"
    using True ok by (subst Cons_nth_drop_Suc [symmetric]) simp_all
  then show ?thesis
    using True r inv src by (auto simp: ReadRawByte_def unread_def protocol_inv_def tx_ok_def table_inv_def readahead_ok_def tx_frame_def)
next
  case False
  obtain bytes n e2 where d: "rd kReadahead e = (bytes, n, e2)" by (metis prod_cases3)
  note law = read_law [OF src d]
  let ?ra = "bytes @ drop (length bytes) (p_readahead p)"
  define q where "q = p\<lparr>p_readahead := ?ra, p_readahead_cnt := length bytes\<rparr>"
  have cnt: "(if kReadahead < unat n then kReadahead else unat n) = length bytes" using law by simp
  have q: "protocol_inv q" "p_config q = p_config p" "p_handlers q = p_handlers p" "abs_parser q = abs_parser p"
      "tx_frame q = tx_frame p"
    using inv law by (simp_all add: q_def protocol_inv_def tx_ok_def table_inv_def readahead_ok_def tx_frame_def)
  have inp: "unread avail p e = bytes @ avail e2" using False law by (simp add: unread_def)
  show ?thesis
  proof (cases "bytes = []")
    case True
    then have "byte = None" "p1 = q" "e1 = e2" using False cfg d r cnt by (simp_all add: ReadRawByte_def q_def)
    moreover from this True have "unread avail p1 e1 = avail e2" by (simp add: q_def unread_def)
    ultimately show ?thesis using q law inp True by auto
  next
    case ne: False
    then have r1: "byte = Some (hd bytes)" "p1 = q\<lparr>p_readahead_idx := 1\<rparr>" "e1 = e2"
      using False cfg d r cnt by (auto simp: ReadRawByte_def q_def hd_append hd_conv_nth nth_append)
    have "unread avail p1 e1 = tl bytes @ avail e2" by (simp add: r1 q_def unread_def drop_Suc)
    moreover have "protocol_inv p1 \<and> tx_frame p1 = tx_frame p"
      using q(1,5) by (simp add: r1 protocol_inv_def readahead_ok_def kReadahead_def)
    ultimately show ?thesis using q law inp ne by (simp add: r1)
  qed
qed

lemma rx_loop_delivers:
  assumes "protocol_inv p" "invar e" "cfg_read (p_config p) = Some rd" "p_handlers p = handlers"
  shows "\<exists>p' e'. rx_loop p e = Some (p', e') \<and> protocol_inv p' \<and> p_config p' = p_config p \<and> p_handlers p' = handlers
    \<and> invar e' \<and> unread avail p' e' = [] \<and> abs_parser p' = fst (parse_all (unread avail p e) (abs_parser p))
    \<and> (case fold (deliver handlers) (snd (parse_all (unread avail p e) (abs_parser p))) (tx_frame p, e) of
         (tx, e2) \<Rightarrow> tx_frame p' = tx \<and> rest e' = rest e2)"
  using assms
proof (induction "length (unread avail p e)" arbitrary: p e rule: less_induct)
  case less
  obtain byte p1 e1 where r: "ReadRawByte p e = (byte, p1, e1)" by (metis prod_cases3)
  note ri = ReadRawByte_input [OF less.prems(1-3) r]
  show ?case
  proof (cases byte)
    case None
    then have "rx_loop p e = Some (p1, e1)" by (simp add: rx_loop.simps r)
    then show ?thesis using ri None less.prems by simp
  next
    case (Some b)
    obtain p2 e2 where s: "rx_byte b p1 e1 = (p2, e2)" by (metis prod.exhaust)
    obtain st out where o: "parse b (abs_parser p) = (st, out)" by (metis prod.exhaust)
    have in1: "unread avail p e = b # unread avail p1 e1" using ri Some by simp
    have st2: "protocol_inv p2" "rx_frame p1 p2" "abs_parser p2 = st"
        "(tx_frame p2, e2) = (case out of None \<Rightarrow> (tx_frame p, e1) | Some fr \<Rightarrow> deliver handlers fr (tx_frame p, e1))"
      using rx_byte_refines [OF _ s] ri less.prems(4) o by (auto simp: Some split: option.splits)
    have av: "avail e2 = avail e1"
      using st2(4) deliver_avail by (cases out) (simp_all, metis snd_conv)
    have iv: "invar e2"
      using st2(4) deliver_invar ri by (cases out) (simp_all, metis snd_conv)
    have in2: "unread avail p2 e2 = unread avail p1 e1" using st2(2) av by (simp add: unread_def rx_frame_def)
    have cfg2: "cfg_read (p_config p2) = Some rd" "p_handlers p2 = handlers" "p_config p2 = p_config p"
      using st2(2) ri less.prems by (simp_all add: rx_frame_def)
    obtain p' e' where ih: "rx_loop p2 e2 = Some (p', e')" "protocol_inv p'" "p_config p' = p_config p2" "p_handlers p' = handlers" "invar e'" "unread avail p' e' = []"
        "abs_parser p' = fst (parse_all (unread avail p1 e1) st)"
        "case fold (deliver handlers) (snd (parse_all (unread avail p1 e1) st)) (tx_frame p2, e2) of (tx, e3) \<Rightarrow> tx_frame p' = tx \<and> rest e' = rest e3"
      using less.hyps [of p2 e2] in1 in2 st2(1,3) iv cfg2 by auto
    have eq: "rx_loop p e = Some (p', e')" using ih(1) by (simp add: rx_loop.simps [of p e] r Some s)
    let ?frs = "snd (parse_all (unread avail p1 e1) st)"
    have all: "snd (parse_all (unread avail p e) (abs_parser p)) = (case out of None \<Rightarrow> ?frs | Some fr \<Rightarrow> fr # ?frs)"
      "fst (parse_all (unread avail p e) (abs_parser p)) = fst (parse_all (unread avail p1 e1) st)"
      by (cases out; simp add: in1 o case_prod_unfold)+
    define out_fold where "out_fold = (\<lambda>s. (case out of None \<Rightarrow> s | Some fr \<Rightarrow> deliver handlers fr s))"
    have f2: "(tx_frame p2, e2) = out_fold (tx_frame p, e1)" using st2(4) by (simp add: out_fold_def)
    have fs: "fold (deliver handlers) (snd (parse_all (unread avail p e) (abs_parser p))) (tx_frame p, e) = fold (deliver handlers) ?frs (out_fold (tx_frame p, e))"
      unfolding all out_fold_def by (cases out) simp_all
    have "fst (out_fold (tx_frame p, e1)) = fst (out_fold (tx_frame p, e)) \<and> rest (snd (out_fold (tx_frame p, e1))) = rest (snd (out_fold (tx_frame p, e)))"
      using ri deliver_rest [of e1 e] by (cases out) (simp_all add: out_fold_def)
    then have "fst (fold (deliver handlers) ?frs (tx_frame p2, e2)) = fst (fold (deliver handlers) ?frs (out_fold (tx_frame p, e)))
        \<and> rest (snd (fold (deliver handlers) ?frs (tx_frame p2, e2))) = rest (snd (fold (deliver handlers) ?frs (out_fold (tx_frame p, e))))"
      using deliver_all_rest [of e2 "snd (out_fold (tx_frame p, e))" ?frs "tx_frame p2"] f2 by (metis fst_conv prod.collapse snd_conv)
    then show ?thesis using eq ih cfg2 all(2) fs by (simp add: case_prod_unfold)
  qed
qed

end

section \<open>The parser is never stuck\<close>

fun remaining :: "Parser \<Rightarrow> nat" where
  "remaining Sync = 0"
| "remaining (Header h) = (kHeaderSize - length h) + kMaxFrameDataLength + 1"
| "remaining (Body h d) = header_length h - length d + 1"
| "remaining (Check h d) = 1"

fun parser_ok :: "Parser \<Rightarrow> bool" where
  "parser_ok Sync = True"
| "parser_ok (Header h) = (length h < kHeaderSize)"
| "parser_ok (Body h d) = (length d < header_length h \<and> header_length h \<le> kMaxFrameDataLength)"
| "parser_ok (Check h d) = (length d \<le> kMaxFrameDataLength)"

lemma parse_progress:
  "parser_ok s \<Longrightarrow> s \<noteq> Sync \<Longrightarrow> remaining (fst (parse b s)) < remaining s \<and> parser_ok (fst (parse b s))"
  by (cases s) (auto simp: Let_def)

lemma parse_ok:
  "parser_ok s \<Longrightarrow> parser_ok (fst (parse b s)) \<and> (\<forall>tag data. snd (parse b s) = Some (tag, data) \<longrightarrow> length data \<le> kMaxFrameDataLength)"
  by (cases s) (auto simp: Let_def kHeaderSize_def)

lemma parse_all_ok:
  "parser_ok s \<Longrightarrow> parser_ok (fst (parse_all bs s)) \<and> (\<forall>(tag, data)\<in>set (snd (parse_all bs s)). length data \<le> kMaxFrameDataLength)"
proof (induction bs arbitrary: s)
  case (Cons b bs)
  from parse_ok [OF Cons.prems, of b] Cons.IH [of "fst (parse b s)"] show ?case
    by (auto simp: case_prod_unfold split: option.splits)
qed simp

lemma remaining_bound: "parser_ok s \<Longrightarrow> remaining s \<le> kHeaderSize + kMaxFrameDataLength + 1"
  by (cases s) auto

lemma parse_resync:
  "parser_ok s \<Longrightarrow> remaining s \<le> length bs \<Longrightarrow> \<exists>k \<le> remaining s. fst (parse_all (take k bs) s) = Sync"
proof (induction "remaining s" arbitrary: s bs rule: less_induct)
  case less
  show ?case
  proof (cases "s = Sync")
    case True
    then show ?thesis by (intro exI [of _ 0]) simp
  next
    case False
    note pr = parse_progress [OF less.prems(1) False]
    have "0 < remaining s" using False by (cases s) auto
    then obtain b cs where bs: "bs = b # cs" using less.prems(2) by (cases bs) auto
    let ?s = "fst (parse b s)"
    obtain k where k: "k \<le> remaining ?s" "fst (parse_all (take k cs) ?s) = Sync"
      using less.hyps [of ?s cs] pr [of b] less.prems(2) bs by auto
    have "fst (parse_all (take (Suc k) bs) s) = Sync" using k(2) by (simp add: bs case_prod_unfold)
    then show ?thesis using k(1) pr [of b] by (intro exI [of _ "Suc k"]) auto
  qed
qed

lemma abs_parser_ok: "rx_ok p \<Longrightarrow> parser_ok (abs_parser p)"
  by (auto simp: rx_ok_def abs_parser_def header_length_def Let_def size_defs split: State.splits)

section \<open>Properties\<close>

definition demo_config :: "u8 list ProtocolConfig" where
  "demo_config = \<lparr>cfg_read = None, cfg_write = Some (\<lambda>bs sent. (True, sent @ bs)), cfg_timestamp = None, cfg_frame_timeout = 0\<rparr>"

definition demo_protocol :: "u8 list Protocol" where
  "demo_protocol = snd (AddHandler 0x0103 (Some (Handler (\<lambda>d n sent. sent @ d))) (Protocol_init demo_config))"

lemma demo_protocol_inv: "protocol_inv demo_protocol" "p_state demo_protocol = kWaitingForSync" "tx_frame demo_protocol = None"
proof -
  show "protocol_inv demo_protocol"
    unfolding demo_protocol_def by (intro protocol_inv_AddHandler protocol_inv_init)
  show "p_state demo_protocol = kWaitingForSync" "tx_frame demo_protocol = None"
    by (simp_all add: demo_protocol_def AddHandler_def Protocol_init_def kMaxHandlers_def tx_frame_def)
qed

lemma demo_deliver: "deliver (p_handlers demo_protocol) (0x0103, d) (tx, sent) = (tx, sent @ d)"
  "deliver (p_handlers demo_protocol) (0, d) (None, sent) = (Some (0, d), sent)"
  by (simp_all add: demo_protocol_def AddHandler_def Protocol_init_def kMaxHandlers_def Tag_kLoopback_def deliver_def)

text \<open>
  C19. What is sent is what is received. From the waiting state, a stream of encoded frames, with
  any bytes other than the sync byte between them, makes the receiver dispatch exactly these
  frames, in order and with their data unchanged (sync bytes inside the data included), and
  leaves it waiting for the next one.
\<close>

theorem rx_stream_roundtrip:
  assumes "protocol_inv p" "p_state p = kWaitingForSync"
    and "\<forall>(junk, tag, data)\<in>set msgs. kSyncByte \<notin> set junk \<and> length data \<le> kMaxFrameDataLength"
    and "rx_bytes (concat (map (\<lambda>(junk, frame). junk @ wire frame) msgs)) p e = (p', e')"
  shows "p_state p' = kWaitingForSync
    \<and> (tx_frame p', e') = fold (deliver (p_handlers p)) (map snd msgs) (tx_frame p, e)"
  using rx_bytes_refines [OF assms(1,4)] parse_stream [OF assms(3)] assms(2)
  by (auto simp: abs_parser_Sync [symmetric])

theorem rx_stream_roundtrip_witness:
  "snd (rx_bytes ([1, 2] @ wire (0x0103, [0xAA, 5]) @ [9] @ wire (0, [7])) demo_protocol []) = [0xAA, 5]"
proof -
  let ?msgs = "[([1, 2], 0x0103, [0xAA, 5]), ([9], 0, [7])] :: (u8 list \<times> Tag \<times> u8 list) list"
  obtain p' e' where r: "rx_bytes (concat (map (\<lambda>(junk, frame). junk @ wire frame) ?msgs)) demo_protocol [] = (p', e')"
    by (metis prod.exhaust)
  have "\<forall>(junk, tag, data)\<in>set ?msgs. kSyncByte \<notin> set junk \<and> length data \<le> kMaxFrameDataLength"
    by (simp add: kSyncByte_def kMaxFrameDataLength_def)
  from rx_stream_roundtrip [OF demo_protocol_inv(1,2) this r] r show ?thesis
    by (simp add: demo_protocol_inv(3) demo_deliver)
qed

text \<open>
  C34. A corrupted frame is never dispatched. If one byte of an encoded frame after the sync byte
  and outside the length field arrives changed, the receiver drops the frame: no handler runs,
  nothing is queued for transmission, and it waits for the next sync byte.
\<close>

theorem corrupted_frame_dropped:
  assumes "protocol_inv p" "p_state p = kWaitingForSync" "length data \<le> kMaxFrameDataLength"
    and "0 < k" "k \<noteq> 3" "k \<noteq> 4" "k < length (wire (tag, data))" "x \<noteq> wire (tag, data) ! k"
    and "rx_bytes ((wire (tag, data))[k := x]) p e = (p', e')"
  shows "p_state p' = kWaitingForSync \<and> tx_frame p' = tx_frame p \<and> e' = e"
  using rx_bytes_refines [OF assms(1,9)] wire_corrupted [OF assms(3-8)] assms(2)
  by (auto simp: abs_parser_Sync [symmetric])

theorem corrupted_frame_dropped_witness:
  "snd (rx_bytes ((wire (0x0103, [1, 2, 3]))[6 := 9]) demo_protocol []) = []"
proof -
  obtain p' e' where r: "rx_bytes ((wire (0x0103, [1, 2, 3]))[6 := 9]) demo_protocol [] = (p', e')"
    by (metis prod.exhaust)
  have w: "6 < length (wire (0x0103, [1, 2, 3]))" "(9 :: u8) \<noteq> wire (0x0103, [1, 2, 3]) ! 6"
    by (simp_all add: wire_def frame_header_def bytes16_ucast)
  from corrupted_frame_dropped [OF demo_protocol_inv(1,2) _ _ _ _ w r] r show ?thesis
    by (simp add: kMaxFrameDataLength_def)
qed

text \<open>
  C35. The receiver recovers from anything. Whatever it has received before, after at most 261
  further bytes, whatever they are, it has returned to waiting for a sync byte.
\<close>

theorem rx_resynchronises:
  assumes "protocol_inv p" "length bs = kHeaderSize + kMaxFrameDataLength + 1"
  shows "\<exists>k \<le> length bs. p_state (fst (rx_bytes (take k bs) p e)) = kWaitingForSync"
proof -
  have ok: "parser_ok (abs_parser p)" using assms(1) by (intro abs_parser_ok) (simp add: protocol_inv_def)
  then obtain k where k: "k \<le> remaining (abs_parser p)" "fst (parse_all (take k bs) (abs_parser p)) = Sync"
    using parse_resync [OF ok, of bs] remaining_bound [OF ok] assms(2) by auto
  obtain p' e' where r: "rx_bytes (take k bs) p e = (p', e')" by (metis prod.exhaust)
  have "p_state p' = kWaitingForSync" using rx_bytes_refines [OF assms(1) r] k(2) by (simp add: abs_parser_Sync [symmetric])
  then show ?thesis using k(1) remaining_bound [OF ok] assms(2) r by (intro exI [of _ k]) simp
qed

theorem rx_resynchronises_witness:
  "\<exists>k \<le> 261. p_state (fst (rx_bytes (take k (replicate 261 0xAA)) demo_protocol [])) = kWaitingForSync"
  using rx_resynchronises [OF demo_protocol_inv(1), of "replicate 261 0xAA" "[]"] by (simp add: size_defs)

text \<open>
  C15. The detailed receiver, with its buffer, indexes and cached header, implements the abstract
  parser: byte for byte it is in the state the parser is in, it hands to the handlers exactly the
  frames the parser outputs, and it never touches the handler table or the read-ahead buffer.
\<close>

theorem receiver_refines_parser:
  assumes "protocol_inv p" "rx_bytes bs p e = (p', e')"
  shows "abs_parser p' = fst (parse_all bs (abs_parser p))
    \<and> (tx_frame p', e') = fold (deliver (p_handlers p)) (snd (parse_all bs (abs_parser p))) (tx_frame p, e)
    \<and> p_handlers p' = p_handlers p \<and> p_readahead p' = p_readahead p \<and> p_readahead_idx p' = p_readahead_idx p"
  using rx_bytes_refines [OF assms] by (simp add: rx_frame_def)

theorem receiver_refines_parser_witness:
  "abs_parser (fst (rx_bytes [0xAA, 3] demo_protocol [])) = Header [3]"
proof -
  obtain p' e' where r: "rx_bytes [0xAA, 3] demo_protocol [] = (p', e')" by (metis prod.exhaust)
  have "abs_parser demo_protocol = Sync" using demo_protocol_inv(2) by (simp add: abs_parser_Sync)
  then show ?thesis using receiver_refines_parser [OF demo_protocol_inv(1) r] r
    by (simp add: kSyncByte_def kHeaderSize_def Let_def)
qed

text \<open>
  C36. Transmission. A waiting frame is written as its encoding, cut into pieces of at most 64
  bytes that are handed to the transport in order until one is refused; the frame stays queued
  exactly when a piece was refused, and nothing else of the engine changes.
\<close>

theorem TxPhase_writes_frame:
  assumes "protocol_inv p" "tx_frame p = Some (tag, data)" "cfg_write (p_config p) = Some wr"
    and "TxPhase p e = (p', e')"
  shows "(\<exists>ok. write_all wr (chunks (wire (tag, data))) e = (ok, e') \<and>
           p' = (if ok then p\<lparr>p_tx_data := False\<rparr> else p) \<and> tx_frame p' = (if ok then None else Some (tag, data)))
    \<and> concat (chunks (wire (tag, data))) = wire (tag, data)
    \<and> (\<forall>c\<in>set (chunks (wire (tag, data))). c \<noteq> [] \<and> length c \<le> 64)"
proof -
  have "tx_ok p" using assms(1) by (simp add: protocol_inv_def)
  from TxPhase_tx [OF this assms(2,3), of e] assms(2,4) chunks_concat [of "wire (tag, data)"]
  show ?thesis by (auto simp: k_chunk_size_def tx_frame_def split: prod.splits if_splits)
qed

theorem TxPhase_writes_frame_witness:
  "snd (TxPhase (snd (Send (Frame_Create 0x0103 (Some [1, 2]) 2) demo_protocol)) []) = wire (0x0103, [1, 2])"
proof -
  let ?f = "Frame_Create 0x0103 (Some [1, 2]) 2" and ?p = "snd (Send (Frame_Create 0x0103 (Some [1, 2]) 2) demo_protocol)"
  have f: "frame_ok ?f" by (intro Frame_Create_ok) simp
  have ff: "fr_tag ?f = 0x0103" "fr_data ?f = Some [1, 2]" "fr_length ?f = 2"
    by (simp_all add: Frame_Create_def kMaxFrameDataLength_def)
  note s = Send_ok [OF demo_protocol_inv(1) f]
  have t: "tx_frame ?p = Some (0x0103, [1, 2])" using s by (simp add: demo_protocol_inv(3) ff)
  have c: "cfg_write (p_config ?p) = Some (\<lambda>bs sent. (True, sent @ bs))"
    using s by (simp add: rx_frame_def demo_protocol_def AddHandler_def Protocol_init_def kMaxHandlers_def demo_config_def)
  obtain p' e' where r: "TxPhase ?p [] = (p', e')" by (metis prod.exhaust)
  have "write_all (\<lambda>bs sent. (True, sent @ bs)) cs e = (True, e @ concat cs)" for cs and e :: "u8 list"
    by (induction cs arbitrary: e) simp_all
  with TxPhase_writes_frame [OF _ t c r] s r show ?thesis by auto
qed

section \<open>The invariant over every operation\<close>

text \<open>
  What the engine relies on of a read callback: it writes no more bytes than the room it was
  given. The count it returns is not trusted: it may be any 32-bit value.
\<close>

definition read_stays_inside :: "'e ProtocolConfig \<Rightarrow> bool" where
  "read_stays_inside cfg \<longleftrightarrow>
     (\<forall>rd e. cfg_read cfg = Some rd \<longrightarrow> length (fst (rd kReadahead e)) \<le> kReadahead)"

lemma ReadRawByte_inv:
  assumes inv: "protocol_inv p" and law: "read_stays_inside (p_config p)" and r: "ReadRawByte p e = (byte, p', e')"
  shows "protocol_inv p' \<and> p_config p' = p_config p"
proof -
  have ok: "rx_ok p" "tx_ok p" "table_inv p" "length (p_readahead p) = kReadahead" "p_readahead_cnt p \<le> kReadahead"
      "p_readahead_idx p \<le> kReadahead"
    using inv by (simp_all add: protocol_inv_def readahead_ok_def)
  show ?thesis
  proof (cases "p_readahead_idx p < p_readahead_cnt p \<or> cfg_read (p_config p) = None")
    case True
    then show ?thesis using r inv ok by (auto simp: ReadRawByte_def protocol_inv_def readahead_ok_def split: if_splits)
  next
    case False
    then obtain rd where rd: "cfg_read (p_config p) = Some rd" by auto
    obtain bytes n e2 where d: "rd kReadahead e = (bytes, n, e2)" by (metis prod_cases3)
    have "length bytes \<le> kReadahead" using law rd d unfolding read_stays_inside_def by (metis fst_conv)
    moreover have "1 \<le> kReadahead" by (simp add: kReadahead_def)
    ultimately show ?thesis
      using r False rd d ok by (auto simp: ReadRawByte_def Let_def protocol_inv_def readahead_ok_def split: if_splits)
  qed
qed

lemma rx_loop_inv:
  fixes p :: "'e Protocol"
  assumes "rx_loop p e = Some (p', e')" "protocol_inv p" "read_stays_inside (p_config p)"
  shows "protocol_inv p' \<and> p_config p' = p_config p"
proof -
  let ?P = "\<lambda>p (e :: 'e) (r :: 'e Protocol \<times> 'e). protocol_inv p \<longrightarrow> read_stays_inside (p_config p)
    \<longrightarrow> protocol_inv (fst r) \<and> p_config (fst r) = p_config p"
  have "?P p e (p', e')"
  proof (rule rx_loop.raw_induct [where P = ?P, OF _ assms(1)], intro impI)
    fix loop and p :: "'e Protocol" and e :: 'e and r
    assume ih: "\<And>p e r. loop p e = Some r \<Longrightarrow> ?P p e r"
      and r: "(case ReadRawByte p e of (byte, p1, e1) \<Rightarrow> (case byte of None \<Rightarrow> Some (p1, e1)
        | Some raw \<Rightarrow> (case rx_byte raw p1 e1 of (p2, e2) \<Rightarrow> loop p2 e2))) = Some r"
      and inv: "protocol_inv p" "read_stays_inside (p_config p)"
    obtain byte p1 e1 where rr: "ReadRawByte p e = (byte, p1, e1)" by (metis prod_cases3)
    note p1 = ReadRawByte_inv [OF inv rr]
    show "protocol_inv (fst r) \<and> p_config (fst r) = p_config p"
    proof (cases byte)
      case None
      then show ?thesis using r p1 by (auto simp: rr)
    next
      case (Some b)
      obtain p2 e2 where s: "rx_byte b p1 e1 = (p2, e2)" by (metis prod.exhaust)
      have "protocol_inv p2" "p_config p2 = p_config p"
        using rx_byte_refines [OF _ s] p1 by (simp_all add: rx_frame_def)
      then show ?thesis using ih [of p2 e2 r] r inv(2) by (simp add: rr Some s)
    qed
  qed
  then show ?thesis using assms(2,3) by simp
qed

lemma check_timeout_inv: "protocol_inv p \<Longrightarrow> protocol_inv (check_timeout p e) \<and> p_config (check_timeout p e) = p_config p"
proof -
  assume inv: "protocol_inv p"
  then have "protocol_inv (ResetParser p) \<and> p_config (ResetParser p) = p_config p"
    by (simp add: protocol_inv_def rx_ok_def table_inv_def readahead_ok_def) (simp add: ResetParser_def)
  then show ?thesis using inv by (simp add: check_timeout_def split: option.splits)
qed

lemma Protocol_Run_inv:
  assumes "protocol_inv p" "read_stays_inside (p_config p)" "Protocol_Run p e = Some (p', e')"
  shows "protocol_inv p' \<and> p_config p' = p_config p"
proof -
  obtain p1 e1 where t1: "TxPhase p e = (p1, e1)" by (metis prod.exhaust)
  have p1: "protocol_inv p1" "p_config p1 = p_config p" using TxPhase_frame [OF assms(1) t1] by (simp_all add: rx_frame_def)
  note ct = check_timeout_inv [OF p1(1), of e1]
  obtain p2 e2 where l: "rx_loop (check_timeout p1 e1) e1 = Some (p2, e2)" and t2: "TxPhase p2 e2 = (p', e')"
    using assms(3) by (auto simp: Protocol_Run_def t1 split: option.splits)
  have p2: "protocol_inv p2" "p_config p2 = p_config p" using rx_loop_inv [OF l] ct p1 assms(2) by simp_all
  then show ?thesis using TxPhase_frame [OF p2(1) t2] by (simp add: rx_frame_def)
qed

text \<open>
  C37. The engine keeps its arrays and its table consistent: the initial state satisfies the
  invariant (buffer sizes, every index the receiver writes next inside the buffer, transmit length
  within the buffer, count and index of the read-ahead buffer within its size, loopback first and
  no tag twice among at most 15 handlers), and every operation keeps it: registering a handler,
  sending, taking a byte from the read-ahead buffer or refilling it, receiving any byte,
  transmitting, the timeout check, the receive loop and a whole Run. A read callback may return any
  count, also one larger than the buffer; it is only required to write within the room it is given.
\<close>

theorem protocol_operations_keep_invariant:
  assumes "protocol_inv p" "frame_ok f" "read_stays_inside (p_config p)"
  shows "protocol_inv (Protocol_init cfg) \<and> protocol_inv (snd (AddHandler tag h p)) \<and> protocol_inv (snd (Send f p))
    \<and> protocol_inv (fst (rx_byte raw p e)) \<and> protocol_inv (fst (TxPhase p e)) \<and> protocol_inv (check_timeout p e)
    \<and> protocol_inv (fst (snd (ReadRawByte p e)))
    \<and> (\<forall>p' e'. rx_loop p e = Some (p', e') \<longrightarrow> protocol_inv p')
    \<and> (\<forall>p' e'. Protocol_Run p e = Some (p', e') \<longrightarrow> protocol_inv p' \<and> p_config p' = p_config p)"
proof -
  have "protocol_inv (fst (rx_byte raw p e))" using rx_byte_refines [OF assms(1)] by (metis prod.collapse)
  moreover have "protocol_inv (fst (TxPhase p e))" using TxPhase_frame [OF assms(1)] by (metis prod.collapse)
  moreover have "protocol_inv (fst (snd (ReadRawByte p e)))"
    using ReadRawByte_inv [OF assms(1,3)] by (metis prod.collapse)
  ultimately show ?thesis
    using protocol_inv_init protocol_inv_AddHandler [OF assms(1)] Send_ok [OF assms(1,2)] check_timeout_inv [OF assms(1)]
      rx_loop_inv [OF _ assms(1,3)] Protocol_Run_inv [OF assms(1,3)] by (intro conjI) auto
qed

text \<open>A read callback that claims more bytes than it was asked for is still served within the buffer.\<close>

definition boasting_config :: "nat ProtocolConfig" where
  "boasting_config = \<lparr>cfg_read = Some (\<lambda>room e. ([0xAA, 1, 2], 1000, e + 1)), cfg_write = None, cfg_timestamp = None, cfg_frame_timeout = 0\<rparr>"

theorem protocol_operations_keep_invariant_witness:
  "protocol_inv (fst (rx_byte 0xAA (Protocol_init boasting_config) 0))
   \<and> protocol_inv (fst (snd (ReadRawByte (Protocol_init boasting_config) 0)))
   \<and> p_readahead_cnt (fst (snd (ReadRawByte (Protocol_init boasting_config) 0))) = 16"
proof -
  have f: "frame_ok (Frame_Create 5 None 0)" by (intro Frame_Create_ok) simp
  have l: "read_stays_inside (p_config (Protocol_init boasting_config))"
    by (simp add: read_stays_inside_def boasting_config_def Protocol_init_def kReadahead_def)
  have "p_readahead_cnt (fst (snd (ReadRawByte (Protocol_init boasting_config) 0))) = 16"
    by (simp add: ReadRawByte_def boasting_config_def Protocol_init_def kReadahead_def)
  then show ?thesis using protocol_operations_keep_invariant [OF protocol_inv_init f l] by blast
qed

end
