(* ===== verification/Commands.thy ===== *)
theory Commands
  imports ProtocolProps Instruction
begin

text \<open>
  The controller commands: the message of src/app/src/hw/controller_command.hpp and the protocol
  handlers of src/app/src/hw/controller_command_sink.cpp, which decode frames and queue messages
  for the APP task.

  The message is a command code and a union; a value of the datatype is a code with the member
  that belongs to it, and \<open>CmdUnknown\<close> stands for a code outside the enumeration. The handlers
  get the payload from the receive buffer, whose address is never null. The send operation of the
  mailbox is an argument.
\<close>

section \<open>Messages\<close>

record GroupedSetMultipleColorPayload =
  gmc_mark :: Mark
  gmc_r :: u8
  gmc_g :: u8
  gmc_b :: u8
  gmc_range :: Range
  gmc_group_id :: GroupId

record GroupedSetSingleColorPayload =
  gsc_mark :: Mark
  gsc_r :: u8
  gsc_g :: u8
  gsc_b :: u8
  gsc_index :: u8
  gsc_group_id :: GroupId

record GroupedSetSingleColorHsvPayload =
  gsh_mark :: Mark
  gsh_h :: u8
  gsh_s :: u8
  gsh_v :: u8
  gsh_index :: u8
  gsh_group_id :: GroupId

record GroupedSetMultipleColorHsvPayload =
  gmh_mark :: Mark
  gmh_h :: u8
  gmh_s :: u8
  gmh_v :: u8
  gmh_range :: Range
  gmh_group_id :: GroupId

record RunGroupCommandPayload =
  rgc_parent_group_id :: GroupId
  rgc_mark :: Mark
  rgc_target_group_id :: GroupId
  rgc_additional_repeats :: LoopCount

record StartCommandPayload =
  sc_root_additional_repeats :: LoopCount

datatype ControllerCommandMessage =
    CmdSetMultipleColor SetMultipleColorPayload
  | CmdSetSingleColor SetSingleColorPayload
  | CmdSetMultipleColorHsv SetMultipleColorHsvPayload
  | CmdSetSingleColorHsv SetSingleColorHsvPayload
  | CmdResetInstructions
  | CmdRun
  | CmdSetMultipleColorGrouped GroupedSetMultipleColorPayload
  | CmdSetSingleColorGrouped GroupedSetSingleColorPayload
  | CmdSetMultipleColorHsvGrouped GroupedSetMultipleColorHsvPayload
  | CmdSetSingleColorHsvGrouped GroupedSetSingleColorHsvPayload
  | CmdRunGroup RunGroupCommandPayload
  | CmdStart StartCommandPayload
  | CmdFade FadePayload
  | CmdGradient GradientPayload
  | CmdUnknown u8

section \<open>The sink\<close>

definition ReadLe16 :: "u8 list \<Rightarrow> nat \<Rightarrow> u16" where
  "ReadLe16 data offset = le16 (data ! offset) (data ! (offset + 1))"

definition ReadLe32 :: "u8 list \<Rightarrow> nat \<Rightarrow> u32" where
  "ReadLe32 data offset =
     le32 (data ! offset) (data ! (offset + 1)) (data ! (offset + 2)) (data ! (offset + 3))"

record 'mb ControllerCommandSink =
  sink_mailbox :: "'mb option"

definition SetMailbox :: "'mb option \<Rightarrow> 'mb ControllerCommandSink \<Rightarrow> 'mb ControllerCommandSink" where
  "SetMailbox mailbox sink = sink\<lparr>sink_mailbox := mailbox\<rparr>"

type_synonym 'mb sender = "'mb \<Rightarrow> ControllerCommandMessage \<Rightarrow> status \<times> 'mb"

definition QueueCommand :: "'mb sender \<Rightarrow> ControllerCommandMessage \<Rightarrow> 'mb ControllerCommandSink \<Rightarrow> 'mb ControllerCommandSink" where
  "QueueCommand send message sink =
     (case sink_mailbox sink of
        None \<Rightarrow> sink
      | Some mailbox \<Rightarrow> (case send mailbox message of (status, mailbox1) \<Rightarrow> sink\<lparr>sink_mailbox := Some mailbox1\<rparr>))"

definition HasExactPayload :: "u8 list option \<Rightarrow> u16 \<Rightarrow> u16 \<Rightarrow> bool" where
  "HasExactPayload data len expected_length \<longleftrightarrow> data \<noteq> None \<and> len = expected_length"

section \<open>The handlers\<close>

definition HandleSetMultipleColor :: "'mb sender \<Rightarrow> u8 list \<Rightarrow> u16 \<Rightarrow> 'mb ControllerCommandSink \<Rightarrow> 'mb ControllerCommandSink" where
  "HandleSetMultipleColor send data len sink =
     (if sink_mailbox sink = None then sink
      else if len < 7 then sink
      else QueueCommand send (CmdSetMultipleColor
             \<lparr>smc_mark = le16 (data ! 0) (data ! 1), smc_r = data ! 2, smc_g = data ! 3, smc_b = data ! 4,
              smc_range = \<lparr>range_start = data ! 5, range_end = data ! 6\<rparr>\<rparr>) sink)"

definition HandleSetSingleColor :: "'mb sender \<Rightarrow> u8 list \<Rightarrow> u16 \<Rightarrow> 'mb ControllerCommandSink \<Rightarrow> 'mb ControllerCommandSink" where
  "HandleSetSingleColor send data len sink =
     (if sink_mailbox sink = None then sink
      else if len < 6 then sink
      else QueueCommand send (CmdSetSingleColor
             \<lparr>ssc_mark = le16 (data ! 0) (data ! 1), ssc_r = data ! 2, ssc_g = data ! 3, ssc_b = data ! 4,
              ssc_index = data ! 5\<rparr>) sink)"

definition HandleSetSingleColorHsv :: "'mb sender \<Rightarrow> u8 list \<Rightarrow> u16 \<Rightarrow> 'mb ControllerCommandSink \<Rightarrow> 'mb ControllerCommandSink" where
  "HandleSetSingleColorHsv send data len sink =
     (if sink_mailbox sink = None then sink
      else if len < 6 then sink
      else QueueCommand send (CmdSetSingleColorHsv
             \<lparr>ssh_mark = le16 (data ! 0) (data ! 1), ssh_h = data ! 2, ssh_s = data ! 3, ssh_v = data ! 4,
              ssh_index = data ! 5\<rparr>) sink)"

definition HandleSetMultipleColorHsv :: "'mb sender \<Rightarrow> u8 list \<Rightarrow> u16 \<Rightarrow> 'mb ControllerCommandSink \<Rightarrow> 'mb ControllerCommandSink" where
  "HandleSetMultipleColorHsv send data len sink =
     (if sink_mailbox sink = None then sink
      else if len < 7 then sink
      else QueueCommand send (CmdSetMultipleColorHsv
             \<lparr>smh_mark = le16 (data ! 0) (data ! 1), smh_h = data ! 2, smh_s = data ! 3, smh_v = data ! 4,
              smh_range = \<lparr>range_start = data ! 5, range_end = data ! 6\<rparr>\<rparr>) sink)"

definition HandleResetInstructions :: "'mb sender \<Rightarrow> u8 list \<Rightarrow> u16 \<Rightarrow> 'mb ControllerCommandSink \<Rightarrow> 'mb ControllerCommandSink" where
  "HandleResetInstructions send data len sink =
     (if sink_mailbox sink = None then sink else QueueCommand send CmdResetInstructions sink)"

definition HandleRun :: "'mb sender \<Rightarrow> u8 list \<Rightarrow> u16 \<Rightarrow> 'mb ControllerCommandSink \<Rightarrow> 'mb ControllerCommandSink" where
  "HandleRun send data len sink =
     (if sink_mailbox sink = None then sink else QueueCommand send CmdRun sink)"

definition HandleSetMultipleColorGrouped :: "'mb sender \<Rightarrow> u8 list \<Rightarrow> u16 \<Rightarrow> 'mb ControllerCommandSink \<Rightarrow> 'mb ControllerCommandSink" where
  "HandleSetMultipleColorGrouped send data len sink =
     (if \<not> HasExactPayload (Some data) len 11 then sink
      else QueueCommand send (CmdSetMultipleColorGrouped
             \<lparr>gmc_mark = ReadLe16 data 0, gmc_r = data ! 2, gmc_g = data ! 3, gmc_b = data ! 4,
              gmc_range = \<lparr>range_start = data ! 5, range_end = data ! 6\<rparr>, gmc_group_id = ReadLe32 data 7\<rparr>) sink)"

definition HandleSetSingleColorGrouped :: "'mb sender \<Rightarrow> u8 list \<Rightarrow> u16 \<Rightarrow> 'mb ControllerCommandSink \<Rightarrow> 'mb ControllerCommandSink" where
  "HandleSetSingleColorGrouped send data len sink =
     (if \<not> HasExactPayload (Some data) len 10 then sink
      else QueueCommand send (CmdSetSingleColorGrouped
             \<lparr>gsc_mark = ReadLe16 data 0, gsc_r = data ! 2, gsc_g = data ! 3, gsc_b = data ! 4,
              gsc_index = data ! 5, gsc_group_id = ReadLe32 data 6\<rparr>) sink)"

definition HandleSetSingleColorHsvGrouped :: "'mb sender \<Rightarrow> u8 list \<Rightarrow> u16 \<Rightarrow> 'mb ControllerCommandSink \<Rightarrow> 'mb ControllerCommandSink" where
  "HandleSetSingleColorHsvGrouped send data len sink =
     (if \<not> HasExactPayload (Some data) len 10 then sink
      else QueueCommand send (CmdSetSingleColorHsvGrouped
             \<lparr>gsh_mark = ReadLe16 data 0, gsh_h = data ! 2, gsh_s = data ! 3, gsh_v = data ! 4,
              gsh_index = data ! 5, gsh_group_id = ReadLe32 data 6\<rparr>) sink)"

definition HandleSetMultipleColorHsvGrouped :: "'mb sender \<Rightarrow> u8 list \<Rightarrow> u16 \<Rightarrow> 'mb ControllerCommandSink \<Rightarrow> 'mb ControllerCommandSink" where
  "HandleSetMultipleColorHsvGrouped send data len sink =
     (if \<not> HasExactPayload (Some data) len 11 then sink
      else QueueCommand send (CmdSetMultipleColorHsvGrouped
             \<lparr>gmh_mark = ReadLe16 data 0, gmh_h = data ! 2, gmh_s = data ! 3, gmh_v = data ! 4,
              gmh_range = \<lparr>range_start = data ! 5, range_end = data ! 6\<rparr>, gmh_group_id = ReadLe32 data 7\<rparr>) sink)"

definition HandleRunGroup :: "'mb sender \<Rightarrow> u8 list \<Rightarrow> u16 \<Rightarrow> 'mb ControllerCommandSink \<Rightarrow> 'mb ControllerCommandSink" where
  "HandleRunGroup send data len sink =
     (if \<not> HasExactPayload (Some data) len 12 then sink
      else QueueCommand send (CmdRunGroup
             \<lparr>rgc_parent_group_id = ReadLe32 data 0, rgc_mark = ReadLe16 data 4,
              rgc_target_group_id = ReadLe32 data 6, rgc_additional_repeats = ReadLe16 data 10\<rparr>) sink)"

definition HandleStart :: "'mb sender \<Rightarrow> u8 list \<Rightarrow> u16 \<Rightarrow> 'mb ControllerCommandSink \<Rightarrow> 'mb ControllerCommandSink" where
  "HandleStart send data len sink =
     (if \<not> HasExactPayload (Some data) len 2 then sink
      else QueueCommand send (CmdStart
             \<lparr>sc_root_additional_repeats = ReadLe16 data 0\<rparr>) sink)"

definition HandleFade :: "'mb sender \<Rightarrow> u8 list \<Rightarrow> u16 \<Rightarrow> 'mb ControllerCommandSink \<Rightarrow> 'mb ControllerCommandSink" where
  "HandleFade send data len sink =
     (if \<not> HasExactPayload (Some data) len 11 then sink
      else QueueCommand send (CmdFade
             \<lparr>fp_mark = ReadLe16 data 0, fp_percent = ReadLe16 data 2, fp_duration_ms = ReadLe16 data 4,
              fp_index = data ! 6, fp_group_id = ReadLe32 data 7\<rparr>) sink)"

definition HandleGradient :: "'mb sender \<Rightarrow> u8 list \<Rightarrow> u16 \<Rightarrow> 'mb ControllerCommandSink \<Rightarrow> 'mb ControllerCommandSink" where
  "HandleGradient send data len sink =
     (if \<not> HasExactPayload (Some data) len 12 then sink
      else QueueCommand send (CmdGradient
             \<lparr>gp_mark = ReadLe16 data 0, gp_r = data ! 2, gp_g = data ! 3, gp_b = data ! 4,
              gp_duration_ms = ReadLe16 data 5, gp_index = data ! 7, gp_group_id = ReadLe32 data 8\<rparr>) sink)"

section \<open>Registration\<close>

text \<open>
  The handlers in the order of Register. The sink is a part of the engine's environment, and
  \<open>on_sink\<close> applies an operation of the sink there.
\<close>

definition sink_handlers ::
  "(('mb ControllerCommandSink \<Rightarrow> 'mb ControllerCommandSink) \<Rightarrow> 'e \<Rightarrow> 'e) \<Rightarrow> 'mb sender \<Rightarrow> (Tag \<times> 'e FrameHandler) list" where
  "sink_handlers on_sink send =
     [(Tag_kSetMultipleColor, Handler (\<lambda>d n. on_sink (HandleSetMultipleColor send d n))),
      (Tag_kSetSingleColor, Handler (\<lambda>d n. on_sink (HandleSetSingleColor send d n))),
      (Tag_kResetInstructions, Handler (\<lambda>d n. on_sink (HandleResetInstructions send d n))),
      (Tag_kRun, Handler (\<lambda>d n. on_sink (HandleRun send d n))),
      (Tag_kSetSingleColorHsv, Handler (\<lambda>d n. on_sink (HandleSetSingleColorHsv send d n))),
      (Tag_kSetMultipleColorHsv, Handler (\<lambda>d n. on_sink (HandleSetMultipleColorHsv send d n))),
      (Tag_kSetMultipleColorGrouped, Handler (\<lambda>d n. on_sink (HandleSetMultipleColorGrouped send d n))),
      (Tag_kSetSingleColorGrouped, Handler (\<lambda>d n. on_sink (HandleSetSingleColorGrouped send d n))),
      (Tag_kSetSingleColorHsvGrouped, Handler (\<lambda>d n. on_sink (HandleSetSingleColorHsvGrouped send d n))),
      (Tag_kSetMultipleColorHsvGrouped, Handler (\<lambda>d n. on_sink (HandleSetMultipleColorHsvGrouped send d n))),
      (Tag_kRunGroup, Handler (\<lambda>d n. on_sink (HandleRunGroup send d n))),
      (Tag_kStart, Handler (\<lambda>d n. on_sink (HandleStart send d n))),
      (Tag_kFade, Handler (\<lambda>d n. on_sink (HandleFade send d n))),
      (Tag_kGradient, Handler (\<lambda>d n. on_sink (HandleGradient send d n)))]"

fun register_all :: "(Tag \<times> 'e FrameHandler) list \<Rightarrow> 'e Protocol \<Rightarrow> bool \<times> 'e Protocol" where
  "register_all [] p = (True, p)"
| "register_all ((tag, h) # hs) p =
     (case AddHandler tag (Some h) p of (ok, p1) \<Rightarrow> if ok then register_all hs p1 else (False, p1))"

definition Register ::
  "(('mb ControllerCommandSink \<Rightarrow> 'mb ControllerCommandSink) \<Rightarrow> 'e \<Rightarrow> 'e) \<Rightarrow> 'mb sender \<Rightarrow> 'e Protocol \<Rightarrow> bool \<times> 'e Protocol" where
  "Register on_sink send protocol = register_all (sink_handlers on_sink send) protocol"

section \<open>The wire layout of the commands\<close>

text \<open>What a host sends for a command: the tag and the fields in the order of tags.hpp, with the marks.\<close>

fun encode :: "ControllerCommandMessage \<Rightarrow> Tag \<times> u8 list" where
  "encode (CmdSetMultipleColor p) = (Tag_kSetMultipleColor, bytes16 (smc_mark p) @
     [smc_r p, smc_g p, smc_b p, range_start (smc_range p), range_end (smc_range p)])"
| "encode (CmdSetSingleColor p) = (Tag_kSetSingleColor, bytes16 (ssc_mark p) @
     [ssc_r p, ssc_g p, ssc_b p, ssc_index p])"
| "encode (CmdSetMultipleColorHsv p) = (Tag_kSetMultipleColorHsv, bytes16 (smh_mark p) @
     [smh_h p, smh_s p, smh_v p, range_start (smh_range p), range_end (smh_range p)])"
| "encode (CmdSetSingleColorHsv p) = (Tag_kSetSingleColorHsv, bytes16 (ssh_mark p) @
     [ssh_h p, ssh_s p, ssh_v p, ssh_index p])"
| "encode CmdResetInstructions = (Tag_kResetInstructions, [])"
| "encode CmdRun = (Tag_kRun, [])"
| "encode (CmdSetMultipleColorGrouped p) = (Tag_kSetMultipleColorGrouped, bytes16 (gmc_mark p) @
     [gmc_r p, gmc_g p, gmc_b p, range_start (gmc_range p), range_end (gmc_range p)] @ bytes32 (gmc_group_id p))"
| "encode (CmdSetSingleColorGrouped p) = (Tag_kSetSingleColorGrouped, bytes16 (gsc_mark p) @
     [gsc_r p, gsc_g p, gsc_b p, gsc_index p] @ bytes32 (gsc_group_id p))"
| "encode (CmdSetMultipleColorHsvGrouped p) = (Tag_kSetMultipleColorHsvGrouped, bytes16 (gmh_mark p) @
     [gmh_h p, gmh_s p, gmh_v p, range_start (gmh_range p), range_end (gmh_range p)] @ bytes32 (gmh_group_id p))"
| "encode (CmdSetSingleColorHsvGrouped p) = (Tag_kSetSingleColorHsvGrouped, bytes16 (gsh_mark p) @
     [gsh_h p, gsh_s p, gsh_v p, gsh_index p] @ bytes32 (gsh_group_id p))"
| "encode (CmdRunGroup p) = (Tag_kRunGroup, bytes32 (rgc_parent_group_id p) @ bytes16 (rgc_mark p) @
     bytes32 (rgc_target_group_id p) @ bytes16 (rgc_additional_repeats p))"
| "encode (CmdStart p) = (Tag_kStart, bytes16 (sc_root_additional_repeats p))"
| "encode (CmdFade p) = (Tag_kFade, bytes16 (fp_mark p) @ bytes16 (fp_percent p) @ bytes16 (fp_duration_ms p) @
     [fp_index p] @ bytes32 (fp_group_id p))"
| "encode (CmdGradient p) = (Tag_kGradient, bytes16 (gp_mark p) @ [gp_r p, gp_g p, gp_b p] @
     bytes16 (gp_duration_ms p) @ [gp_index p] @ bytes32 (gp_group_id p))"
| "encode (CmdUnknown c) = (0xFFFF, [])"

fun known :: "ControllerCommandMessage \<Rightarrow> bool" where
  "known (CmdUnknown c) = False"
| "known _ = True"

lemma encode_length: "length (snd (encode m)) \<le> 12"
  by (cases m) auto

text \<open>The payload sizes the handlers accept: at least so many bytes for the first commands, exactly so many later.\<close>

definition accepts :: "Tag \<Rightarrow> nat \<Rightarrow> bool" where
  "accepts tag n \<longleftrightarrow>
     (tag \<in> {Tag_kSetMultipleColor, Tag_kSetMultipleColorHsv} \<and> 7 \<le> n) \<or>
     (tag \<in> {Tag_kSetSingleColor, Tag_kSetSingleColorHsv} \<and> 6 \<le> n) \<or>
     tag \<in> {Tag_kResetInstructions, Tag_kRun} \<or>
     (tag \<in> {Tag_kSetMultipleColorGrouped, Tag_kSetMultipleColorHsvGrouped, Tag_kFade} \<and> n = 11) \<or>
     (tag \<in> {Tag_kSetSingleColorGrouped, Tag_kSetSingleColorHsvGrouped} \<and> n = 10) \<or>
     (tag \<in> {Tag_kRunGroup, Tag_kGradient} \<and> n = 12) \<or>
     (tag = Tag_kStart \<and> n = 2)"

lemmas handler_defs = HandleSetMultipleColor_def HandleSetSingleColor_def HandleSetSingleColorHsv_def
  HandleSetMultipleColorHsv_def HandleResetInstructions_def HandleRun_def HandleSetMultipleColorGrouped_def
  HandleSetSingleColorGrouped_def HandleSetSingleColorHsvGrouped_def HandleSetMultipleColorHsvGrouped_def
  HandleRunGroup_def HandleStart_def HandleFade_def HandleGradient_def HasExactPayload_def ReadLe16_def ReadLe32_def

lemma payload_eta [simp]:
  "\<lparr>range_start = range_start r, range_end = range_end r\<rparr> = (r :: Range)"
  "\<lparr>smc_mark = smc_mark a, smc_r = smc_r a, smc_g = smc_g a, smc_b = smc_b a, smc_range = smc_range a\<rparr> = (a :: SetMultipleColorPayload)"
  "\<lparr>ssc_mark = ssc_mark b, ssc_r = ssc_r b, ssc_g = ssc_g b, ssc_b = ssc_b b, ssc_index = ssc_index b\<rparr> = (b :: SetSingleColorPayload)"
  "\<lparr>ssh_mark = ssh_mark c, ssh_h = ssh_h c, ssh_s = ssh_s c, ssh_v = ssh_v c, ssh_index = ssh_index c\<rparr> = (c :: SetSingleColorHsvPayload)"
  "\<lparr>smh_mark = smh_mark d, smh_h = smh_h d, smh_s = smh_s d, smh_v = smh_v d, smh_range = smh_range d\<rparr> = (d :: SetMultipleColorHsvPayload)"
  "\<lparr>fp_mark = fp_mark f, fp_percent = fp_percent f, fp_duration_ms = fp_duration_ms f, fp_index = fp_index f, fp_group_id = fp_group_id f\<rparr> = (f :: FadePayload)"
  "\<lparr>gp_mark = gp_mark g, gp_r = gp_r g, gp_g = gp_g g, gp_b = gp_b g, gp_duration_ms = gp_duration_ms g, gp_index = gp_index g, gp_group_id = gp_group_id g\<rparr> = (g :: GradientPayload)"
  "\<lparr>gmc_mark = gmc_mark h, gmc_r = gmc_r h, gmc_g = gmc_g h, gmc_b = gmc_b h, gmc_range = gmc_range h, gmc_group_id = gmc_group_id h\<rparr> = (h :: GroupedSetMultipleColorPayload)"
  "\<lparr>gsc_mark = gsc_mark i, gsc_r = gsc_r i, gsc_g = gsc_g i, gsc_b = gsc_b i, gsc_index = gsc_index i, gsc_group_id = gsc_group_id i\<rparr> = (i :: GroupedSetSingleColorPayload)"
  "\<lparr>gsh_mark = gsh_mark j, gsh_h = gsh_h j, gsh_s = gsh_s j, gsh_v = gsh_v j, gsh_index = gsh_index j, gsh_group_id = gsh_group_id j\<rparr> = (j :: GroupedSetSingleColorHsvPayload)"
  "\<lparr>gmh_mark = gmh_mark k, gmh_h = gmh_h k, gmh_s = gmh_s k, gmh_v = gmh_v k, gmh_range = gmh_range k, gmh_group_id = gmh_group_id k\<rparr> = (k :: GroupedSetMultipleColorHsvPayload)"
  "\<lparr>rgc_parent_group_id = rgc_parent_group_id l, rgc_mark = rgc_mark l, rgc_target_group_id = rgc_target_group_id l, rgc_additional_repeats = rgc_additional_repeats l\<rparr> = (l :: RunGroupCommandPayload)"
  "\<lparr>sc_root_additional_repeats = sc_root_additional_repeats m\<rparr> = (m :: StartCommandPayload)"
  by simp_all

lemma QueueCommand_None [simp]: "sink_mailbox sink = None \<Longrightarrow> QueueCommand send m sink = sink"
  by (simp add: QueueCommand_def)

text \<open>The handler of a tag, applied to a payload.\<close>

definition handle :: "'mb sender \<Rightarrow> Tag \<Rightarrow> u8 list \<Rightarrow> 'mb ControllerCommandSink \<Rightarrow> 'mb ControllerCommandSink" where
  "handle send tag data sink = snd (deliver (sink_handlers (\<lambda>f. f) send) (tag, data) (None, sink))"

lemma handle_encode:
  assumes "known m"
  shows "handle send (fst (encode m)) (snd (encode m)) sink = QueueCommand send m sink"
  using assms
  by (cases m) (auto simp: handle_def deliver_def sink_handlers_def tag_defs handler_defs bytes16_ucast bytes32_def)

lemma len_u16:
  "n \<le> kMaxFrameDataLength \<Longrightarrow> (of_nat n :: u16) < w \<longleftrightarrow> n < unat w"
  "n \<le> kMaxFrameDataLength \<Longrightarrow> (of_nat n :: u16) = w \<longleftrightarrow> n = unat w"
  by (auto simp: kMaxFrameDataLength_def word_less_nat_alt word_unat_eq_iff unat_of_nat take_bit_eq_mod)

lemma handle_cases:
  "handle send tag data sink =
     (let len = of_nat (length data) in
      if tag = Tag_kSetMultipleColor then HandleSetMultipleColor send data len sink
      else if tag = Tag_kSetSingleColor then HandleSetSingleColor send data len sink
      else if tag = Tag_kResetInstructions then HandleResetInstructions send data len sink
      else if tag = Tag_kRun then HandleRun send data len sink
      else if tag = Tag_kSetSingleColorHsv then HandleSetSingleColorHsv send data len sink
      else if tag = Tag_kSetMultipleColorHsv then HandleSetMultipleColorHsv send data len sink
      else if tag = Tag_kSetMultipleColorGrouped then HandleSetMultipleColorGrouped send data len sink
      else if tag = Tag_kSetSingleColorGrouped then HandleSetSingleColorGrouped send data len sink
      else if tag = Tag_kSetSingleColorHsvGrouped then HandleSetSingleColorHsvGrouped send data len sink
      else if tag = Tag_kSetMultipleColorHsvGrouped then HandleSetMultipleColorHsvGrouped send data len sink
      else if tag = Tag_kRunGroup then HandleRunGroup send data len sink
      else if tag = Tag_kStart then HandleStart send data len sink
      else if tag = Tag_kFade then HandleFade send data len sink
      else if tag = Tag_kGradient then HandleGradient send data len sink
      else sink)"
  by (simp add: handle_def deliver_def sink_handlers_def Let_def)

definition command_tags :: "Tag list" where
  "command_tags = [Tag_kSetMultipleColor, Tag_kSetSingleColor, Tag_kResetInstructions, Tag_kRun, Tag_kSetSingleColorHsv, Tag_kSetMultipleColorHsv, 
     Tag_kSetMultipleColorGrouped, Tag_kSetSingleColorGrouped, Tag_kSetSingleColorHsvGrouped, Tag_kSetMultipleColorHsvGrouped, 
     Tag_kRunGroup, Tag_kStart, Tag_kFade, Tag_kGradient]"

lemma handle_other: "tag \<notin> set command_tags \<Longrightarrow> handle send tag data sink = sink"
  by (simp add: handle_cases command_tags_def)

text \<open>A wrong size is ignored; an accepted payload is the encoding of the one message that is queued.\<close>

lemma handle_rejects:
  assumes "\<not> accepts tag (length data)" "length data \<le> kMaxFrameDataLength"
  shows "handle send tag data sink = sink"
proof (cases "tag \<in> set command_tags")
  case True
  then show ?thesis using assms(1) unfolding command_tags_def list.set insert_iff empty_iff
    by (elim disjE; simp add: handle_cases accepts_def handler_defs len_u16 [OF assms(2)] tag_defs)
qed (rule handle_other)

lemma QueueCommand_guard [simp]:
  "(if sink_mailbox sink = None then sink else QueueCommand send m sink) = QueueCommand send m sink"
  by simp

lemma long_list:
  "6 \<le> length xs \<longleftrightarrow> (\<exists>a b c d e f rest. xs = a # b # c # d # e # f # rest)"
  "7 \<le> length xs \<longleftrightarrow> (\<exists>a b c d e f g rest. xs = a # b # c # d # e # f # g # rest)"
  "length xs = 2 \<longleftrightarrow> (\<exists>a b. xs = [a, b])"
  "length xs = 10 \<longleftrightarrow> (\<exists>a b c d e f g h i j. xs = [a, b, c, d, e, f, g, h, i, j])"
  "length xs = 11 \<longleftrightarrow> (\<exists>a b c d e f g h i j k. xs = [a, b, c, d, e, f, g, h, i, j, k])"
  "length xs = 12 \<longleftrightarrow> (\<exists>a b c d e f g h i j k l. xs = [a, b, c, d, e, f, g, h, i, j, k, l])"
  by (auto simp: numeral_eq_Suc Suc_le_length_iff length_Suc_conv)

text \<open>The message of an accepted payload.\<close>

definition decode :: "Tag \<Rightarrow> u8 list \<Rightarrow> ControllerCommandMessage" where
  "decode tag data =
     (if tag = Tag_kSetMultipleColor then CmdSetMultipleColor
        \<lparr>smc_mark = le16 (data ! 0) (data ! 1), smc_r = data ! 2, smc_g = data ! 3, smc_b = data ! 4, smc_range = \<lparr>range_start = data ! 5, range_end = data ! 6\<rparr>\<rparr>
      else if tag = Tag_kSetSingleColor then CmdSetSingleColor
        \<lparr>ssc_mark = le16 (data ! 0) (data ! 1), ssc_r = data ! 2, ssc_g = data ! 3, ssc_b = data ! 4, ssc_index = data ! 5\<rparr>
      else if tag = Tag_kResetInstructions then CmdResetInstructions
      else if tag = Tag_kRun then CmdRun
      else if tag = Tag_kSetSingleColorHsv then CmdSetSingleColorHsv
        \<lparr>ssh_mark = le16 (data ! 0) (data ! 1), ssh_h = data ! 2, ssh_s = data ! 3, ssh_v = data ! 4, ssh_index = data ! 5\<rparr>
      else if tag = Tag_kSetMultipleColorHsv then CmdSetMultipleColorHsv
        \<lparr>smh_mark = le16 (data ! 0) (data ! 1), smh_h = data ! 2, smh_s = data ! 3, smh_v = data ! 4, smh_range = \<lparr>range_start = data ! 5, range_end = data ! 6\<rparr>\<rparr>
      else if tag = Tag_kSetMultipleColorGrouped then CmdSetMultipleColorGrouped
        \<lparr>gmc_mark = ReadLe16 data 0, gmc_r = data ! 2, gmc_g = data ! 3, gmc_b = data ! 4, gmc_range = \<lparr>range_start = data ! 5, range_end = data ! 6\<rparr>, gmc_group_id = ReadLe32 data 7\<rparr>
      else if tag = Tag_kSetSingleColorGrouped then CmdSetSingleColorGrouped
        \<lparr>gsc_mark = ReadLe16 data 0, gsc_r = data ! 2, gsc_g = data ! 3, gsc_b = data ! 4, gsc_index = data ! 5, gsc_group_id = ReadLe32 data 6\<rparr>
      else if tag = Tag_kSetSingleColorHsvGrouped then CmdSetSingleColorHsvGrouped
        \<lparr>gsh_mark = ReadLe16 data 0, gsh_h = data ! 2, gsh_s = data ! 3, gsh_v = data ! 4, gsh_index = data ! 5, gsh_group_id = ReadLe32 data 6\<rparr>
      else if tag = Tag_kSetMultipleColorHsvGrouped then CmdSetMultipleColorHsvGrouped
        \<lparr>gmh_mark = ReadLe16 data 0, gmh_h = data ! 2, gmh_s = data ! 3, gmh_v = data ! 4, gmh_range = \<lparr>range_start = data ! 5, range_end = data ! 6\<rparr>, gmh_group_id = ReadLe32 data 7\<rparr>
      else if tag = Tag_kRunGroup then CmdRunGroup
        \<lparr>rgc_parent_group_id = ReadLe32 data 0, rgc_mark = ReadLe16 data 4, rgc_target_group_id = ReadLe32 data 6, rgc_additional_repeats = ReadLe16 data 10\<rparr>
      else if tag = Tag_kStart then CmdStart
        \<lparr>sc_root_additional_repeats = ReadLe16 data 0\<rparr>
      else if tag = Tag_kFade then CmdFade
        \<lparr>fp_mark = ReadLe16 data 0, fp_percent = ReadLe16 data 2, fp_duration_ms = ReadLe16 data 4, fp_index = data ! 6, fp_group_id = ReadLe32 data 7\<rparr>
      else if tag = Tag_kGradient then CmdGradient
        \<lparr>gp_mark = ReadLe16 data 0, gp_r = data ! 2, gp_g = data ! 3, gp_b = data ! 4, gp_duration_ms = ReadLe16 data 5, gp_index = data ! 7, gp_group_id = ReadLe32 data 8\<rparr>
      else CmdUnknown 0)"

lemma handle_accepts:
  assumes "accepts tag (length data)" "length data \<le> kMaxFrameDataLength"
  shows "handle send tag data sink = QueueCommand send (decode tag data) sink \<and> known (decode tag data)"
proof -
  have "tag \<in> set command_tags" using assms(1) by (auto simp: accepts_def command_tags_def)
  then show ?thesis using assms(1) unfolding command_tags_def list.set insert_iff empty_iff
    by (elim disjE; simp add: handle_cases decode_def accepts_def handler_defs len_u16 [OF assms(2)] tag_defs)
qed

lemma encode_decode:
  assumes "accepts tag (length data)"
  shows "\<exists>rest. fst (encode (decode tag data)) = tag \<and> data = snd (encode (decode tag data)) @ rest"
proof -
  have "tag \<in> set command_tags" using assms(1) by (auto simp: accepts_def command_tags_def)
  then show ?thesis using assms(1) unfolding command_tags_def list.set insert_iff empty_iff
    by (elim disjE; auto simp: decode_def accepts_def tag_defs long_list ReadLe16_def ReadLe32_def)
qed

lemma decode_encode: "known m \<Longrightarrow> decode (fst (encode m)) (snd (encode m) @ rest) = m"
  by (cases m) (simp_all add: decode_def tag_defs ReadLe16_def ReadLe32_def bytes16_ucast bytes32_def)

lemma encode_accepts: "known m \<Longrightarrow> accepts (fst (encode m)) (length (snd (encode m)))"
  by (cases m) (simp_all add: accepts_def tag_defs)

section \<open>The registered table\<close>

definition command_table where
  "command_table on_sink send = (Tag_kLoopback, LoopbackImpl) # sink_handlers on_sink send"

lemma Register_fresh:
  "fst (Register on_sink send (Protocol_init cfg)) \<and>
   snd (Register on_sink send (Protocol_init cfg)) = (Protocol_init cfg)\<lparr>p_handlers := command_table on_sink send\<rparr>"
  by (simp add: Register_def sink_handlers_def AddHandler_def Protocol_init_def tag_defs kMaxHandlers_def command_table_def)

lemma Register_result:
  "Register on_sink send (Protocol_init cfg) = (True, (Protocol_init cfg)\<lparr>p_handlers := command_table on_sink send\<rparr>)"
  using Register_fresh [of on_sink send cfg] by (metis prod.collapse)

lemma command_table_tags: "map fst (command_table on_sink send) = Tag_kLoopback # command_tags"
  by (simp add: command_table_def sink_handlers_def command_tags_def)

lemma command_table_length: "length (command_table on_sink send) = kMaxHandlers"
  by (simp add: command_table_def sink_handlers_def kMaxHandlers_def)

lemma registered_inv: "protocol_inv ((Protocol_init cfg)\<lparr>p_handlers := command_table on_sink send\<rparr>)"
  using protocol_inv_init [of cfg] command_table_tags [of on_sink send] command_table_length [of on_sink send]
  by (simp add: protocol_inv_def table_inv_def tx_ok_def readahead_ok_def) (simp add: command_table_def command_tags_def tag_defs)

lemma deliver_command:
  assumes "tag \<in> set command_tags"
  shows "deliver (command_table on_sink send) (tag, data) (tx, e) = (tx, on_sink (handle send tag data) e)"
  using assms [unfolded command_tags_def list.set insert_iff empty_iff]
  by (elim disjE, simp_all add: deliver_def command_table_def sink_handlers_def tag_defs)
    (rule arg_cong [where f = "\<lambda>f. on_sink f e"]; intro ext; simp add: handle_cases tag_defs)+

lemma deliver_other:
  assumes "tag \<notin> set command_tags" "tag \<noteq> Tag_kLoopback"
  shows "deliver (command_table on_sink send) (tag, data) s = s"
  using assms by (simp add: deliver_def command_table_def sink_handlers_def command_tags_def split: prod.split)

lemma accepts_command: "accepts tag n \<Longrightarrow> tag \<in> set command_tags"
  by (auto simp: accepts_def command_tags_def)

section \<open>Properties\<close>

text \<open>
  C38. A command survives the wire: for every command of the protocol, delivering its encoding to
  the registered handlers queues exactly this command, and different commands have different
  encodings.
\<close>

theorem command_roundtrip:
  assumes "known m" "known m'"
  shows "deliver (command_table on_sink send) (encode m) (tx, e) = (tx, on_sink (QueueCommand send m) e)
    \<and> (encode m = encode m' \<longrightarrow> m = m')"
proof -
  have "deliver (command_table on_sink send) (fst (encode m), snd (encode m)) (tx, e)
      = (tx, on_sink (handle send (fst (encode m)) (snd (encode m))) e)"
    using encode_accepts [OF assms(1)] by (intro deliver_command) (rule accepts_command)
  moreover have "handle send (fst (encode m)) (snd (encode m)) = QueueCommand send m"
    using handle_encode [OF assms(1)] by (intro ext)
  moreover have "encode m = encode m' \<Longrightarrow> m = m'"
    using decode_encode [OF assms(1), of "[]"] decode_encode [OF assms(2), of "[]"] by simp
  ultimately show ?thesis by simp
qed

definition list_send :: "ControllerCommandMessage list sender" where
  "list_send mb m = (STATUS_OK, mb @ [m])"

theorem command_roundtrip_witness:
  "snd (deliver (command_table (\<lambda>f. f) list_send) (Tag_kStart, [2, 1]) (None, \<lparr>sink_mailbox = Some []\<rparr>))
     = \<lparr>sink_mailbox = Some [CmdStart \<lparr>sc_root_additional_repeats = 0x0102\<rparr>]\<rparr>"
proof -
  let ?m = "CmdStart \<lparr>sc_root_additional_repeats = 0x0102\<rparr>"
  have k: "known ?m" by simp
  have "encode ?m = (Tag_kStart, [2, 1])" by (simp add: bytes16_ucast)
  with command_roundtrip [OF k k, of "\<lambda>f. f" list_send None "\<lparr>sink_mailbox = Some []\<rparr>"] show ?thesis
    by (simp add: QueueCommand_def list_send_def)
qed

text \<open>
  C21. What the handlers do with any payload that fits in a frame: a payload of a size the tag
  does not admit, and every frame with a tag that is not a command, changes nothing; otherwise
  exactly one command is queued, and the payload begins with its encoding.
\<close>

theorem handlers_decode_or_drop:
  assumes "length data \<le> kMaxFrameDataLength" "tag \<noteq> Tag_kLoopback"
  shows "deliver (command_table (\<lambda>f. f) send) (tag, data) (tx, sink) =
      (tx, if accepts tag (length data) then QueueCommand send (decode tag data) sink else sink)
    \<and> (accepts tag (length data) \<longrightarrow> known (decode tag data) \<and>
        (\<exists>rest. (fst (encode (decode tag data)), data) = (tag, snd (encode (decode tag data)) @ rest)))"
proof (cases "accepts tag (length data)")
  case True
  then show ?thesis
    using deliver_command [OF accepts_command [OF True], of "\<lambda>f. f" send] handle_accepts [OF True assms(1)]
      encode_decode [OF True] by simp
next
  case False
  show ?thesis
  proof (cases "tag \<in> set command_tags")
    case True
    then show ?thesis using deliver_command [OF True, of "\<lambda>f. f" send] handle_rejects [OF False assms(1)] False by simp
  next
    case not_command: False
    then show ?thesis using deliver_other [OF _ assms(2)] False by simp
  qed
qed

theorem handlers_decode_or_drop_witness:
  "deliver (command_table (\<lambda>f. f) list_send) (Tag_kStart, [2, 1, 0]) (None, \<lparr>sink_mailbox = Some []\<rparr>)
     = (None, \<lparr>sink_mailbox = Some []\<rparr>)"
proof -
  have "\<not> accepts Tag_kStart (length [2, 1, 0 :: u8])" by (simp add: accepts_def tag_defs)
  then show ?thesis
    using handlers_decode_or_drop [of "[2, 1, 0]" Tag_kStart list_send None "\<lparr>sink_mailbox = Some []\<rparr>"]
    by (simp add: kMaxFrameDataLength_def tag_defs)
qed

text \<open>
  Registration on a new engine succeeds and fills the table: loopback and the fourteen
  commands are its fifteen entries, the invariant of the engine holds, and every later attempt to
  register a handler, a second Register included, is refused without effect.
\<close>

theorem Register_fills_table:
  "\<exists>p. Register on_sink send (Protocol_init cfg) = (True, p) \<and> protocol_inv p
    \<and> map fst (p_handlers p) = Tag_kLoopback # command_tags \<and> length (p_handlers p) = kMaxHandlers
    \<and> AddHandler tag h p = (False, p) \<and> Register on_sink send p = (False, p)"
proof -
  let ?p = "(Protocol_init cfg)\<lparr>p_handlers := command_table on_sink send\<rparr>"
  have len: "length (p_handlers ?p) = kMaxHandlers" by (simp add: command_table_length)
  have full: "AddHandler t g ?p = (False, ?p)" for t g using len by (simp add: AddHandler_def split: option.split)
  then have "Register on_sink send ?p = (False, ?p)"
    by (simp add: Register_def sink_handlers_def)
  then show ?thesis using len full by (intro exI [of _ ?p]) (simp add: Register_result registered_inv command_table_tags)
qed

end
