(* ===== verification/CommandManager.thy ===== *)
theory CommandManager
  imports Commands
begin

text \<open>
  The command manager of src/app/src/hw/command_manager.cpp: it owns the serial command port and
  the protocol engine, whose callbacks reach the port through the singleton.

  oshal::SerialPort and oshal::DebugPort are not part of the repository: a port is a value of a
  type variable, its operations are the fields of a record that is an argument of the definitions,
  and \<open>serial_laws\<close> states what the code relies on. The callbacks and the command handlers run on
  what they reach through singletons, the port pointer and the command sink: \<open>CommandEnv\<close>.
\<close>

section \<open>State\<close>

record 'w SerialPort =
  sp_Read :: "nat \<Rightarrow> 'w \<Rightarrow> u8 list \<times> int \<times> 'w"
  sp_Write :: "u8 list \<Rightarrow> 'w \<Rightarrow> int \<times> 'w"
  sp_SetRxEvent :: "'w \<Rightarrow> 'w"

record 'd DebugPort =
  dp_Name :: "'d \<Rightarrow> string"
  dp_Printf :: "string \<Rightarrow> 'd \<Rightarrow> int \<times> 'd"

record ('w, 'mb) CommandEnv =
  env_command_port :: "'w option"
  env_sink :: "'mb ControllerCommandSink"

record ('w, 'mb, 'd) CommandManager =
  cm_env :: "('w, 'mb) CommandEnv"
  cm_debug_port :: "'d option"
  cm_protocol :: "('w, 'mb) CommandEnv Protocol"

section \<open>The callbacks of the engine\<close>

definition ReadAdapter :: "'w SerialPort \<Rightarrow> nat \<Rightarrow> ('w, 'mb) CommandEnv \<Rightarrow> u8 list \<times> u32 \<times> ('w, 'mb) CommandEnv" where
  "ReadAdapter ops len e =
     (case env_command_port e of
        None \<Rightarrow> ([], 0, e)
      | Some port \<Rightarrow>
          (case sp_Read ops len port of (buffer, ret, port1) \<Rightarrow>
             (buffer, if ret < 0 then 0 else word_of_int ret, e\<lparr>env_command_port := Some port1\<rparr>)))"

definition WriteAdapter :: "'w SerialPort \<Rightarrow> u8 list \<Rightarrow> ('w, 'mb) CommandEnv \<Rightarrow> bool \<times> ('w, 'mb) CommandEnv" where
  "WriteAdapter ops data e =
     (case env_command_port e of
        None \<Rightarrow> (False, e)
      | Some port \<Rightarrow>
          (case sp_Write ops data port of (ret, port1) \<Rightarrow> (0 \<le> ret, e\<lparr>env_command_port := Some port1\<rparr>)))"

definition command_config :: "'w SerialPort \<Rightarrow> ('w, 'mb) CommandEnv ProtocolConfig" where
  "command_config ops =
     \<lparr>cfg_read = Some (ReadAdapter ops), cfg_write = Some (WriteAdapter ops), cfg_timestamp = None, cfg_frame_timeout = 0\<rparr>"

definition CommandManager_init :: "'w SerialPort \<Rightarrow> ('w, 'mb, 'd) CommandManager" where
  "CommandManager_init ops =
     \<lparr>cm_env = \<lparr>env_command_port = None, env_sink = \<lparr>sink_mailbox = None\<rparr>\<rparr>, cm_debug_port = None,
      cm_protocol = Protocol_init (command_config ops)\<rparr>"

section \<open>Operations\<close>

definition CommandManager_Configure ::
  "'w SerialPort \<Rightarrow> 'w option \<Rightarrow> 'd option \<Rightarrow> ('w, 'mb, 'd) CommandManager \<Rightarrow> ('w, 'mb, 'd) CommandManager" where
  "CommandManager_Configure ops command_port debug_port cm =
     cm\<lparr>cm_env := (cm_env cm)\<lparr>env_command_port :=
          (case command_port of None \<Rightarrow> None | Some port \<Rightarrow> Some (sp_SetRxEvent ops port))\<rparr>,
        cm_debug_port := debug_port\<rparr>"

definition CommandManager_Run :: "('w, 'mb, 'd) CommandManager \<Rightarrow> ('w, 'mb, 'd) CommandManager option" where
  "CommandManager_Run cm =
     (case Protocol_Run (cm_protocol cm) (cm_env cm) of
        None \<Rightarrow> None
      | Some (p, e) \<Rightarrow> Some (cm\<lparr>cm_protocol := p, cm_env := e\<rparr>))"

definition PrintBanner :: "'d DebugPort \<Rightarrow> string \<Rightarrow> ('w, 'mb, 'd) CommandManager \<Rightarrow> bool \<times> ('w, 'mb, 'd) CommandManager" where
  "PrintBanner dops nm cm =
     (case cm_debug_port cm of
        None \<Rightarrow> (False, cm)
      | Some dbg \<Rightarrow>
          (case dp_Printf dops (''DebugPort online on '' @ dp_Name dops dbg @ '', strip on '' @ nm @ [CHR 0x0A]) dbg of
             (ret, dbg1) \<Rightarrow> (0 \<le> ret, cm\<lparr>cm_debug_port := Some dbg1\<rparr>)))"

text \<open>
  The adapter through which the engine logs, for a text that is formatted already: Printf and Vprintf
  are one operation of the port's record. It fails without a port.
\<close>

definition DebugPrintfAdapter :: "'d DebugPort \<Rightarrow> string \<Rightarrow> ('w, 'mb, 'd) CommandManager \<Rightarrow> int \<times> ('w, 'mb, 'd) CommandManager" where
  "DebugPrintfAdapter dops txt cm =
     (case cm_debug_port cm of
        None \<Rightarrow> (- 1, cm)
      | Some dbg \<Rightarrow> (case dp_Printf dops txt dbg of (ret, dbg1) \<Rightarrow> (ret, cm\<lparr>cm_debug_port := Some dbg1\<rparr>)))"

text \<open>The banner is one such line, and printing it succeeds when the adapter does.\<close>

lemma PrintBanner_adapter:
  "PrintBanner dops nm cm =
     (let txt = ''DebugPort online on '' @ (case cm_debug_port cm of None \<Rightarrow> [] | Some dbg \<Rightarrow> dp_Name dops dbg)
                  @ '', strip on '' @ nm @ [CHR 0x0A]
      in case DebugPrintfAdapter dops txt cm of (ret, cm1) \<Rightarrow> (0 \<le> ret, cm1))"
  by (simp add: PrintBanner_def DebugPrintfAdapter_def split: option.split prod.split)

text \<open>The handlers act on the sink; the engine of the manager registers them with this function.\<close>

definition on_env_sink :: "('mb ControllerCommandSink \<Rightarrow> 'mb ControllerCommandSink) \<Rightarrow> ('w, 'mb) CommandEnv \<Rightarrow> ('w, 'mb) CommandEnv" where
  "on_env_sink f e = e\<lparr>env_sink := f (env_sink e)\<rparr>"

section \<open>What the port promises\<close>

text \<open>
  \<open>pending\<close> is what the port has received and not yet handed out. Reading hands out a first part
  of it, not more than asked for and something unless there is nothing; an error code means there
  is nothing. Writing does not consume input.
\<close>

definition serial_laws :: "'w SerialPort \<Rightarrow> ('w \<Rightarrow> u8 list) \<Rightarrow> bool" where
  "serial_laws ops pending \<longleftrightarrow>
     (\<forall>n w buffer ret w'. 0 < n \<longrightarrow> sp_Read ops n w = (buffer, ret, w') \<longrightarrow>
        length buffer \<le> n \<and> pending w = buffer @ pending w' \<and> (buffer = [] \<longrightarrow> pending w = []) \<and>
        (if ret < 0 then buffer = [] else ret = int (length buffer))) \<and>
     (\<forall>data w. pending (snd (sp_Write ops data w)) = pending w) \<and>
     (\<forall>w. pending (sp_SetRxEvent ops w) = pending w)"

definition rx_pending :: "('w \<Rightarrow> u8 list) \<Rightarrow> ('w, 'mb) CommandEnv \<Rightarrow> u8 list" where
  "rx_pending pending e = (case env_command_port e of None \<Rightarrow> [] | Some port \<Rightarrow> pending port)"

definition env_rest :: "('w, 'mb) CommandEnv \<Rightarrow> 'mb ControllerCommandSink \<times> bool" where
  "env_rest e = (env_sink e, env_command_port e = None)"

lemma ReadAdapter_law:
  assumes laws: "serial_laws ops pending" and r: "ReadAdapter ops kReadahead e = (bytes, n, e')"
  shows "unat n = length bytes \<and> length bytes \<le> kReadahead \<and> rx_pending pending e = bytes @ rx_pending pending e' \<and>
      (bytes = [] \<longrightarrow> rx_pending pending e = []) \<and> env_rest e' = env_rest e \<and> serial_laws ops pending"
proof (cases "env_command_port e")
  case None
  then show ?thesis using assms by (auto simp: ReadAdapter_def rx_pending_def env_rest_def)
next
  case (Some port)
  obtain buffer ret port1 where s: "sp_Read ops kReadahead port = (buffer, ret, port1)" by (metis prod_cases3)
  have "0 < kReadahead" by (simp add: kReadahead_def)
  with laws s have l: "length buffer \<le> kReadahead" "pending port = buffer @ pending port1" "buffer = [] \<longrightarrow> pending port = []"
      "if ret < 0 then buffer = [] else ret = int (length buffer)"
    unfolding serial_laws_def by blast+
  have "unat (if ret < 0 then 0 else word_of_int ret :: u32) = length buffer"
    using l(1,4) by (auto simp: kReadahead_def unat_of_nat take_bit_nat_eq_self split: if_splits)
  then show ?thesis using r l laws Some s by (auto simp: ReadAdapter_def rx_pending_def env_rest_def)
qed

interpretation command_port: byte_source "\<lambda>e. serial_laws ops pending" "ReadAdapter ops" "rx_pending pending" env_rest
  "command_table on_env_sink send" for ops pending send
proof
  fix e e' :: "('a, 'b) CommandEnv" and bytes n
  assume "serial_laws ops pending" "ReadAdapter ops kReadahead e = (bytes, n, e')"
  then show "unat n = length bytes \<and> length bytes \<le> kReadahead \<and> rx_pending pending e = bytes @ rx_pending pending e' \<and>
      (bytes = [] \<longrightarrow> rx_pending pending e = []) \<and> env_rest e' = env_rest e \<and> serial_laws ops pending"
    by (rule ReadAdapter_law)
qed (auto simp: command_table_def sink_handlers_def on_env_sink_def rx_pending_def env_rest_def)

section \<open>One run of the manager\<close>

text \<open>The manager after registration, with nothing left in the read-ahead buffer.\<close>

definition cm_inv :: "'w SerialPort \<Rightarrow> 'mb sender \<Rightarrow> ('w, 'mb, 'd) CommandManager \<Rightarrow> bool" where
  "cm_inv ops send cm \<longleftrightarrow> protocol_inv (cm_protocol cm) \<and> p_config (cm_protocol cm) = command_config ops \<and>
     p_handlers (cm_protocol cm) = command_table on_env_sink send \<and>
     p_readahead_cnt (cm_protocol cm) \<le> p_readahead_idx (cm_protocol cm)"

lemma cm_inv_registered:
  "cm_protocol cm = (Protocol_init (command_config ops))\<lparr>p_handlers := command_table on_env_sink send\<rparr> \<Longrightarrow> cm_inv ops send cm"
  using registered_inv [of on_env_sink send "command_config ops"] by (simp add: cm_inv_def) (simp add: Protocol_init_def)

text \<open>What a received frame means for the sink.\<close>

definition queue_frame :: "'mb sender \<Rightarrow> Tag \<times> u8 list \<Rightarrow> 'mb ControllerCommandSink \<Rightarrow> 'mb ControllerCommandSink" where
  "queue_frame send fr sink =
     (if accepts (fst fr) (length (snd fr)) then QueueCommand send (decode (fst fr) (snd fr)) sink else sink)"

lemma queue_frame_encode: "known m \<Longrightarrow> queue_frame send (encode m) = QueueCommand send m"
  using encode_accepts [of m] decode_encode [of m "[]"] by (intro ext) (simp add: queue_frame_def)

lemma deliver_queue:
  assumes "length data \<le> kMaxFrameDataLength"
  shows "env_rest (snd (deliver (command_table on_env_sink send) (tag, data) (tx, e)))
    = (queue_frame send (tag, data) (env_sink e), env_command_port e = None)"
proof (cases "tag \<in> set command_tags")
  case True
  then show ?thesis
    using handle_accepts [of tag data send "env_sink e"] handle_rejects [of tag data send "env_sink e"] assms
    by (simp add: deliver_command queue_frame_def on_env_sink_def env_rest_def)
next
  case False
  then have "\<not> accepts tag (length data)" using accepts_command by blast
  moreover have "snd (deliver (command_table on_env_sink send) (tag, data) (tx, e)) = e"
    by (cases "tag = Tag_kLoopback") (simp add: deliver_def command_table_def, simp add: deliver_other [OF False])
  ultimately show ?thesis by (simp add: queue_frame_def env_rest_def)
qed

lemma deliver_all_queue:
  "\<forall>(tag, data)\<in>set frs. length data \<le> kMaxFrameDataLength \<Longrightarrow>
   env_rest (snd (fold (deliver (command_table on_env_sink send)) frs (tx, e)))
     = (fold (queue_frame send) frs (env_sink e), env_command_port e = None)"
proof (induction frs arbitrary: tx e)
  case (Cons fr frs)
  obtain tx1 e1 where d: "deliver (command_table on_env_sink send) fr (tx, e) = (tx1, e1)" by (metis prod.exhaust)
  then have "env_sink e1 = queue_frame send fr (env_sink e)" "(env_command_port e1 = None) = (env_command_port e = None)"
    using deliver_queue [of "snd fr" send "fst fr" tx e] Cons.prems by (auto simp: env_rest_def)
  then show ?case using Cons.IH [of tx1 e1] Cons.prems by (simp add: d)
qed (simp add: env_rest_def)

lemma write_all_env:
  "(\<And>c e. f (snd (wr c e)) = f e) \<Longrightarrow> f (snd (write_all wr cs e)) = f e"
proof (induction cs arbitrary: e)
  case (Cons c cs)
  then show ?case using Cons.prems [of c e] by (cases "wr c e") auto
qed simp

lemma TxPhase_env:
  assumes "protocol_inv p" "cfg_write (p_config p) = Some wr" "\<And>c e. f (snd (wr c e)) = f e"
  shows "f (snd (TxPhase p e)) = f e"
proof (cases "tx_frame p")
  case None
  then show ?thesis by (simp add: TxPhase_def tx_frame_def split: if_splits)
next
  case (Some fr)
  obtain tag data where fr: "fr = (tag, data)" by (cases fr)
  have "tx_ok p" using assms(1) by (simp add: protocol_inv_def)
  from TxPhase_tx [OF this Some [unfolded fr] assms(2)] show ?thesis
    using write_all_env [of f wr, OF assms(3)] by (simp add: case_prod_unfold)
qed

lemma WriteAdapter_env:
  "env_rest (snd (WriteAdapter ops data e)) = env_rest e"
  "serial_laws ops pending \<Longrightarrow> rx_pending pending (snd (WriteAdapter ops data e)) = rx_pending pending e"
  by (auto simp: WriteAdapter_def env_rest_def rx_pending_def serial_laws_def case_prod_unfold split: option.splits)

lemma cm_inv_TxPhase:
  assumes "cm_inv ops send cm" "TxPhase (cm_protocol cm) (cm_env cm) = (p, e)"
  shows "cm_inv ops send (cm\<lparr>cm_protocol := p, cm_env := e\<rparr>) \<and> abs_parser p = abs_parser (cm_protocol cm)
    \<and> env_rest e = env_rest (cm_env cm) \<and> (serial_laws ops pending \<longrightarrow> rx_pending pending e = rx_pending pending (cm_env cm))"
proof -
  have i: "protocol_inv (cm_protocol cm)" "cfg_write (p_config (cm_protocol cm)) = Some (WriteAdapter ops)"
    using assms(1) by (simp_all add: cm_inv_def command_config_def)
  have "env_rest e = env_rest (cm_env cm)"
    using TxPhase_env [OF i, of env_rest "cm_env cm"] assms(2) by (simp add: WriteAdapter_env)
  moreover have "rx_pending pending e = rx_pending pending (cm_env cm)" if "serial_laws ops pending"
    using TxPhase_env [OF i, of "rx_pending pending" "cm_env cm"] assms(2) that by (simp add: WriteAdapter_env)
  ultimately show ?thesis
    using TxPhase_frame [OF i(1) assms(2)] assms(1) by (simp add: cm_inv_def rx_frame_def)
qed

lemma CommandManager_Run_ok:
  assumes laws: "serial_laws ops pending" and inv: "cm_inv ops send cm"
  shows "\<exists>cm'. CommandManager_Run cm = Some cm' \<and> cm_inv ops send cm' \<and> rx_pending pending (cm_env cm') = []
    \<and> cm_debug_port cm' = cm_debug_port cm \<and> (env_command_port (cm_env cm') = None) = (env_command_port (cm_env cm) = None)
    \<and> abs_parser (cm_protocol cm') = fst (parse_all (rx_pending pending (cm_env cm)) (abs_parser (cm_protocol cm)))
    \<and> env_sink (cm_env cm') = fold (queue_frame send)
        (snd (parse_all (rx_pending pending (cm_env cm)) (abs_parser (cm_protocol cm)))) (env_sink (cm_env cm))"
proof -
  obtain p1 e1 where t1: "TxPhase (cm_protocol cm) (cm_env cm) = (p1, e1)" by (metis prod.exhaust)
  let ?frs = "snd (parse_all (rx_pending pending (cm_env cm)) (abs_parser (cm_protocol cm)))"
  note f1 = cm_inv_TxPhase [OF inv t1, of pending]
  then have i1: "protocol_inv p1" "p_config p1 = command_config ops" "p_handlers p1 = command_table on_env_sink send"
      "p_readahead_cnt p1 \<le> p_readahead_idx p1"
    by (simp_all add: cm_inv_def)
  have un: "unread (rx_pending pending) p1 e1 = rx_pending pending (cm_env cm)"
    using i1(4) f1 laws by (simp add: unread_def)
  have to: "check_timeout p1 e1 = p1" using i1(2) by (simp add: check_timeout_def command_config_def)
  obtain p2 e2 where rx: "rx_loop p1 e1 = Some (p2, e2)" "protocol_inv p2" "p_config p2 = command_config ops"
      "p_handlers p2 = command_table on_env_sink send" "unread (rx_pending pending) p2 e2 = []"
      "abs_parser p2 = fst (parse_all (rx_pending pending (cm_env cm)) (abs_parser (cm_protocol cm)))"
      "env_rest e2 = env_rest (snd (fold (deliver (command_table on_env_sink send)) ?frs (tx_frame p1, e1)))"
    using command_port.rx_loop_delivers [OF i1(1) laws, of send e1] i1 un f1
    by (auto simp: command_config_def case_prod_unfold)
  have lens: "\<forall>(tag, data)\<in>set ?frs. length data \<le> kMaxFrameDataLength"
    using parse_all_ok [OF abs_parser_ok, of "cm_protocol cm"] inv by (simp add: cm_inv_def protocol_inv_def)
  have cnt: "p_readahead_cnt p2 \<le> p_readahead_idx p2"
    using rx(2,5) by (simp add: unread_def protocol_inv_def readahead_ok_def)
  obtain p3 e3 where t2: "TxPhase p2 e2 = (p3, e3)" by (metis prod.exhaust)
  let ?cm2 = "cm\<lparr>cm_protocol := p2, cm_env := e2\<rparr>"
  have "cm_inv ops send ?cm2" using rx cnt by (simp add: cm_inv_def)
  from cm_inv_TxPhase [OF this, of p3 e3 pending] t2 rx
  have "cm_inv ops send (cm\<lparr>cm_protocol := p3, cm_env := e3\<rparr>)" "abs_parser p3 = abs_parser p2" "env_rest e3 = env_rest e2"
      "rx_pending pending e3 = []"
    using laws by (auto simp: unread_def)
  moreover have "CommandManager_Run cm = Some (cm\<lparr>cm_protocol := p3, cm_env := e3\<rparr>)"
    by (simp add: CommandManager_Run_def Protocol_Run_def t1 to rx(1) t2)
  ultimately show ?thesis
    using rx(6,7) deliver_all_queue [OF lens, of send "tx_frame p1" e1] f1 by (simp add: env_rest_def)
qed

section \<open>A stream of bytes\<close>

text \<open>
  The port receives bytes, and each time some have arrived the manager runs. How the receive
  interrupt stores them is the port's business: \<open>arrive\<close> is an argument.
\<close>

fun serve :: "(u8 list \<Rightarrow> 'w \<Rightarrow> 'w) \<Rightarrow> u8 list list \<Rightarrow> ('w, 'mb, 'd) CommandManager \<Rightarrow> ('w, 'mb, 'd) CommandManager option" where
  "serve arrive [] cm = Some cm"
| "serve arrive (bs # bss) cm =
     (case CommandManager_Run (cm\<lparr>cm_env := (cm_env cm)\<lparr>env_command_port := map_option (arrive bs) (env_command_port (cm_env cm))\<rparr>\<rparr>) of
        None \<Rightarrow> None
      | Some cm1 \<Rightarrow> serve arrive bss cm1)"

definition arrives :: "(u8 list \<Rightarrow> 'w \<Rightarrow> 'w) \<Rightarrow> ('w \<Rightarrow> u8 list) \<Rightarrow> bool" where
  "arrives arrive pending \<longleftrightarrow> (\<forall>bs w. pending (arrive bs w) = pending w @ bs)"

lemma serve_ok:
  assumes "serial_laws ops pending" "arrives arrive pending" "cm_inv ops send cm"
    and "env_command_port (cm_env cm) \<noteq> None" "rx_pending pending (cm_env cm) = []"
  shows "\<exists>cm'. serve arrive bss cm = Some cm' \<and> cm_inv ops send cm' \<and> rx_pending pending (cm_env cm') = []
    \<and> abs_parser (cm_protocol cm') = fst (parse_all (concat bss) (abs_parser (cm_protocol cm)))
    \<and> env_sink (cm_env cm') = fold (queue_frame send) (snd (parse_all (concat bss) (abs_parser (cm_protocol cm)))) (env_sink (cm_env cm))"
  using assms(3-)
proof (induction bss arbitrary: cm)
  case (Cons bs bss)
  let ?cm = "cm\<lparr>cm_env := (cm_env cm)\<lparr>env_command_port := map_option (arrive bs) (env_command_port (cm_env cm))\<rparr>\<rparr>"
  have p: "rx_pending pending (cm_env ?cm) = bs"
    using Cons.prems(2,3) assms(2) by (auto simp: rx_pending_def arrives_def)
  have i: "cm_inv ops send ?cm" using Cons.prems(1) by (simp add: cm_inv_def)
  obtain cm1 where r: "CommandManager_Run ?cm = Some cm1" "cm_inv ops send cm1" "rx_pending pending (cm_env cm1) = []"
      "env_command_port (cm_env cm1) \<noteq> None"
      "abs_parser (cm_protocol cm1) = fst (parse_all bs (abs_parser (cm_protocol cm)))"
      "env_sink (cm_env cm1) = fold (queue_frame send) (snd (parse_all bs (abs_parser (cm_protocol cm)))) (env_sink (cm_env cm))"
    using CommandManager_Run_ok [OF assms(1) i] Cons.prems(2) p by auto
  from Cons.IH [OF r(2,4,3)] show ?case
    using r by (auto simp: parse_all_append case_prod_unfold)
qed simp

lemma serve_commands:
  assumes "serial_laws ops pending" "arrives arrive pending" "cm_inv ops send cm"
    and "env_command_port (cm_env cm) \<noteq> None" "rx_pending pending (cm_env cm) = []"
    and "p_state (cm_protocol cm) = kWaitingForSync"
    and "\<forall>(junk, m)\<in>set msgs. kSyncByte \<notin> set junk \<and> known m"
    and "concat pieces = concat (map (\<lambda>(junk, m). junk @ wire (encode m)) msgs)"
  shows "\<exists>cm'. serve arrive pieces cm = Some cm' \<and> cm_inv ops send cm'
    \<and> rx_pending pending (cm_env cm') = [] \<and> p_state (cm_protocol cm') = kWaitingForSync
    \<and> env_sink (cm_env cm') = fold (QueueCommand send) (map snd msgs) (env_sink (cm_env cm))"
proof -
  let ?frs = "map (\<lambda>(junk, m). (junk, encode m)) msgs"
  have len: "length (snd (encode m)) \<le> kMaxFrameDataLength" for m
    using encode_length [of m] by (simp add: kMaxFrameDataLength_def)
  have "\<forall>(junk, tag, data)\<in>set ?frs. kSyncByte \<notin> set junk \<and> length data \<le> kMaxFrameDataLength"
    using assms(7) len by (fastforce dest: arg_cong [where f = snd])
  from parse_stream [OF this] have "parse_all (concat pieces) Sync = (Sync, map encode (map snd msgs))"
    by (simp add: assms(8) comp_def case_prod_unfold)
  moreover have "\<forall>m\<in>set (map snd msgs). known m" using assms(7) by auto
  then have "fold (queue_frame send) (map encode (map snd msgs)) s = fold (QueueCommand send) (map snd msgs) s" for s
    by (induction "map snd msgs" arbitrary: msgs s) (auto simp: fold_map queue_frame_encode intro!: fold_cong)
  ultimately show ?thesis
    using serve_ok [OF assms(1-5), of pieces] assms(6) by (auto simp: abs_parser_Sync [symmetric])
qed

section \<open>Properties\<close>

text \<open>
  C11. The command link, from the wire to the mailbox. The host sends any commands, with any bytes
  other than the sync byte between their frames, and the bytes arrive cut into any pieces, the
  manager running after each: every run returns, and in the end exactly these commands have been
  queued, in order, with all their fields, and no byte is left over.
\<close>

theorem command_stream_served:
  assumes "serial_laws ops pending" "arrives arrive pending" "cm_inv ops send cm"
    and "env_command_port (cm_env cm) \<noteq> None" "rx_pending pending (cm_env cm) = []"
    and "p_state (cm_protocol cm) = kWaitingForSync"
    and "\<forall>(junk, m)\<in>set msgs. kSyncByte \<notin> set junk \<and> known m"
    and "concat pieces = concat (map (\<lambda>(junk, m). junk @ wire (encode m)) msgs)"
  shows "\<exists>cm'. serve arrive pieces cm = Some cm' \<and> cm_inv ops send cm'
    \<and> rx_pending pending (cm_env cm') = [] \<and> p_state (cm_protocol cm') = kWaitingForSync
    \<and> env_sink (cm_env cm') = fold (QueueCommand send) (map snd msgs) (env_sink (cm_env cm))"
  using serve_commands [OF assms] .

text \<open>A port that is a queue of bytes, eight of which at most are handed out at once.\<close>

definition demo_port :: "u8 list SerialPort" where
  "demo_port = \<lparr>sp_Read = (\<lambda>n w. let k = min n 8 in (take k w, int (length (take k w)), drop k w)),
     sp_Write = (\<lambda>d w. (int (length d), w)), sp_SetRxEvent = (\<lambda>w. w)\<rparr>"

definition demo_manager :: "(u8 list, ControllerCommandMessage list, unit) CommandManager" where
  "demo_manager = (CommandManager_init demo_port)\<lparr>
     cm_protocol := snd (Register on_env_sink list_send (Protocol_init (command_config demo_port))),
     cm_env := \<lparr>env_command_port = Some [], env_sink = \<lparr>sink_mailbox = Some []\<rparr>\<rparr>\<rparr>"

lemma demo_port_laws: "serial_laws demo_port (\<lambda>w. w)" "arrives (\<lambda>bs w. w @ bs) (\<lambda>w. w)"
  by (auto simp: serial_laws_def demo_port_def arrives_def Let_def)

lemma demo_manager_facts:
  "cm_inv demo_port list_send demo_manager" "env_command_port (cm_env demo_manager) \<noteq> None"
  "rx_pending (\<lambda>w. w) (cm_env demo_manager) = []" "p_state (cm_protocol demo_manager) = kWaitingForSync"
  "env_sink (cm_env demo_manager) = \<lparr>sink_mailbox = Some []\<rparr>"
proof -
  show "cm_inv demo_port list_send demo_manager"
    by (rule cm_inv_registered) (simp add: demo_manager_def Register_result)
  show "p_state (cm_protocol demo_manager) = kWaitingForSync"
    by (simp add: demo_manager_def Register_result) (simp add: Protocol_init_def)
qed (simp_all add: demo_manager_def rx_pending_def)

theorem command_stream_served_witness:
  "\<exists>cm'. serve (\<lambda>bs w. w @ bs) [[7, 0xAA], [2, 1, 0], [0, 3]] demo_manager = Some cm'
    \<and> sink_mailbox (env_sink (cm_env cm')) = Some [CmdResetInstructions]"
proof -
  have "concat [[7, 0xAA], [2, 1, 0], [0, 3]] =
      concat (map (\<lambda>(junk, m). junk @ wire (encode m)) [([7], CmdResetInstructions)])"
    by code_simp
  from command_stream_served [OF demo_port_laws demo_manager_facts(1-4) _ this] show ?thesis
    by (auto simp: demo_manager_facts(5) QueueCommand_def list_send_def kSyncByte_def)
qed

end
