(* ===== verification/Dispatch.thy ===== *)
theory Dispatch
  imports Commands ControllerProps
begin

text \<open>
  The APP side of a command: src/app/src/controller_command_dispatch.cpp builds the instruction a
  message stands for, adds it to the controller, or starts the program and runs its first tick.

  The controller reads the clock in Start and again in Run: the two readings are arguments. The
  delay for which Run called the schedule callback is a result.
\<close>

section \<open>Dispatching one command\<close>

record ControllerCommandResult =
  mutation_attempted :: bool
  mutation_status :: ControllerStatus
  start_attempted :: bool
  start_status :: ControllerStatus
  initial_run_attempted :: bool
  initial_run_status :: ControllerStatus

definition ControllerCommandResult_init :: ControllerCommandResult where
  "ControllerCommandResult_init =
     \<lparr>mutation_attempted = False, mutation_status = kSuccess, start_attempted = False, start_status = kSuccess,
      initial_run_attempted = False, initial_run_status = kSuccess\<rparr>"

definition StartAndTick ::
  "('mb \<Rightarrow> SharedFrame \<Rightarrow> status \<times> 'mb) \<Rightarrow> u32 \<Rightarrow> u32 \<Rightarrow> LoopCount \<Rightarrow> ControllerCommandResult \<Rightarrow> 'mb Controller
     \<Rightarrow> (ControllerCommandResult \<times> u32 option \<times> 'mb Controller) option" where
  "StartAndTick send t0 t1 repeats result c =
     (case Start t0 repeats c of (st, c1) \<Rightarrow>
        let result1 = result\<lparr>start_attempted := True, start_status := st\<rparr>
        in if st \<noteq> kSuccess then Some (result1, None, c1)
           else case Run send t1 c1 of
                  None \<Rightarrow> None
                | Some (run_st, sched, shown, c2) \<Rightarrow>
                    Some (result1\<lparr>initial_run_attempted := True, initial_run_status := run_st\<rparr>, sched, c2))"

text \<open>The common tail of the instruction cases: the status of AddInstruction is the result.\<close>

definition mutate :: "ControllerInstruction \<Rightarrow> ControllerCommandResult \<Rightarrow> 'mb Controller
     \<Rightarrow> (ControllerCommandResult \<times> u32 option \<times> 'mb Controller) option" where
  "mutate instruction result c =
     (case AddInstruction (Some instruction) c of (st, c1) \<Rightarrow>
        Some (result\<lparr>mutation_attempted := True, mutation_status := st\<rparr>, None, c1))"

definition DispatchControllerCommand ::
  "('mb \<Rightarrow> SharedFrame \<Rightarrow> status \<times> 'mb) \<Rightarrow> u32 \<Rightarrow> u32 \<Rightarrow> ControllerCommandMessage \<Rightarrow> 'mb Controller
     \<Rightarrow> (ControllerCommandResult \<times> u32 option \<times> 'mb Controller) option" where
  "DispatchControllerCommand send t0 t1 message c =
     (let result = ControllerCommandResult_init
      in case message of
        CmdSetMultipleColor p \<Rightarrow> mutate (mk_SetMultipleColor p) result c
      | CmdSetSingleColor p \<Rightarrow> mutate (mk_SetSingleColor p) result c
      | CmdSetMultipleColorHsv p \<Rightarrow> mutate (mk_SetMultipleColorHsv p) result c
      | CmdSetSingleColorHsv p \<Rightarrow> mutate (mk_SetSingleColorHsv p) result c
      | CmdSetMultipleColorGrouped grouped \<Rightarrow>
          let payload = \<lparr>smc_mark = gmc_mark grouped, smc_r = gmc_r grouped, smc_g = gmc_g grouped,
                         smc_b = gmc_b grouped, smc_range = gmc_range grouped\<rparr>;
              instruction = mk_SetMultipleColor payload
          in mutate (instruction\<lparr>i_group_id := gmc_group_id grouped\<rparr>) result c
      | CmdSetSingleColorGrouped grouped \<Rightarrow>
          let payload = \<lparr>ssc_mark = gsc_mark grouped, ssc_r = gsc_r grouped, ssc_g = gsc_g grouped,
                         ssc_b = gsc_b grouped, ssc_index = gsc_index grouped\<rparr>;
              instruction = mk_SetSingleColor payload
          in mutate (instruction\<lparr>i_group_id := gsc_group_id grouped\<rparr>) result c
      | CmdSetMultipleColorHsvGrouped grouped \<Rightarrow>
          let payload = \<lparr>smh_mark = gmh_mark grouped, smh_h = gmh_h grouped, smh_s = gmh_s grouped,
                         smh_v = gmh_v grouped, smh_range = gmh_range grouped\<rparr>;
              instruction = mk_SetMultipleColorHsv payload
          in mutate (instruction\<lparr>i_group_id := gmh_group_id grouped\<rparr>) result c
      | CmdSetSingleColorHsvGrouped grouped \<Rightarrow>
          let payload = \<lparr>ssh_mark = gsh_mark grouped, ssh_h = gsh_h grouped, ssh_s = gsh_s grouped,
                         ssh_v = gsh_v grouped, ssh_index = gsh_index grouped\<rparr>;
              instruction = mk_SetSingleColorHsv payload
          in mutate (instruction\<lparr>i_group_id := gsh_group_id grouped\<rparr>) result c
      | CmdRunGroup p \<Rightarrow>
          mutate (mk_RunGroup \<lparr>rg_group_id = rgc_parent_group_id p, rg_mark = rgc_mark p,
            rg_target_id = rgc_target_group_id p, rg_additional_repeats = rgc_additional_repeats p\<rparr>) result c
      | CmdResetInstructions \<Rightarrow> Some (result, None, ResetInstructions c)
      | CmdRun \<Rightarrow> StartAndTick send t0 t1 0 result c
      | CmdStart p \<Rightarrow> StartAndTick send t0 t1 (sc_root_additional_repeats p) result c
      | CmdFade p \<Rightarrow> mutate (mk_Fade p) result c
      | CmdGradient p \<Rightarrow> mutate (mk_Gradient p) result c
      | CmdUnknown cmd \<Rightarrow> Some (result\<lparr>mutation_attempted := True, mutation_status := kInvalidArgument\<rparr>, None, c))"

definition RunControllerProgress ::
  "('mb \<Rightarrow> SharedFrame \<Rightarrow> status \<times> 'mb) \<Rightarrow> u32 \<Rightarrow> 'mb Controller \<Rightarrow> (ControllerStatus \<times> u32 option \<times> bool \<times> 'mb Controller) option" where
  "RunControllerProgress send now c = Run send now c"

section \<open>What a command means\<close>

text \<open>The instruction a command stands for: its payload's fields, with the group the command names.\<close>

fun command_instruction :: "ControllerCommandMessage \<Rightarrow> ControllerInstruction option" where
  "command_instruction (CmdSetMultipleColor p) =
     Some (instr (smc_mark p) 0 (SetMultipleColor (rgb (smc_r p) (smc_g p) (smc_b p)) (smc_range p)))"
| "command_instruction (CmdSetSingleColor p) =
     Some (instr (ssc_mark p) 0 (SetSingleColor (rgb (ssc_r p) (ssc_g p) (ssc_b p)) (ssc_index p)))"
| "command_instruction (CmdSetMultipleColorHsv p) =
     Some (instr (smh_mark p) 0 (SetMultipleColorHsv (hsv (smh_h p) (smh_s p) (smh_v p)) (smh_range p)))"
| "command_instruction (CmdSetSingleColorHsv p) =
     Some (instr (ssh_mark p) 0 (SetSingleColorHsv (hsv (ssh_h p) (ssh_s p) (ssh_v p)) (ssh_index p)))"
| "command_instruction (CmdSetMultipleColorGrouped p) =
     Some (instr (gmc_mark p) (gmc_group_id p) (SetMultipleColor (rgb (gmc_r p) (gmc_g p) (gmc_b p)) (gmc_range p)))"
| "command_instruction (CmdSetSingleColorGrouped p) =
     Some (instr (gsc_mark p) (gsc_group_id p) (SetSingleColor (rgb (gsc_r p) (gsc_g p) (gsc_b p)) (gsc_index p)))"
| "command_instruction (CmdSetMultipleColorHsvGrouped p) =
     Some (instr (gmh_mark p) (gmh_group_id p) (SetMultipleColorHsv (hsv (gmh_h p) (gmh_s p) (gmh_v p)) (gmh_range p)))"
| "command_instruction (CmdSetSingleColorHsvGrouped p) =
     Some (instr (gsh_mark p) (gsh_group_id p) (SetSingleColorHsv (hsv (gsh_h p) (gsh_s p) (gsh_v p)) (gsh_index p)))"
| "command_instruction (CmdRunGroup p) =
     Some (instr (rgc_mark p) (rgc_parent_group_id p) (RunGroup (rgc_target_group_id p) (rgc_additional_repeats p)))"
| "command_instruction (CmdFade p) = Some (mk_Fade p)"
| "command_instruction (CmdGradient p) = Some (mk_Gradient p)"
| "command_instruction CmdResetInstructions = None"
| "command_instruction CmdRun = None"
| "command_instruction (CmdStart p) = None"
| "command_instruction (CmdUnknown c) = None"

fun command_start :: "ControllerCommandMessage \<Rightarrow> LoopCount option" where
  "command_start CmdRun = Some 0"
| "command_start (CmdStart p) = Some (sc_root_additional_repeats p)"
| "command_start _ = None"

lemma dispatch_instruction:
  "command_instruction m = Some i \<Longrightarrow>
   DispatchControllerCommand send t0 t1 m c = (case AddInstruction (Some i) c of (st, c1) \<Rightarrow>
     Some (ControllerCommandResult_init\<lparr>mutation_attempted := True, mutation_status := st\<rparr>, None, c1))"
  by (cases m) (auto simp: DispatchControllerCommand_def mutate_def mk_SetMultipleColor_def mk_SetSingleColor_def
      mk_SetMultipleColorHsv_def mk_SetSingleColorHsv_def mk_RunGroup_def instr_def Let_def)

lemma dispatch_start:
  "command_start m = Some r \<Longrightarrow>
   DispatchControllerCommand send t0 t1 m c = StartAndTick send t0 t1 r ControllerCommandResult_init c"
  by (cases m) (auto simp: DispatchControllerCommand_def Let_def)

lemma dispatch_reset:
  "DispatchControllerCommand send t0 t1 CmdResetInstructions c = Some (ControllerCommandResult_init, None, ResetInstructions c)"
  by (simp add: DispatchControllerCommand_def)

lemma command_cases:
  obtains i where "command_instruction m = Some i" "command_start m = None"
  | r where "command_start m = Some r" "command_instruction m = None"
  | "m = CmdResetInstructions" | k where "m = CmdUnknown k"
  by (cases m) auto

section \<open>Dispatching returns\<close>

lemma StartAndTick_ok:
  assumes "reachable send c"
  shows "\<exists>result sched c'. StartAndTick send t0 t1 r result0 c = Some (result, sched, c') \<and> reachable send c'
    \<and> initial_run_status result \<in> {initial_run_status result0, kSuccess, kInvalidProgram, kAlreadyActiveGroup}"
proof -
  obtain st c1 where s: "Start t0 r c = (st, c1)" by (metis prod.exhaust)
  then have r1: "reachable send c1" using reachable.step [OF assms ctl_step.start, of t0 r] by simp
  obtain rst sched shown c2 where "Run send t1 c1 = Some (rst, sched, shown, c2)" "tick_status rst"
    using Run_ok [OF reachable_inv [OF r1], of send t1] by blast
  then show ?thesis using s r1 reachable.step [OF r1 ctl_step.run] by (auto simp: StartAndTick_def Let_def tick_status_def)
qed

lemma dispatch_ok:
  assumes "reachable send c"
  shows "\<exists>result sched c'. DispatchControllerCommand send t0 t1 m c = Some (result, sched, c') \<and> reachable send c'
    \<and> initial_run_status result \<in> {kSuccess, kInvalidProgram, kAlreadyActiveGroup}"
proof (cases m rule: command_cases)
  case (1 i)
  then show ?thesis using reachable.step [OF assms ctl_step.add, of "Some i"]
    by (simp add: dispatch_instruction case_prod_unfold ControllerCommandResult_init_def)
next
  case (2 r)
  then show ?thesis using StartAndTick_ok [OF assms, of t0 t1 r ControllerCommandResult_init]
    by (simp add: dispatch_start ControllerCommandResult_init_def)
next
  case 3
  then show ?thesis using reachable.step [OF assms ctl_step.reset] by (simp add: dispatch_reset ControllerCommandResult_init_def)
qed (use assms in \<open>simp add: DispatchControllerCommand_def ControllerCommandResult_init_def\<close>)

end
