(* ===== verification/HwTask.thy ===== *)
theory HwTask
  imports CommandManager Strip
begin

text \<open>
  The app_hw task: status_led.cpp, hw_task.cpp, app_hw.cpp and the Initialize function of
  prism_hw_backend.cpp, all under src/app/src/.

  What the board support and the OS layer provide is the record \<open>Board\<close>: the operations of the
  strip, the LED, the ports and the task handle, the readiness of each device, and the numbers
  behind oshal::UserEvent. The result of waiting for events is an argument of the loop. The strip
  manager the task owns is shared with the APP task, so it is passed beside the task's record. An
  address is a number, a null pointer None. Diagnostics on the debug port are not modelled, apart
  from the banner, whose result decides the setup.
\<close>

section \<open>The status LED\<close>

record StatusLed =
  sl_led :: bool
  sl_blink_half_period_ticks :: u32
  sl_blink_tick :: u32

definition StatusLed_init :: StatusLed where
  "StatusLed_init = \<lparr>sl_led = False, sl_blink_half_period_ticks = 0, sl_blink_tick = 0\<rparr>"

definition kBlinkHalfPeriodMs :: u32 where "kBlinkHalfPeriodMs = 1000"

definition StatusLed_Configure :: "bool \<Rightarrow> u32 \<Rightarrow> StatusLed \<Rightarrow> StatusLed" where
  "StatusLed_Configure led idle_sleep_ms s =
     s\<lparr>sl_led := led, sl_blink_half_period_ticks := kBlinkHalfPeriodMs div idle_sleep_ms, sl_blink_tick := 0\<rparr>"

definition Blink :: "('l \<Rightarrow> int \<times> 'l) \<Rightarrow> 'l \<Rightarrow> StatusLed \<Rightarrow> bool \<times> 'l \<times> StatusLed" where
  "Blink toggle led s =
     (if \<not> sl_led s then (False, led, s)
      else
        let s1 = s\<lparr>sl_blink_tick := sl_blink_tick s + 1\<rparr>
        in if sl_blink_tick s1 < sl_blink_half_period_ticks s1 then (True, led, s1)
           else case toggle led of (ret, led1) \<Rightarrow> (0 \<le> ret, led1, s1\<lparr>sl_blink_tick := 0\<rparr>))"

section \<open>The task\<close>

definition kTaskIdleSleepMs :: u32 where "kTaskIdleSleepMs = 10"

definition kTaskPriority :: int where "kTaskPriority = 0"

record TaskConfig =
  tc_name :: string
  tc_stack_buffer :: "nat option"
  tc_stack_size_bytes :: nat
  tc_priority :: int
  tc_print_start :: bool
  tc_print_exit :: bool
  tc_print_runtime :: bool

record ('w, 'd, 'b, 'l, 't) Board =
  bd_port :: "'w SerialPort"
  bd_debug :: "'d DebugPort"
  bd_ws :: "'b Ws2812Ops"
  bd_toggle :: "'l \<Rightarrow> int \<times> 'l"
  bd_strip_name :: string
  bd_command_port :: "'w option"
  bd_debug_port :: 'd
  bd_user_event :: "nat \<Rightarrow> u32"
  bd_strip_ready :: "'b \<Rightarrow> bool"
  bd_led_ready :: "'l \<Rightarrow> bool"
  bd_debug_ready :: bool
  bd_port_ready :: "'w \<Rightarrow> bool"
  bd_current_task_valid :: bool
  bd_task_valid :: "'t \<Rightarrow> bool"
  bd_task_running :: "'t \<Rightarrow> bool"
  bd_task_create :: "TaskConfig \<Rightarrow> 't \<Rightarrow> status \<times> 't"

record ('w, 'cmb, 'd, 'b, 'l, 't) HwTask =
  hw_command_manager :: "('w, 'cmb, 'd) CommandManager"
  hw_status_led :: StatusLed
  hw_board_strip :: 'b
  hw_board_led :: 'l
  hw_task :: 't

definition kFrameEventMask :: "('w, 'd, 'b, 'l, 't) Board \<Rightarrow> u32" where
  "kFrameEventMask board = bd_user_event board 0"

definition kCommandRxEventMask :: "('w, 'd, 'b, 'l, 't) Board \<Rightarrow> u32" where
  "kCommandRxEventMask board = bd_user_event board 1"

definition HwTask_Start ::
  "('w, 'd, 'b, 'l, 't) Board \<Rightarrow> string \<Rightarrow> nat option \<Rightarrow> nat \<Rightarrow> int \<Rightarrow> ('w, 'cmb, 'd, 'b, 'l, 't) HwTask
     \<Rightarrow> status \<times> ('w, 'cmb, 'd, 'b, 'l, 't) HwTask" where
  "HwTask_Start board nm stack_buffer stack_size_bytes priority hw =
     (if bd_task_valid board (hw_task hw)
      then (if bd_task_running board (hw_task hw) then STATUS_OK else STATUS_ERR_NOT_READY, hw)
      else
        let config = \<lparr>tc_name = nm, tc_stack_buffer = stack_buffer, tc_stack_size_bytes = stack_size_bytes,
                      tc_priority = priority, tc_print_start = True, tc_print_exit = True, tc_print_runtime = True\<rparr>
        in case bd_task_create board config (hw_task hw) of (st, task) \<Rightarrow> (st, hw\<lparr>hw_task := task\<rparr>))"

definition HwTask_Setup ::
  "('w, 'd, 'b, 'l, 't) Board \<Rightarrow> 'cmb sender \<Rightarrow> 'mb StripManager \<Rightarrow> ('w, 'cmb, 'd, 'b, 'l, 't) HwTask
     \<Rightarrow> bool \<times> 'mb StripManager \<times> ('w, 'cmb, 'd, 'b, 'l, 't) HwTask" where
  "HwTask_Setup board send strip hw =
     (let strip1 = Configure (ws_LedCount (bd_ws board) (hw_board_strip hw)) (bd_strip_name board) strip;
          cm1 = CommandManager_Configure (bd_port board) (bd_command_port board) (Some (bd_debug_port board)) (hw_command_manager hw);
          hw1 = hw\<lparr>hw_command_manager := cm1, hw_status_led := StatusLed_Configure True kTaskIdleSleepMs (hw_status_led hw)\<rparr>
      in case Register on_env_sink send (cm_protocol cm1) of (registered, p) \<Rightarrow>
           let cm2 = cm1\<lparr>cm_protocol := p\<rparr>
           in if \<not> registered then (False, strip1, hw1\<lparr>hw_command_manager := cm2\<rparr>)
              else case PrintBanner (bd_debug board) (bd_strip_name board) cm2 of (ok, cm3) \<Rightarrow>
                     (ok, strip1, hw1\<lparr>hw_command_manager := cm3\<rparr>))"

text \<open>None stands for a loop inside that never ends.\<close>

definition HwTask_Loop ::
  "('w, 'd, 'b, 'l, 't) Board \<Rightarrow> ('mb \<Rightarrow> (SharedFrame \<times> 'mb) option) \<Rightarrow> u32 \<Rightarrow> 'mb StripManager
     \<Rightarrow> ('w, 'cmb, 'd, 'b, 'l, 't) HwTask \<Rightarrow> (bool \<times> 'mb StripManager \<times> ('w, 'cmb, 'd, 'b, 'l, 't) HwTask) option" where
  "HwTask_Loop board receive events strip hw =
     (case (if events AND kCommandRxEventMask board \<noteq> 0 then CommandManager_Run (hw_command_manager hw)
            else Some (hw_command_manager hw)) of
        None \<Rightarrow> None
      | Some cm \<Rightarrow>
          let hw1 = hw\<lparr>hw_command_manager := cm\<rparr>
          in case (if events AND kFrameEventMask board \<noteq> 0
                   then TryApplyLatest receive (bd_ws board) (strip_mailbox strip) (hw_board_strip hw1)
                   else Some (True, strip_mailbox strip, hw_board_strip hw1)) of
               None \<Rightarrow> None
             | Some (ok, mb, b) \<Rightarrow>
                 let strip1 = strip\<lparr>strip_mailbox := mb\<rparr>; hw2 = hw1\<lparr>hw_board_strip := b\<rparr>
                 in if \<not> ok then Some (False, strip1, hw2)
                    else case Blink (bd_toggle board) (hw_board_led hw2) (hw_status_led hw2) of (blinked, led, sl) \<Rightarrow>
                           Some (blinked, strip1, hw2\<lparr>hw_board_led := led, hw_status_led := sl\<rparr>))"

text \<open>
  What the OS layer calls: the task's functions on the context it was given, which is the task; a
  null context ends it. The task is asked whether it runs, has ended, and with which code through
  its handle.
\<close>

definition HwTask_SetupTrampoline ::
  "('w, 'd, 'b, 'l, 't) Board \<Rightarrow> 'cmb sender \<Rightarrow> 'mb StripManager \<Rightarrow> ('w, 'cmb, 'd, 'b, 'l, 't) HwTask option
     \<Rightarrow> bool \<times> 'mb StripManager \<times> ('w, 'cmb, 'd, 'b, 'l, 't) HwTask option" where
  "HwTask_SetupTrampoline board send strip context =
     (case context of
        None \<Rightarrow> (False, strip, None)
      | Some self \<Rightarrow> (case HwTask_Setup board send strip self of (ok, strip1, self1) \<Rightarrow> (ok, strip1, Some self1)))"

definition HwTask_LoopTrampoline ::
  "('w, 'd, 'b, 'l, 't) Board \<Rightarrow> ('mb \<Rightarrow> (SharedFrame \<times> 'mb) option) \<Rightarrow> u32 \<Rightarrow> 'mb StripManager
     \<Rightarrow> ('w, 'cmb, 'd, 'b, 'l, 't) HwTask option
     \<Rightarrow> (bool \<times> 'mb StripManager \<times> ('w, 'cmb, 'd, 'b, 'l, 't) HwTask option) option" where
  "HwTask_LoopTrampoline board receive events strip context =
     (case context of
        None \<Rightarrow> Some (False, strip, None)
      | Some self \<Rightarrow> map_option (\<lambda>(ok, strip1, self1). (ok, strip1, Some self1)) (HwTask_Loop board receive events strip self))"

definition HwTask_IsRunning :: "('w, 'd, 'b, 'l, 't) Board \<Rightarrow> ('w, 'cmb, 'd, 'b, 'l, 't) HwTask \<Rightarrow> bool" where
  "HwTask_IsRunning board hw \<longleftrightarrow> bd_task_running board (hw_task hw)"

definition HwTask_HasExited :: "('t \<Rightarrow> bool) \<Rightarrow> ('w, 'cmb, 'd, 'b, 'l, 't) HwTask \<Rightarrow> bool" where
  "HwTask_HasExited has_exited hw \<longleftrightarrow> has_exited (hw_task hw)"

definition HwTask_ExitCode :: "('t \<Rightarrow> status \<times> int) \<Rightarrow> ('w, 'cmb, 'd, 'b, 'l, 't) HwTask \<Rightarrow> status \<times> int" where
  "HwTask_ExitCode exit_code hw = exit_code (hw_task hw)"

text \<open>Starting the task again while it runs does nothing, and a task that ended is not started again.\<close>

lemma HwTask_Start_again:
  assumes "bd_task_valid board (hw_task hw)"
  shows "HwTask_Start board nm stack n priority hw = (if HwTask_IsRunning board hw then STATUS_OK else STATUS_ERR_NOT_READY, hw)"
  using assms by (simp add: HwTask_Start_def HwTask_IsRunning_def)

section \<open>Starting it\<close>

definition StartHwExecutor ::
  "('w, 'd, 'b, 'l, 't) Board \<Rightarrow> nat option \<Rightarrow> nat \<Rightarrow> ('w, 'cmb, 'd, 'b, 'l, 't) HwTask
     \<Rightarrow> status \<times> ('w, 'cmb, 'd, 'b, 'l, 't) HwTask" where
  "StartHwExecutor board stack_buffer stack_size_bytes hw =
     (if bd_task_running board (hw_task hw) then (STATUS_OK, hw)
      else HwTask_Start board ''app_hw'' stack_buffer stack_size_bytes kTaskPriority hw)"

definition Initialize ::
  "('w, 'd, 'b, 'l, 't) Board \<Rightarrow> nat option \<Rightarrow> nat \<Rightarrow> bool \<Rightarrow> ('w, 'cmb, 'd, 'b, 'l, 't) HwTask
     \<Rightarrow> status \<times> bool \<times> ('w, 'cmb, 'd, 'b, 'l, 't) HwTask" where
  "Initialize board stack_buffer stack_size_bytes initialized hw =
     (if stack_buffer = None \<or> stack_size_bytes = 0 then (STATUS_ERR_INVALID_ARGUMENT, initialized, hw)
      else if initialized then (STATUS_OK, initialized, hw)
      else if \<not> bd_current_task_valid board then (STATUS_ERR_NOT_READY, initialized, hw)
      else if \<not> bd_strip_ready board (hw_board_strip hw) then (STATUS_ERR_DEVICE_UNAVAILABLE, initialized, hw)
      else if \<not> bd_led_ready board (hw_board_led hw) then (STATUS_ERR_DEVICE_UNAVAILABLE, initialized, hw)
      else if \<not> bd_debug_ready board then (STATUS_ERR_DEVICE_UNAVAILABLE, initialized, hw)
      else if (case bd_command_port board of None \<Rightarrow> False | Some port \<Rightarrow> \<not> bd_port_ready board port)
        then (STATUS_ERR_DEVICE_UNAVAILABLE, initialized, hw)
      else if kSharedFrameCapacity < ws_LedCount (bd_ws board) (hw_board_strip hw)
        then (STATUS_ERR_DEVICE_UNAVAILABLE, initialized, hw)
      else case StartHwExecutor board stack_buffer stack_size_bytes hw of (start_ret, hw1) \<Rightarrow>
             if is_negative start_ret then (start_ret, initialized, hw1)
             else (STATUS_OK, True, hw1))"

section \<open>The blink period\<close>

fun blinks :: "nat \<Rightarrow> ('l \<Rightarrow> int \<times> 'l) \<Rightarrow> 'l \<Rightarrow> StatusLed \<Rightarrow> bool \<times> 'l \<times> StatusLed" where
  "blinks 0 toggle led s = (True, led, s)"
| "blinks (Suc n) toggle led s =
     (case blinks n toggle led s of (ok, led1, s1) \<Rightarrow>
        case Blink toggle led1 s1 of (ok1, led2, s2) \<Rightarrow> (ok \<and> ok1, led2, s2))"

lemma unat_of_nat_Suc: "unat (of_nat q + 1 :: u32) = Suc q mod 2 ^ 32"
proof -
  have "of_nat q + 1 = (of_nat (Suc q) :: u32)" by simp
  then show ?thesis by (simp only: unat_of_nat) (simp add: take_bit_eq_mod)
qed

lemma blinks_count:
  assumes "sl_led s" "sl_blink_tick s = 0" "\<And>l. 0 \<le> fst (toggle l)"
  shows "case blinks n toggle led s of (ok, led', s') \<Rightarrow> ok \<and>
    led' = ((\<lambda>l. snd (toggle l)) ^^ (n div max 1 (unat (sl_blink_half_period_ticks s)))) led \<and>
    s' = s\<lparr>sl_blink_tick := of_nat (n mod max 1 (unat (sl_blink_half_period_ticks s)))\<rparr>"
proof (induction n)
  case 0
  then show ?case using assms by simp
next
  case (Suc n)
  define k where "k = max 1 (unat (sl_blink_half_period_ticks s))"
  define q where "q = n mod k"
  obtain ok led1 s1 where b: "blinks n toggle led s = (ok, led1, s1)" by (metis prod_cases3)
  have ih: ok "led1 = ((\<lambda>l. snd (toggle l)) ^^ (n div k)) led" "s1 = s\<lparr>sl_blink_tick := of_nat q\<rparr>"
    using Suc by (simp_all add: b k_def q_def)
  have k: "0 < k" "k < 2 ^ 32" using unsigned_less [of "sl_blink_half_period_ticks s", where ?'a = nat] by (simp_all add: k_def)
  have q: "q < k" using k by (simp add: q_def)
  show ?case
  proof (cases "Suc q < k")
    case True
    then have "unat (sl_blink_half_period_ticks s) = k" by (simp add: k_def max_def split: if_splits)
    then have "of_nat q + 1 < sl_blink_half_period_ticks s"
      using True k by (simp only: word_less_nat_alt unat_of_nat_Suc) simp
    moreover have "Suc n div k = n div k" "Suc n mod k = Suc q"
      using True by (simp_all add: q_def mod_Suc div_Suc)
    ultimately show ?thesis
      unfolding k_def [symmetric] using ih assms(1) by (simp add: b Blink_def add.commute)
  next
    case False
    then have eq: "Suc q = k" using q by linarith
    have "unat (sl_blink_half_period_ticks s) \<le> k" by (simp add: k_def)
    then have "\<not> of_nat q + 1 < sl_blink_half_period_ticks s"
      using eq k by (simp only: word_less_nat_alt unat_of_nat_Suc) simp
    moreover have "Suc n div k = Suc (n div k)" "Suc n mod k = 0"
      using eq by (simp_all add: q_def mod_Suc div_Suc)
    ultimately show ?thesis
      unfolding k_def [symmetric] using ih assms(1,3) by (simp add: b Blink_def case_prod_unfold)
  qed
qed

section \<open>Setup and loop\<close>

lemma Blink_alive:
  assumes "sl_led s" "\<forall>l. 0 \<le> fst (toggle l)"
  shows "\<exists>led' s'. Blink toggle led s = (True, led', s')"
  using assms by (cases "toggle led") (auto simp: Blink_def Let_def dest: spec [of _ led])

definition banner :: "('w, 'd, 'b, 'l, 't) Board \<Rightarrow> string" where
  "banner board = ''DebugPort online on '' @ dp_Name (bd_debug board) (bd_debug_port board) @ '', strip on '' @ bd_strip_name board @ [CHR 0x0A]"

lemma HwTask_Setup_ok:
  assumes "cm_protocol (hw_command_manager hw) = Protocol_init (command_config (bd_port board))"
    and "strip_inv strip" "ws_LedCount (bd_ws board) (hw_board_strip hw) \<le> kSharedFrameCapacity"
  shows "\<exists>ok strip' hw'. HwTask_Setup board send strip hw = (ok, strip', hw')
     \<and> strip_inv strip' \<and> strip_ready strip' \<and> strip_led_count strip' = ws_LedCount (bd_ws board) (hw_board_strip hw)
     \<and> cm_inv (bd_port board) send (hw_command_manager hw')
     \<and> sl_led (hw_status_led hw') \<and> sl_blink_half_period_ticks (hw_status_led hw') = 100
     \<and> hw_board_strip hw' = hw_board_strip hw \<and> strip_mailbox strip' = strip_mailbox strip
     \<and> (ok \<longleftrightarrow> 0 \<le> fst (dp_Printf (bd_debug board) (banner board) (bd_debug_port board)))"
proof -
  let ?cm = "(CommandManager_Configure (bd_port board) (bd_command_port board) (Some (bd_debug_port board)) (hw_command_manager hw))
    \<lparr>cm_protocol := (Protocol_init (command_config (bd_port board)))\<lparr>p_handlers := command_table on_env_sink send\<rparr>\<rparr>"
  obtain ret dbg where pr: "dp_Printf (bd_debug board) (banner board) (bd_debug_port board) = (ret, dbg)" by (metis prod.exhaust)
  let ?hw = "hw\<lparr>hw_command_manager := ?cm\<lparr>cm_debug_port := Some dbg\<rparr>, hw_status_led := StatusLed_Configure True kTaskIdleSleepMs (hw_status_led hw)\<rparr>"
  let ?strip = "Configure (ws_LedCount (bd_ws board) (hw_board_strip hw)) (bd_strip_name board) strip"
  have reg: "Register on_env_sink send (cm_protocol (CommandManager_Configure (bd_port board) (bd_command_port board)
      (Some (bd_debug_port board)) (hw_command_manager hw))) = (True, (Protocol_init (command_config (bd_port board)))\<lparr>p_handlers := command_table on_env_sink send\<rparr>)"
    by (simp add: CommandManager_Configure_def assms(1) Register_result)
  have ban: "PrintBanner (bd_debug board) (bd_strip_name board) ?cm = (0 \<le> ret, ?cm\<lparr>cm_debug_port := Some dbg\<rparr>)"
    using pr by (simp add: PrintBanner_def CommandManager_Configure_def banner_def)
  have "HwTask_Setup board send strip hw = (0 \<le> ret, ?strip, ?hw)"
    unfolding HwTask_Setup_def Let_def reg using ban by simp
  moreover have "cm_inv (bd_port board) send (hw_command_manager ?hw)" by (rule cm_inv_registered) simp
  moreover have "sl_blink_half_period_ticks (hw_status_led ?hw) = 100" by (simp add: StatusLed_Configure_def) code_simp
  moreover have "strip_inv ?strip" using assms(2,3) by (rule strip_inv_Configure)
  ultimately show ?thesis by (simp add: pr StatusLed_Configure_def) (simp add: Configure_def)
qed

lemma Initialize_keeps:
  assumes "Initialize board stack n initialized hw = (st, initialized', hw1)"
  shows "hw_command_manager hw1 = hw_command_manager hw \<and> hw_board_strip hw1 = hw_board_strip hw"
  using assms by (auto simp: Initialize_def StartHwExecutor_def HwTask_Start_def Let_def split: if_splits prod.splits)

lemma HwTask_Loop_ok:
  assumes "serial_laws (bd_port board) pending" "cm_inv (bd_port board) send (hw_command_manager hw)"
    and "mailbox_laws fsend receive frames" "backend_laws (bd_ws board) pixel shown"
    and "\<forall>f\<in>set (frames (strip_mailbox strip)). frame_led_count f \<le> ws_LedCount (bd_ws board) (hw_board_strip hw)"
    and "sl_led (hw_status_led hw)" "\<forall>l. 0 \<le> fst (bd_toggle board l)"
  shows "\<exists>strip' hw'. HwTask_Loop board receive events strip hw = Some (True, strip', hw')
    \<and> (let cm = hw_command_manager hw; cm' = hw_command_manager hw' in
         if events AND kCommandRxEventMask board \<noteq> 0
         then cm_inv (bd_port board) send cm' \<and> rx_pending pending (cm_env cm') = []
           \<and> env_sink (cm_env cm') = fold (queue_frame send)
               (snd (parse_all (rx_pending pending (cm_env cm)) (abs_parser (cm_protocol cm)))) (env_sink (cm_env cm))
         else cm' = cm)
    \<and> (if events AND kFrameEventMask board \<noteq> 0
       then frames (strip_mailbox strip') = [] \<and> (frames (strip_mailbox strip) \<noteq> [] \<longrightarrow>
         (\<forall>i < frame_led_count (last (frames (strip_mailbox strip))).
            shown (hw_board_strip hw') i = frame_colors (last (frames (strip_mailbox strip))) ! i))
       else strip' = strip \<and> hw_board_strip hw' = hw_board_strip hw)"
proof -
  obtain cm where cm: "(if events AND kCommandRxEventMask board \<noteq> 0 then CommandManager_Run (hw_command_manager hw)
            else Some (hw_command_manager hw)) = Some cm"
      "if events AND kCommandRxEventMask board \<noteq> 0
         then cm_inv (bd_port board) send cm \<and> rx_pending pending (cm_env cm) = []
           \<and> env_sink (cm_env cm) = fold (queue_frame send) (snd (parse_all (rx_pending pending (cm_env (hw_command_manager hw)))
               (abs_parser (cm_protocol (hw_command_manager hw))))) (env_sink (cm_env (hw_command_manager hw)))
         else cm = hw_command_manager hw"
    using CommandManager_Run_ok [OF assms(1,2)] by (cases "events AND kCommandRxEventMask board \<noteq> 0") auto
  obtain mb b where fr: "(if events AND kFrameEventMask board \<noteq> 0
                   then TryApplyLatest receive (bd_ws board) (strip_mailbox strip) (hw_board_strip hw)
                   else Some (True, strip_mailbox strip, hw_board_strip hw)) = Some (True, mb, b)"
      "if events AND kFrameEventMask board \<noteq> 0
       then frames mb = [] \<and> (frames (strip_mailbox strip) \<noteq> [] \<longrightarrow>
         (\<forall>i < frame_led_count (last (frames (strip_mailbox strip))).
            shown b i = frame_colors (last (frames (strip_mailbox strip))) ! i))
       else mb = strip_mailbox strip \<and> b = hw_board_strip hw"
    using TryApplyLatest_drains [OF assms(3,4,5)] by (cases "events AND kFrameEventMask board \<noteq> 0") auto
  obtain led sl where bl: "Blink (bd_toggle board) (hw_board_led hw) (hw_status_led hw) = (True, led, sl)"
    using Blink_alive [OF assms(6,7)] by blast
  let ?hw = "hw\<lparr>hw_command_manager := cm, hw_board_strip := b, hw_board_led := led, hw_status_led := sl\<rparr>"
  have "HwTask_Loop board receive events strip hw = Some (True, strip\<lparr>strip_mailbox := mb\<rparr>, ?hw)"
    unfolding HwTask_Loop_def cm(1)
    using fr(1) bl by (cases "events AND kFrameEventMask board = 0") (auto simp: Let_def)
  then show ?thesis using cm(2) fr(2) by (auto simp: Let_def)
qed

section \<open>Properties\<close>

text \<open>
  C17. The task loop serves whatever has happened. For any combination of events, from a state after
  setup and with devices that work, one iteration returns and keeps the task alive: on a receive
  event the commands of all bytes received so far are queued and no byte is left, on a frame event
  the mailbox is emptied and the strip shows the newest frame; without the event nothing of that
  part changes.
\<close>

theorem HwTask_Loop_serves:
  assumes "serial_laws (bd_port board) pending" "cm_inv (bd_port board) send (hw_command_manager hw)"
    and "mailbox_laws fsend receive frames" "backend_laws (bd_ws board) pixel shown"
    and "\<forall>f\<in>set (frames (strip_mailbox strip)). frame_led_count f \<le> ws_LedCount (bd_ws board) (hw_board_strip hw)"
    and "sl_led (hw_status_led hw)" "\<forall>l. 0 \<le> fst (bd_toggle board l)"
  shows "\<exists>strip' hw'. HwTask_Loop board receive events strip hw = Some (True, strip', hw')
    \<and> (let cm = hw_command_manager hw; cm' = hw_command_manager hw' in
         if events AND kCommandRxEventMask board \<noteq> 0
         then cm_inv (bd_port board) send cm' \<and> rx_pending pending (cm_env cm') = []
           \<and> env_sink (cm_env cm') = fold (queue_frame send)
               (snd (parse_all (rx_pending pending (cm_env cm)) (abs_parser (cm_protocol cm)))) (env_sink (cm_env cm))
         else cm' = cm)
    \<and> (if events AND kFrameEventMask board \<noteq> 0
       then frames (strip_mailbox strip') = [] \<and> (frames (strip_mailbox strip) \<noteq> [] \<longrightarrow>
         (\<forall>i < frame_led_count (last (frames (strip_mailbox strip))).
            shown (hw_board_strip hw') i = frame_colors (last (frames (strip_mailbox strip))) ! i))
       else strip' = strip \<and> hw_board_strip hw' = hw_board_strip hw)"
  using HwTask_Loop_ok [OF assms] .

text \<open>
  C20. Initialize opens the door exactly once. The first call succeeds, and marks the module
  initialized, exactly when it is given a stack, runs in a task, all devices are ready, the strip
  fits in a frame and the executor starts; every other outcome is a negative status. After a
  success the setup of the task gives a ready strip of the board's size within its invariant and an
  engine with all commands registered, and fails only when the banner cannot be printed; further
  calls have no effect.
\<close>

theorem Initialize_then_Setup:
  assumes "Initialize board stack n False hw = (st, initialized, hw1)"
    and "strip_inv strip" "cm_protocol (hw_command_manager hw) = Protocol_init (command_config (bd_port board))"
  shows "(st = STATUS_OK \<longleftrightarrow> stack \<noteq> None \<and> n \<noteq> 0 \<and> bd_current_task_valid board
        \<and> bd_strip_ready board (hw_board_strip hw) \<and> bd_led_ready board (hw_board_led hw) \<and> bd_debug_ready board
        \<and> (\<forall>port. bd_command_port board = Some port \<longrightarrow> bd_port_ready board port)
        \<and> ws_LedCount (bd_ws board) (hw_board_strip hw) \<le> kSharedFrameCapacity
        \<and> \<not> is_negative (fst (StartHwExecutor board stack n hw)))
    \<and> (initialized \<longleftrightarrow> st = STATUS_OK) \<and> (st \<noteq> STATUS_OK \<longrightarrow> is_negative st)
    \<and> (initialized \<longrightarrow> Initialize board stack n initialized hw1 = (STATUS_OK, True, hw1)
        \<and> (\<exists>ok strip' hw'. HwTask_Setup board send strip hw1 = (ok, strip', hw')
             \<and> strip_inv strip' \<and> strip_ready strip' \<and> strip_led_count strip' = ws_LedCount (bd_ws board) (hw_board_strip hw)
             \<and> cm_inv (bd_port board) send (hw_command_manager hw')
             \<and> sl_led (hw_status_led hw') \<and> sl_blink_half_period_ticks (hw_status_led hw') = 100
             \<and> (ok \<longleftrightarrow> 0 \<le> fst (dp_Printf (bd_debug board) (banner board) (bd_debug_port board)))))"
proof -
  let ?ready = "stack \<noteq> None \<and> n \<noteq> 0 \<and> bd_current_task_valid board
        \<and> bd_strip_ready board (hw_board_strip hw) \<and> bd_led_ready board (hw_board_led hw) \<and> bd_debug_ready board
        \<and> (\<forall>port. bd_command_port board = Some port \<longrightarrow> bd_port_ready board port)
        \<and> ws_LedCount (bd_ws board) (hw_board_strip hw) \<le> kSharedFrameCapacity"
  have i: "(st = STATUS_OK \<longleftrightarrow> ?ready \<and> \<not> is_negative (fst (StartHwExecutor board stack n hw)))
      \<and> (initialized \<longleftrightarrow> st = STATUS_OK) \<and> (st \<noteq> STATUS_OK \<longrightarrow> is_negative st)"
    using assms(1) by (auto simp: Initialize_def split: if_splits prod.splits option.splits)
  moreover have "Initialize board stack n True hw1 = (STATUS_OK, True, hw1)" if "st = STATUS_OK"
    using i that by (simp add: Initialize_def)
  moreover note HwTask_Setup_ok [of hw1 board strip send] assms(2,3) Initialize_keeps [OF assms(1)]
  ultimately show ?thesis by auto
qed

text \<open>
  The status LED blinks at its period: configured for an idle interval, the LED is toggled
  once in every so many iterations as intervals fit in a second (every iteration when none does),
  and the counter never runs away; with the interval of the task this is every hundredth.
\<close>

theorem StatusLed_period:
  assumes "\<forall>l. 0 \<le> fst (toggle l)"
  shows "let k = max 1 (1000 div unat idle) in
    \<exists>s'. blinks n toggle led (StatusLed_Configure True idle s) = (True, ((\<lambda>l. snd (toggle l)) ^^ (n div k)) led, s')
      \<and> unat (sl_blink_tick s') = n mod k"
proof -
  let ?s = "StatusLed_Configure True idle s"
  have h: "unat (sl_blink_half_period_ticks ?s) = 1000 div unat idle"
    by (simp add: StatusLed_Configure_def kBlinkHalfPeriodMs_def unat_div)
  define k where "k = max 1 (1000 div unat idle)"
  have "n mod k < k" "k \<le> 1000" by (simp_all add: k_def)
  then have "unat (of_nat (n mod k) :: u32) = n mod k" by (simp add: unat_of_nat take_bit_nat_eq_self)
  then show ?thesis
    using blinks_count [of ?s toggle n led] assms unfolding h k_def [symmetric] Let_def
    by (auto simp: StatusLed_Configure_def)
qed

section \<open>Witnesses\<close>

text \<open>A board with seven plain pixels, a LED that counts its toggles and the queue port.\<close>

definition demo_board :: "(u8 list, unit, (nat \<Rightarrow> RgbColor) \<times> (nat \<Rightarrow> RgbColor), nat, bool) Board" where
  "demo_board = \<lparr>bd_port = demo_port, bd_debug = \<lparr>dp_Name = (\<lambda>d. ''uart0''), dp_Printf = (\<lambda>s d. (int (length s), d))\<rparr>,
     bd_ws = plain_ops 7, bd_toggle = (\<lambda>n. (0, n + 1)), bd_strip_name = ''strip0'', bd_command_port = Some [],
     bd_debug_port = (), bd_user_event = (\<lambda>k. 2 ^ k), bd_strip_ready = (\<lambda>b. True), bd_led_ready = (\<lambda>l. True),
     bd_debug_ready = True, bd_port_ready = (\<lambda>w. True), bd_current_task_valid = True, bd_task_valid = (\<lambda>t. t),
     bd_task_running = (\<lambda>t. t), bd_task_create = (\<lambda>c t. (STATUS_OK, True))\<rparr>"

definition demo_hw :: "(u8 list, ControllerCommandMessage list, unit, (nat \<Rightarrow> RgbColor) \<times> (nat \<Rightarrow> RgbColor), nat, bool) HwTask" where
  "demo_hw = \<lparr>hw_command_manager = demo_manager, hw_status_led = StatusLed_Configure True 10 StatusLed_init,
     hw_board_strip = (\<lambda>i. black, \<lambda>i. black), hw_board_led = 0, hw_task = False\<rparr>"

lemma demo_board_simps [simp]:
  "bd_port demo_board = demo_port" "bd_ws demo_board = plain_ops 7" "bd_toggle demo_board = (\<lambda>n. (0, n + 1))"
  "ws_LedCount (plain_ops k) b = k" "hw_command_manager demo_hw = demo_manager" "sl_led (hw_status_led demo_hw)"
  by (simp_all add: demo_board_def plain_ops_def demo_hw_def StatusLed_Configure_def)

theorem HwTask_Loop_serves_witness:
  "\<exists>strip' hw'. HwTask_Loop demo_board fifo_receive 1 (snd (Show fifo_send demo_strip)) demo_hw = Some (True, strip', hw')
    \<and> strip_mailbox strip' = [] \<and> snd (hw_board_strip hw') 3 = rgb 1 2 3"
proof -
  let ?f = "(staged_frame demo_strip)\<lparr>frame_led_count := 7\<rparr>"
  have mb: "strip_mailbox (snd (Show fifo_send demo_strip)) = [?f]"
    by (simp add: Show_def Let_def demo_strip_simps fifo_send_def)
  have "frame_colors ?f ! 3 = rgb 1 2 3"
    by (simp add: demo_strip_def SetLedColor_def Fill_def Configure_def StripManager_init_def empty_frame_def kSharedFrameCapacity_def)
  moreover have "(1 :: u32) AND kFrameEventMask demo_board \<noteq> 0" "(1 :: u32) AND kCommandRxEventMask demo_board = 0"
    by (simp_all add: kFrameEventMask_def kCommandRxEventMask_def demo_board_def)
  ultimately show ?thesis
    using HwTask_Loop_serves [of demo_board "\<lambda>w. w" list_send demo_hw fifo_send fifo_receive "\<lambda>mb. mb" fst snd
        "snd (Show fifo_send demo_strip)" 1] demo_port_laws(1) demo_manager_facts(1) fifo_mailbox_laws plain_backend_laws [of 7]
    by (auto simp: mb)
qed

theorem Initialize_then_Setup_witness:
  "fst (Initialize demo_board (Some 4096) 1024 False (demo_hw\<lparr>hw_command_manager := CommandManager_init demo_port\<rparr>)) = STATUS_OK
    \<and> fst (Initialize demo_board None 1024 False (demo_hw\<lparr>hw_command_manager := CommandManager_init demo_port\<rparr>)) \<noteq> STATUS_OK"
proof -
  let ?hw = "demo_hw\<lparr>hw_command_manager := CommandManager_init demo_port\<rparr>"
  obtain st i hw1 where r: "Initialize demo_board (Some 4096) 1024 False ?hw = (st, i, hw1)" by (metis prod_cases3)
  obtain st' i' hw1' where r': "Initialize demo_board None 1024 False ?hw = (st', i', hw1')" by (metis prod_cases3)
  have p: "cm_protocol (hw_command_manager ?hw) = Protocol_init (command_config (bd_port demo_board))"
    by (simp add: CommandManager_init_def)
  show ?thesis
    using Initialize_then_Setup [OF r demo_strip_simps(1) p] Initialize_then_Setup [OF r' demo_strip_simps(1) p] r r'
    by (simp add: demo_board_def demo_hw_def StartHwExecutor_def HwTask_Start_def kSharedFrameCapacity_def plain_ops_def)
qed

theorem StatusLed_period_witness:
  "\<exists>s'. blinks 250 (\<lambda>n. (0, n + 1)) (0 :: nat) (StatusLed_Configure True 10 StatusLed_init)
     = (True, ((\<lambda>n. n + 1) ^^ 2) 0, s') \<and> unat (sl_blink_tick s') = 50"
  using StatusLed_period [of "\<lambda>n. (0, n + 1)" 10 250 "0 :: nat" StatusLed_init] by (simp add: Let_def)

end
