(* ===== verification/StillImage.thy ===== *)
theory StillImage
  imports ControllerProps
begin

text \<open>
  What a program of color instructions does, from Start to the pixels: a specification of the
  staged frame and the proof that the first tick after Start produces it.
\<close>

section \<open>Painting\<close>

fun paints :: "instr_body \<Rightarrow> bool" where
  "paints (SetMultipleColor c r) = True"
| "paints (SetSingleColor c i) = True"
| "paints (SetMultipleColorHsv c r) = True"
| "paints (SetSingleColorHsv c i) = True"
| "paints _ = False"

fun paint :: "instr_body \<Rightarrow> 'mb StripManager \<Rightarrow> 'mb StripManager" where
  "paint (SetMultipleColor c r) s = set_range c r s"
| "paint (SetSingleColor c i) s = set_led s (unat i) c"
| "paint (SetMultipleColorHsv c r) s = set_range (HsvToRgb c) r s"
| "paint (SetSingleColorHsv c i) s = set_led s (unat i) (HsvToRgb c)"
| "paint _ s = s"

definition paint_slot :: "InstructionMemorySlot \<Rightarrow> 'mb StripManager \<Rightarrow> 'mb StripManager" where
  "paint_slot slot s = (case slot of None \<Rightarrow> s | Some i \<Rightarrow> paint (i_body i) s)"

definition color_slot :: "InstructionMemorySlot \<Rightarrow> bool" where
  "color_slot slot \<longleftrightarrow> (case slot of None \<Rightarrow> False | Some i \<Rightarrow> i_strip i \<and> i_controller i \<and> paints (i_body i))"

lemma slot_Execute_color: "color_slot slot \<Longrightarrow> slot_Execute p ts slot s = (0, True, slot, paint_slot slot s)"
proof (cases slot)
  case (Some i)
  then show "color_slot slot \<Longrightarrow> ?thesis"
    by (cases "i_body i") (auto simp: color_slot_def slot_Execute_def instr_Execute_def paint_slot_def)
qed (simp add: color_slot_def)

lemma color_slot_facts:
  assumes "color_slot slot"
  shows "\<not> IsRunGroup slot" "slot_ResetForReplay slot = slot"
proof -
  obtain i where i: "slot = Some i" "paints (i_body i)" using assms by (auto simp: color_slot_def split: option.splits)
  show "\<not> IsRunGroup slot" "slot_ResetForReplay slot = slot"
    using i(2) by (cases "i_body i"; simp add: i(1) IsRunGroup_def slot_ResetForReplay_def instr_ResetForReplay_def)+
qed

lemma color_slot_Reset:
  assumes "slot_ResetForReplay a = slot_ResetForReplay b" "color_slot b"
  shows "a = b"
proof -
  obtain i where i: "b = Some i" "paints (i_body i)" using assms(2) by (auto simp: color_slot_def split: option.splits)
  have r: "slot_ResetForReplay a = Some i" using assms color_slot_facts(2) [OF assms(2)] i(1) by simp
  then obtain j where j: "a = Some j" "instr_ResetForReplay j = i"
    by (cases a) (auto simp: slot_ResetForReplay_def)
  then have "body_ResetForReplay (i_body j) = i_body i" by (auto simp: instr_ResetForReplay_def)
  with i(2) have "paints (body_ResetForReplay (i_body j))" by simp
  then have "body_ResetForReplay (i_body j) = i_body j" by (cases "i_body j") simp_all
  then have "instr_ResetForReplay j = j" by (simp add: instr_ResetForReplay_def)
  then show ?thesis using i j by simp
qed

lemma execute_slot_color:
  "color_slot (c_instructions c ! k) \<Longrightarrow>
   execute_slot ts k c = (0, c\<lparr>c_device := paint_slot (c_instructions c ! k) (c_device c), c_show_requested := True\<rparr>)"
  by (simp add: execute_slot_def slot_Execute_color)

section \<open>One group of color instructions\<close>

lemma observe_only_runtimes:
  "ObservePositiveBoundary r c = c\<lparr>c_runtimes := c_runtimes (ObservePositiveBoundary r c)\<rparr>"
proof -
  have "observe_loop n r c = c\<lparr>c_runtimes := c_runtimes (observe_loop n r c)\<rparr>" for n
  proof (induction n arbitrary: r c)
    case (Suc n)
    let ?c = "upd_runtime r (\<lambda>r. r\<lparr>rt_positive_boundary_observed := True\<rparr>) c"
    have "?c\<lparr>c_runtimes := x\<rparr> = c\<lparr>c_runtimes := x\<rparr>" for x by (simp add: upd_runtime_def)
    with Suc [of "rt_parent_group_index (c_runtimes c ! r)" ?c]
    have ih: "observe_loop n (rt_parent_group_index (c_runtimes c ! r)) ?c
        = c\<lparr>c_runtimes := c_runtimes (observe_loop n (rt_parent_group_index (c_runtimes c ! r)) ?c)\<rparr>" by metis
    show ?case
    proof (cases "r < c_group_count c \<and> rt_active (c_runtimes c ! r)")
      case True
      then have e: "observe_loop (Suc n) r c = observe_loop n (rt_parent_group_index (c_runtimes c ! r)) ?c" by simp
      show ?thesis unfolding e by (rule ih)
    next
      case False
      then have "observe_loop (Suc n) r c = c" by auto
      then show ?thesis by simp
    qed
  qed simp
  then show ?thesis by (simp add: ObservePositiveBoundary_def)
qed

lemma advance_cursor_root:
  assumes "0 < length (c_runtimes c)"
  shows "\<exists>rts b. advance_cursor 0 c = c\<lparr>c_runtimes := rts\<rparr> \<and> length rts = length (c_runtimes c)
    \<and> rts ! 0 = (c_runtimes c ! 0)\<lparr>rt_cursor := rt_cursor (c_runtimes c ! 0) + 1, rt_positive_boundary_observed := b\<rparr>"
proof -
  define rts where "rts = (if 0 < GetMark (c_instructions c ! cursor_slot 0 c)
    then c_runtimes (ObservePositiveBoundary 0 c) else c_runtimes c)"
  have a: "advance_cursor 0 c = upd_runtime 0 (\<lambda>r. r\<lparr>rt_cursor := rt_cursor r + 1\<rparr>) (c\<lparr>c_runtimes := rts\<rparr>)"
    using observe_only_runtimes [of 0 c] by (simp add: advance_cursor_def rts_def)
  have "flag_eq (c_runtimes c) rts" using observe_flags [of c 0] by (simp add: rts_def)
  then obtain b where b: "rts ! 0 = (c_runtimes c ! 0)\<lparr>rt_positive_boundary_observed := b\<rparr>" "length rts = length (c_runtimes c)"
    using assms unfolding flag_eq_def by blast
  then have "rts[0 := (rts ! 0)\<lparr>rt_cursor := rt_cursor (rts ! 0) + 1\<rparr>] ! 0
      = (c_runtimes c ! 0)\<lparr>rt_cursor := rt_cursor (c_runtimes c ! 0) + 1, rt_positive_boundary_observed := b\<rparr>"
    using assms by (simp add: nth_list_update)
  then show ?thesis
    using b(2) unfolding a by (intro exI [of _ "rts[0 := (rts ! 0)\<lparr>rt_cursor := rt_cursor (rts ! 0) + 1\<rparr>]"] exI [of _ b])
      (simp add: upd_runtime_def)
qed

definition group_slot :: "'mb Controller \<Rightarrow> nat \<Rightarrow> InstructionMemorySlot" where
  "group_slot c j = c_instructions c ! (c_group_indices c ! (gr_index_begin (rt_record (c_runtimes c ! 0)) + j))"

text \<open>The due instructions from the cursor up to position \<open>m\<close> are executed, in order.\<close>

lemma pick_runtime_colors:
  assumes "0 < length (c_runtimes c)" "rt_cursor (c_runtimes c ! 0) \<le> m" "m \<le> n"
    and "gr_instruction_count (rt_record (c_runtimes c ! 0)) = n"
    and "\<forall>j<m. color_slot (group_slot c j) \<and> ucast (GetMark (group_slot c j)) \<le> el"
    and "m < n \<longrightarrow> el < ucast (GetMark (group_slot c m))"
  shows "\<exists>rts b. length rts = length (c_runtimes c)
    \<and> rts ! 0 = (c_runtimes c ! 0)\<lparr>rt_cursor := m, rt_positive_boundary_observed := b\<rparr>
    \<and> pick_runtime ts 0 el p st c = (False, p \<or> rt_cursor (c_runtimes c ! 0) < m, st,
        c\<lparr>c_runtimes := rts, c_device := fold (\<lambda>j. paint_slot (group_slot c j)) [rt_cursor (c_runtimes c ! 0)..<m] (c_device c),
          c_show_requested := c_show_requested c \<or> rt_cursor (c_runtimes c ! 0) < m\<rparr>)"
  using assms
proof (induction "m - rt_cursor (c_runtimes c ! 0)" arbitrary: c p)
  case 0
  then have k: "rt_cursor (c_runtimes c ! 0) = m" by simp
  have "c_instructions c ! cursor_slot 0 c = group_slot c m" by (simp add: cursor_slot_def group_slot_def k)
  then have "pick_runtime ts 0 el p st c = (False, p, st, c)"
    using "0.prems"(3,4,6) by (subst pick_runtime.simps) (simp add: k)
  moreover have "c_runtimes c ! 0 = (c_runtimes c ! 0)\<lparr>rt_cursor := m, rt_positive_boundary_observed := rt_positive_boundary_observed (c_runtimes c ! 0)\<rparr>"
    unfolding k [symmetric] by simp
  ultimately show ?case
    by (intro exI [of _ "c_runtimes c"] exI [of _ "rt_positive_boundary_observed (c_runtimes c ! 0)"]) (simp add: k)
next
  case (Suc d)
  let ?k = "rt_cursor (c_runtimes c ! 0)"
  have k: "?k < m" using Suc(2) by simp
  obtain rts b where a: "advance_cursor 0 c = c\<lparr>c_runtimes := rts\<rparr>" "length rts = length (c_runtimes c)"
      "rts ! 0 = (c_runtimes c ! 0)\<lparr>rt_cursor := ?k + 1, rt_positive_boundary_observed := b\<rparr>"
    using advance_cursor_root [OF Suc.prems(1)] by blast
  have s: "c_instructions c ! cursor_slot 0 c = group_slot c ?k" by (simp add: cursor_slot_def group_slot_def)
  have sl: "color_slot (group_slot c ?k)" "ucast (GetMark (group_slot c ?k)) \<le> el" using Suc.prems(5) k by auto
  define c1 where "c1 = c\<lparr>c_runtimes := rts, c_device := paint_slot (group_slot c ?k) (c_device c), c_show_requested := True\<rparr>"
  have d: "DispatchDueInstruction 0 (cursor_slot 0 c) ts st (advance_cursor 0 c) = (False, st, c1)"
    using sl(1) color_slot_facts(1) [OF sl(1)]
    by (simp add: DispatchDueInstruction_def a(1) s execute_slot_color c1_def)
  have pr: "pick_runtime ts 0 el p st c = pick_runtime ts 0 el True st c1"
    using Suc.prems(1,3,4) k leD [OF sl(2)] by (subst pick_runtime.simps) (simp add: s d)
  have g: "group_slot c1 = group_slot c" by (intro ext) (simp add: group_slot_def c1_def a(3))
  have cur: "rt_cursor (c_runtimes c1 ! 0) = ?k + 1" by (simp add: c1_def a(3))
  have m1: "d = m - (?k + 1)" using Suc.hyps(2) by simp
  obtain rts' b' where ih: "length rts' = length (c_runtimes c1)" "rts' ! 0 = (c_runtimes c1 ! 0)\<lparr>rt_cursor := m, rt_positive_boundary_observed := b'\<rparr>"
     "pick_runtime ts 0 el True st c1 = (False, True, st, c1\<lparr>c_runtimes := rts',
        c_device := fold (\<lambda>j. paint_slot (group_slot c j)) [?k + 1..<m] (c_device c1), c_show_requested := True\<rparr>)"
    using Suc.hyps(1) [of c1 True] m1 Suc.prems k unfolding g cur by (auto simp: c1_def a)
  have "[?k..<m] = ?k # [?k + 1..<m]" using k by (simp add: upt_conv_Cons)
  then have "pick_runtime ts 0 el p st c = (False, p \<or> ?k < m, st, c\<lparr>c_runtimes := rts',
      c_device := fold (\<lambda>j. paint_slot (group_slot c j)) [?k..<m] (c_device c), c_show_requested := c_show_requested c \<or> ?k < m\<rparr>)"
    unfolding pr ih(3) using k by (simp add: c1_def)
  moreover have "rts' ! 0 = (c_runtimes c ! 0)\<lparr>rt_cursor := m, rt_positive_boundary_observed := b'\<rparr>"
    by (simp add: ih(2) c1_def a(3))
  moreover have "length rts' = length (c_runtimes c)" by (simp add: ih(1) c1_def a(2))
  ultimately show ?case by blast
qed

text \<open>
  The three rounds of the tick: all instructions are picked, the root group completes, nothing is
  left to do.
\<close>

lemma drain_nothing: "c_executing c = [] \<Longrightarrow> DrainExecuting ts st c = (False, st, c)"
  by (simp add: DrainExecuting_def drain_loop.simps)

lemma round_nothing:
  assumes "c_group_count c = 1" "c_executing c = []" "\<not> rt_active (c_runtimes c ! 0)"
  shows "progress_round ts st c = (False, st, c)"
  using assms by (simp add: progress_round_def drain_nothing CompleteReadyGroups_def complete_one_def PickDueInstructions_def)

lemma round_complete:
  assumes "c_group_count c = 1" "c_executing c = []" "0 < length (c_runtimes c)"
    and "c_runtimes c ! 0 = r" "rt_active r" "rt_cursor r = gr_instruction_count (rt_record r)"
    and "rt_active_count r = 0" "rt_child_count r = 0" "rt_repeats_remaining r = 0"
  shows "progress_round ts st c = (True, st, (upd_runtime 0 GroupRuntime_Reset c)\<lparr>c_state := kCompleted\<rparr>)"
  using assms by (simp add: progress_round_def drain_nothing CompleteReadyGroups_def complete_one_def PickDueInstructions_def
      upd_runtime_def GroupRuntime_Reset_def)

text \<open>The root group of a program of color instructions that has executed its first \<open>k\<close>, started at \<open>t0\<close>.\<close>

definition still_root :: "nat \<Rightarrow> u32 \<Rightarrow> nat \<Rightarrow> GroupRuntime \<Rightarrow> bool" where
  "still_root n t0 k r \<longleftrightarrow> rt_active r \<and> rt_cursor r = k \<and> rt_depth r = 0 \<and> rt_active_count r = 0 \<and> rt_child_count r = 0
     \<and> rt_repeats_remaining r = 0 \<and> rt_start_time r = t0 \<and> gr_instruction_count (rt_record r) = n"

lemma round_waiting:
  assumes "c_group_count c = 1" "c_executing c = []" "0 < length (c_runtimes c)"
    and "still_root n t0 k (c_runtimes c ! 0)" "k < n" "ts - t0 < ucast (GetMark (group_slot c k))"
  shows "progress_round ts st c = (False, st, c)"
proof -
  have "c_instructions c ! cursor_slot 0 c = group_slot c k"
    using assms(4) by (simp add: cursor_slot_def group_slot_def still_root_def)
  then have "pick_runtime ts 0 (ts - t0) False st c = (False, False, st, c)"
    using assms(3-6) by (subst pick_runtime.simps) (simp add: still_root_def)
  then show ?thesis
    using assms by (simp add: progress_round_def drain_nothing CompleteReadyGroups_def complete_one_def PickDueInstructions_def still_root_def)
qed

lemma run_loop_colors:
  assumes g: "c_group_count c = 1" "c_executing c = []" "0 < length (c_runtimes c)"
    and root: "still_root n t0 k (c_runtimes c ! 0)" "k < n" and m: "k \<le> m" "m \<le> n"
    and due: "\<forall>j<m. color_slot (group_slot c j) \<and> ucast (GetMark (group_slot c j)) \<le> ts - t0"
      "m < n \<longrightarrow> ts - t0 < ucast (GetMark (group_slot c m))"
  shows "\<exists>rts. length rts = length (c_runtimes c) \<and> rt_record (rts ! 0) = rt_record (c_runtimes c ! 0)
    \<and> (if m = n then \<not> rt_active (rts ! 0) else still_root n t0 m (rts ! 0))
    \<and> run_loop ts st c = Some (st, c\<lparr>c_runtimes := rts, c_state := (if m = n then kCompleted else c_state c),
         c_device := fold (\<lambda>j. paint_slot (group_slot c j)) [k..<m] (c_device c),
         c_show_requested := c_show_requested c \<or> k < m\<rparr>)"
proof -
  note r = root(1) [unfolded still_root_def]
  obtain rts b where p: "length rts = length (c_runtimes c)" "rts ! 0 = (c_runtimes c ! 0)\<lparr>rt_cursor := m, rt_positive_boundary_observed := b\<rparr>"
      "pick_runtime ts 0 (ts - t0) False st c = (False, k < m, st, c\<lparr>c_runtimes := rts,
        c_device := fold (\<lambda>j. paint_slot (group_slot c j)) [k..<m] (c_device c), c_show_requested := c_show_requested c \<or> k < m\<rparr>)"
    using pick_runtime_colors [of c m n "ts - t0" ts False st] g(3) r m due by auto
  define c1 where "c1 = c\<lparr>c_runtimes := rts, c_device := fold (\<lambda>j. paint_slot (group_slot c j)) [k..<m] (c_device c),
      c_show_requested := c_show_requested c \<or> k < m\<rparr>"
  have r1: "progress_round ts st c = (k < m, st, c1)"
    using g r root(2) p by (simp add: progress_round_def drain_nothing CompleteReadyGroups_def complete_one_def PickDueInstructions_def c1_def)
  have root1: "still_root n t0 m (c_runtimes c1 ! 0)" using r p(2) by (simp add: c1_def still_root_def)
  have rec: "rt_record (rts ! 0) = rt_record (c_runtimes c ! 0)" by (simp add: p(2))
  show ?thesis
  proof (cases "m = n")
    case False
    have "group_slot c1 m = group_slot c m" by (simp add: group_slot_def c1_def rec)
    then have "progress_round ts st c1 = (False, st, c1)"
      using round_waiting [of c1 n t0 m ts st] g p(1) root1 m due(2) False by (simp add: c1_def)
    then have "run_loop ts st c = Some (st, c1)"
      by (simp only: run_loop.simps [of ts st c] run_loop.simps [of ts st c1] r1 prod.case if_False) simp
    then show ?thesis using p(1) root1 rec False by (intro exI [of _ rts]) (simp add: c1_def)
  next
    case True
    then have km: "k < m" using root(2) by simp
    let ?c2 = "(upd_runtime 0 GroupRuntime_Reset c1)\<lparr>c_state := kCompleted\<rparr>"
    have r2: "progress_round ts st c1 = (True, st, ?c2)"
      using g p(1) root1 True by (intro round_complete [where r = "rts ! 0"]) (simp_all add: c1_def still_root_def)
    have ina: "\<not> rt_active (c_runtimes ?c2 ! 0)" using g(3) p(1) by (simp add: upd_runtime_def c1_def GroupRuntime_Reset_def)
    then have r3: "progress_round ts st ?c2 = (False, st, ?c2)"
      using g(1,2) by (intro round_nothing) (simp_all add: c1_def upd_runtime_def)
    have "run_loop ts st c = Some (st, ?c2)"
      using km by (simp only: run_loop.simps [of ts st c] run_loop.simps [of ts st c1] run_loop.simps [of ts st ?c2] r1 r2 r3 prod.case if_True if_False)
    then show ?thesis using ina rec True g(3) p(1)
      by (intro exI [of _ "c_runtimes ?c2"]) (simp add: upd_runtime_def c1_def GroupRuntime_Reset_def)
  qed
qed

section \<open>From Start to the pixels\<close>

definition still_program :: "InstructionMemorySlot list \<Rightarrow> nat \<Rightarrow> bool" where
  "still_program slots n \<longleftrightarrow> (\<forall>i<n. color_slot (slots ! i) \<and> GetGroupId (slots ! i) = 0)"

lemma still_program_valid: "still_program slots n \<Longrightarrow> valid_program slots n 0"
proof -
  assume "still_program slots n"
  then have "\<not> IsRunGroup (slots ! i)" if "i < n" for i
    using that color_slot_facts(1) by (auto simp: still_program_def)
  then have "calls slots n = {}" by (auto simp: calls_def)
  then show ?thesis using \<open>\<And>i. i < n \<Longrightarrow> \<not> IsRunGroup (slots ! i)\<close>
    by (auto simp: valid_program_def targets_ok_def repeats_ok_def acyclic_def)
qed

text \<open>A program of one group: one record that starts at the beginning of the pool.\<close>

lemma one_group:
  assumes pool: "pool_ok slots n groups gc indices" and root: "\<forall>i<n. GetGroupId (slots ! i) = 0"
  shows "gc = 1 \<and> gr_index_begin (groups ! 0) = 0 \<and> gr_instruction_count (groups ! 0) = n
    \<and> take n indices = sort_key (\<lambda>i. GetMark (slots ! i)) [0..<n]"
proof -
  have t: "table_ok slots n groups gc" "layout_ok groups gc" and
    s: "\<forall>g<gc. segment (gr_index_begin (groups ! g)) (gr_instruction_count (groups ! g)) indices = group_members slots n (gr_id (groups ! g))"
    using pool by (simp_all add: pool_ok_def)
  have g0: "0 < gc" "gr_id (groups ! 0) = 0" using t(1) by (simp_all add: table_ok_def)
  have "\<not> 1 < gc"
  proof
    assume "1 < gc"
    then obtain i where "i < n" "GetGroupId (slots ! i) = gr_id (groups ! 1)" using t(1) by (auto simp: table_ok_def)
    then have "gr_id (groups ! 1) = gr_id (groups ! 0)" using root g0 by simp
    then show False using t(1) \<open>1 < gc\<close> g0(1) unfolding table_ok_def by (metis zero_neq_one)
  qed
  moreover have fl: "filter (\<lambda>i. GetGroupId (slots ! i) = 0) [0..<n] = [0..<n]" using root by (simp add: filter_id_conv)
  then have n: "gr_instruction_count (groups ! 0) = n"
    using t(1) g0 unfolding table_ok_def by (metis diff_zero length_upt)
  moreover have b: "gr_index_begin (groups ! 0) = 0" using t(2) g0(1) by (simp add: layout_ok_def)
  moreover have "take n indices = sort_key (\<lambda>i. GetMark (slots ! i)) [0..<n]"
    using s [rule_format, OF g0(1)] by (simp add: b n segment_def group_members_def g0(2) fl)
  ultimately show ?thesis using g0(1) by simp
qed

definition painted :: "InstructionMemorySlot list \<Rightarrow> nat \<Rightarrow> 'mb StripManager \<Rightarrow> 'mb StripManager" where
  "painted slots n device = fold (\<lambda>i. paint_slot (slots ! i)) (sort_key (\<lambda>i. GetMark (slots ! i)) [0..<n]) device"

lemma painted_frame:
  "strip_mailbox (painted slots n s) = strip_mailbox s" "strip_ready (painted slots n s) = strip_ready s"
proof -
  have b: "strip_mailbox (paint body s) = strip_mailbox s \<and> strip_ready (paint body s) = strip_ready s" for body and s :: "'a StripManager"
    by (cases body) simp_all
  have p: "strip_mailbox (paint_slot slot s) = strip_mailbox s \<and> strip_ready (paint_slot slot s) = strip_ready s"
    for slot and s :: "'a StripManager"
    using b by (simp add: paint_slot_def split: option.split)
  have "strip_mailbox (fold (\<lambda>i. paint_slot (slots ! i)) is s) = strip_mailbox s
      \<and> strip_ready (fold (\<lambda>i. paint_slot (slots ! i)) is s) = strip_ready s" for "is" and s :: "'a StripManager"
    by (induction "is" arbitrary: s) (simp_all add: p)
  then show "strip_mailbox (painted slots n s) = strip_mailbox s" "strip_ready (painted slots n s) = strip_ready s"
    by (simp_all add: painted_def)
qed

lemma fold_take_index: "n \<le> length xs \<Longrightarrow> fold (\<lambda>j. f (xs ! j)) [0..<n] a = fold f (take n xs) a"
  by (induction n) (simp_all add: take_Suc_conv_app_nth)

text \<open>The state after Start: the root group is about to run, its cursor walks the instructions by mark.\<close>

lemma started_still:
  assumes inv: "ctl_inv c" and idle: "c_state c \<noteq> kActive" and n: "c_instruction_count c = n" "0 < n"
    and still: "still_program (c_instructions c) n"
  defines "ix \<equiv> sort_key (\<lambda>i. GetMark (c_instructions c ! i)) [0..<n]"
  shows "\<exists>c1. Start t0 0 c = (kSuccess, c1) \<and> c_state c1 = kActive \<and> c_executing c1 = [] \<and> c_device c1 = c_device c
    \<and> c_strip c1 = c_strip c \<and> c_get_timestamp c1 = c_get_timestamp c
    \<and> c_schedule_next_run c1 = c_schedule_next_run c \<and> c_group_count c1 = 1 \<and> 0 < length (c_runtimes c1)
    \<and> gr_instruction_count (c_groups c1 ! 0) = n
    \<and> c_runtimes c1 ! 0 = started_runtime (GetTimestamp t0 c) 0 kMaxGroups 0 (GroupRuntime_init\<lparr>rt_record := c_groups c1 ! 0\<rparr>)
    \<and> (\<forall>j<n. group_slot c1 j = c_instructions c ! (ix ! j) \<and> ix ! j < n)"
proof -
  have gid: "\<forall>i<n. GetGroupId (c_instructions c ! i) = 0" using still by (simp add: still_program_def)
  have v: "valid_program (c_instructions c) (c_instruction_count c) 0" using still_program_valid [OF still] n by simp
  have root: "\<exists>i < c_instruction_count c. GetGroupId (c_instructions c ! i) = 0" using n gid by auto
  obtain c1 where st: "Start t0 0 c = (kSuccess, c1)" "ctl_inv c1" "c_executing c1 = []" "c_device c1 = c_device c"
      "c_instruction_count c1 = n" "c_state c1 = kActive" "c_strip c1 = c_strip c" "c_get_timestamp c1 = c_get_timestamp c"
      "c_schedule_next_run c1 = c_schedule_next_run c" and
      ins: "map slot_ResetForReplay (c_instructions c1) = map slot_ResetForReplay (c_instructions c)" and
      rt: "c_runtimes c1 ! 0 = started_runtime (GetTimestamp t0 c) 0 kMaxGroups 0 (GroupRuntime_init\<lparr>rt_record := c_groups c1 ! 0\<rparr>)"
    using Start_ok [OF inv idle, of 0 t0, unfolded if_P [OF v] if_P [OF root]] n(1) by blast
  have live: "live_inv c1" using st by (simp add: ctl_inv_def)
  have len: "length (c_instructions c) = kMaxInstructions" "length (c_instructions c1) = kMaxInstructions" "n \<le> kMaxInstructions"
    using inv st(2) n by (simp_all add: ctl_inv_def base_inv_def)
  have same: "c_instructions c1 ! i = c_instructions c ! i" if "i < n" for i
  proof (rule color_slot_Reset)
    show "slot_ResetForReplay (c_instructions c1 ! i) = slot_ResetForReplay (c_instructions c ! i)"
      using arg_cong [OF ins, of "\<lambda>xs. xs ! i"] that len by simp
  qed (use still that in \<open>simp add: still_program_def\<close>)
  let ?sl = "map slot_ResetForReplay (c_instructions c1)"
  have pool: "pool_ok ?sl n (c_groups c1) (c_group_count c1) (c_group_indices c1)"
    using live st(5) by (simp add: live_inv_def prog_ok_def)
  have "\<forall>i<n. GetGroupId (?sl ! i) = 0" using gid same len by simp
  note og = one_group [OF pool this]
  have key: "sort_key (\<lambda>i. GetMark (?sl ! i)) [0..<n] = ix"
    unfolding ix_def using same len by (intro sort_key_cong) simp_all
  have rec: "rt_record (c_runtimes c1 ! 0) = c_groups c1 ! 0" by (simp add: rt started_runtime_def GroupRuntime_Reset_def)
  have gs: "group_slot c1 j = c_instructions c ! (ix ! j) \<and> ix ! j < n" if "j < n" for j
  proof -
    have "c_group_indices c1 ! j = ix ! j" using og key that nth_take [of j n "c_group_indices c1"] by simp
    moreover have "ix ! j < n" using nth_mem [of j ix] that by (simp add: ix_def)
    ultimately show ?thesis using same og by (simp add: group_slot_def rec)
  qed
  have "length (c_runtimes c1) = kMaxGroups" using live by (simp add: live_inv_def run_ok_def rts_ok_def)
  then have "0 < length (c_runtimes c1)" by (simp add: capacity_simps)
  then show ?thesis using st rt og gs by blast
qed

lemma still_image:
  assumes reach: "reachable send c" and idle: "c_state c \<noteq> kActive" and strip: "c_strip c"
    and n: "c_instruction_count c = n" "0 < n"
    and still: "still_program (c_instructions c) n"
    and due: "\<forall>i<n. ucast (GetMark (c_instructions c ! i)) \<le> GetTimestamp t1 c - GetTimestamp t0 c"
  shows "\<exists>c1 c2. Start t0 0 c = (kSuccess, c1) \<and> Run send t1 c1 = Some (kSuccess, None, True, c2) \<and> c_state c2 = kCompleted
    \<and> c_device c2 = snd (Show send (painted (c_instructions c) n (c_device c)))"
proof -
  let ?ix = "sort_key (\<lambda>i. GetMark (c_instructions c ! i)) [0..<n]"
  obtain c1 where st: "Start t0 0 c = (kSuccess, c1)" "c_state c1 = kActive" "c_executing c1 = []" "c_device c1 = c_device c"
      "c_strip c1 = c_strip c" "c_get_timestamp c1 = c_get_timestamp c" "c_group_count c1 = 1" "0 < length (c_runtimes c1)"
      "gr_instruction_count (c_groups c1 ! 0) = n" and
      rt: "c_runtimes c1 ! 0 = started_runtime (GetTimestamp t0 c) 0 kMaxGroups 0 (GroupRuntime_init\<lparr>rt_record := c_groups c1 ! 0\<rparr>)" and
      gs: "\<forall>j<n. group_slot c1 j = c_instructions c ! (?ix ! j) \<and> ?ix ! j < n"
    using started_still [OF reachable_inv [OF reach] idle n still, of t0] by blast
  have ts: "GetTimestamp t1 c1 = GetTimestamp t1 c" by (simp add: GetTimestamp_def st)
  define c0 where "c0 = c1\<lparr>c_show_requested := False, c_min_scheduled_timeout := 0\<rparr>"
  have g0: "group_slot c0 = group_slot c1" by (intro ext) (simp add: group_slot_def c0_def)
  have slots: "\<forall>j<n. color_slot (group_slot c0 j) \<and> ucast (GetMark (group_slot c0 j)) \<le> GetTimestamp t1 c - GetTimestamp t0 c"
    using gs due still by (simp add: g0 still_program_def)
  obtain rts where rl: "\<not> rt_active (rts ! 0)" "run_loop (GetTimestamp t1 c) kSuccess c0 = Some (kSuccess, c0\<lparr>c_runtimes := rts, c_state := kCompleted,
      c_device := fold (\<lambda>j. paint_slot (group_slot c0 j)) [0..<n] (c_device c0), c_show_requested := True\<rparr>)"
    using run_loop_colors [of c0 n "GetTimestamp t0 c" 0 n "GetTimestamp t1 c" kSuccess] st slots n(2)
    by (auto simp: c0_def rt still_root_def started_runtime_def GroupRuntime_Reset_def GroupRuntime_init_def)
  have paint: "fold (\<lambda>j. paint_slot (group_slot c0 j)) [0..<n] (c_device c0) = painted (c_instructions c) n (c_device c)"
  proof -
    have "fold (\<lambda>j. paint_slot (group_slot c0 j)) [0..<n] d = fold (\<lambda>j. paint_slot (c_instructions c ! (?ix ! j))) [0..<n] d"
      for d :: "'a StripManager"
      using gs by (intro fold_cong) (simp_all add: g0)
    moreover have "fold (\<lambda>j. paint_slot (c_instructions c ! (?ix ! j))) [0..<n] d = fold (\<lambda>i. paint_slot (c_instructions c ! i)) ?ix d"
      for d :: "'a StripManager"
      using fold_take_index [of n ?ix "\<lambda>i. paint_slot (c_instructions c ! i)" d] by simp
    ultimately show ?thesis by (simp add: painted_def c0_def st)
  qed
  define c2 where "c2 = c0\<lparr>c_runtimes := rts, c_state := kCompleted, c_device := painted (c_instructions c) n (c_device c), c_show_requested := True\<rparr>"
  have sch: "ScheduleNextRun (GetTimestamp t1 c) c2 = (None, c2)"
    using st rl(1) by (simp add: ScheduleNextRun_def schedule_group_def c0_def c2_def)
  have f: "c_show_requested c2" "c_strip c2" "c_device c2 = painted (c_instructions c) n (c_device c)" "c_state c2 = kCompleted"
    using strip st by (simp_all add: c2_def c0_def)
  have "Run send t1 c1 = Some (kSuccess, None, True, c2\<lparr>c_device := snd (Show send (c_device c2))\<rparr>)"
    unfolding Run_def ts Let_def c0_def [symmetric] using st(2) rl(2) sch f by (simp add: paint c2_def [symmetric])
  then show ?thesis using st(1) f by auto
qed

section \<open>Property\<close>

text \<open>
  C7. A still picture appears at once. Take any stored program of color instructions in the root
  group whose marks have all been reached when the controller ticks. Start followed by one Run
  succeeds, completes the program, asks for no further tick, and commits to the strip exactly the
  picture obtained by painting the instructions over the previous one in the order of their marks,
  those with equal marks in the order in which they were added.
\<close>

theorem still_program_shown:
  assumes "reachable send c" "c_state c \<noteq> kActive" "c_strip c" "c_instruction_count c = n" "0 < n"
    and "still_program (c_instructions c) n"
    and "\<forall>i<n. ucast (GetMark (c_instructions c ! i)) \<le> GetTimestamp t1 c - GetTimestamp t0 c"
  shows "\<exists>c1 c2. Start t0 0 c = (kSuccess, c1) \<and> Run send t1 c1 = Some (kSuccess, None, True, c2) \<and> c_state c2 = kCompleted
    \<and> c_device c2 = snd (Show send (fold (\<lambda>i. paint_slot (c_instructions c ! i))
        (sort_key (\<lambda>i. GetMark (c_instructions c ! i)) [0..<n]) (c_device c)))"
  using still_image [OF assms] by (simp add: painted_def)

definition demo_still :: "SharedFrame list Controller" where
  "demo_still = snd (AddInstruction (Some (instr 5 0 (SetSingleColor (rgb 7 7 7) 2)))
     (snd (AddInstruction (Some (instr 9 0 (SetSingleColor (rgb 1 2 3) 2))) demo_controller)))"

lemma demo_still_facts:
  "reachable fifo_send demo_still" "c_state demo_still \<noteq> kActive" "c_strip demo_still" "c_instruction_count demo_still = 2"
  "still_program (c_instructions demo_still) 2" "c_get_timestamp demo_still"
  "map GetMark (take 2 (c_instructions demo_still)) = [9, 5]"
proof -
  show "reachable fifo_send demo_still"
    unfolding demo_still_def by (intro reachable.step [OF _ ctl_step.add] reachable_demo(1))
  have "\<forall>i\<in>{0, 1}. color_slot (c_instructions demo_still ! i) \<and> GetGroupId (c_instructions demo_still ! i) = 0" by code_simp
  then show "still_program (c_instructions demo_still) 2" by (auto simp: still_program_def less_2_cases_iff)
qed code_simp+

theorem still_program_shown_witness:
  "\<exists>c1 c2. Start 100 0 demo_still = (kSuccess, c1) \<and> Run fifo_send 110 c1 = Some (kSuccess, None, True, c2)
    \<and> LedColor (c_device c2) 2 = rgb 1 2 3"
proof -
  have m: "GetMark (c_instructions demo_still ! 0) = 9" "GetMark (c_instructions demo_still ! 1) = 5" by code_simp+
  have "\<forall>i<2. ucast (GetMark (c_instructions demo_still ! i)) \<le> GetTimestamp 110 demo_still - GetTimestamp 100 demo_still"
    using m by (auto simp: less_2_cases_iff GetTimestamp_def demo_still_facts(6) word_le_nat_alt)
  moreover have "sort_key (\<lambda>i. GetMark (c_instructions demo_still ! i)) [0..<2] = [1, 0]"
    using m by (simp add: upt_conv_Cons word_le_nat_alt)
  moreover have "LedColor (snd (Show fifo_send (paint_slot (c_instructions demo_still ! 0) (paint_slot (c_instructions demo_still ! 1)
      (c_device demo_still))))) 2 = rgb 1 2 3" by code_simp
  ultimately show ?thesis
    using still_program_shown [OF demo_still_facts(1-4) _ demo_still_facts(5), of 110 100] by auto
qed

end
