(* ===== verification/Timeline.thy ===== *)
theory Timeline
  imports StillImage
begin

text \<open>
  The animation a program of color instructions plays over several ticks: which instructions each
  tick executes, what the strip stages after it, whether it is shown, and which delay is asked for.
\<close>

section \<open>Pictures\<close>

text \<open>Two strips that stage the same picture; they may differ in the mailbox and the frame header.\<close>

definition same_picture :: "'mb StripManager \<Rightarrow> 'mb StripManager \<Rightarrow> bool" where
  "same_picture s s' \<longleftrightarrow> strip_ready s' = strip_ready s \<and> strip_led_count s' = strip_led_count s
     \<and> frame_colors (staged_frame s') = frame_colors (staged_frame s)"

lemma same_picture_refl [simp]: "same_picture s s"
  by (simp add: same_picture_def)

lemma same_picture_trans: "same_picture a b \<Longrightarrow> same_picture b c \<Longrightarrow> same_picture a c"
  by (simp add: same_picture_def)

lemma same_picture_Show: "same_picture s (snd (Show send s))"
  by (simp add: same_picture_def Show_def Let_def split: prod.split)

lemma same_picture_set_led: "same_picture s s' \<Longrightarrow> same_picture (set_led s i c) (set_led s' i c)"
  by (auto simp: same_picture_def set_led_def Led_def SetLedColor_def)

lemma same_picture_fold:
  assumes "\<And>x a b. x \<in> set xs \<Longrightarrow> same_picture a b \<Longrightarrow> same_picture (f x a) (f x b)" "same_picture s s'"
  shows "same_picture (fold f xs s) (fold f xs s')"
  using assms by (induction xs arbitrary: s s') simp_all

lemma same_picture_paint: "same_picture s s' \<Longrightarrow> same_picture (paint_slot slot s) (paint_slot slot s')"
proof -
  assume s: "same_picture s s'"
  have r: "same_picture (set_range c r s) (set_range c r s')" for c r
    unfolding set_range_def by (intro same_picture_fold same_picture_set_led s)
  have "same_picture (paint b s) (paint b s')" for b
    using s by (cases b) (simp_all add: r same_picture_set_led)
  with s show ?thesis by (simp add: paint_slot_def split: option.split)
qed

section \<open>The instructions due at a time\<close>

lemma sorted_due_prefix:
  fixes b :: "'a :: linorder"
  shows "sorted (map f xs) \<Longrightarrow> filter (\<lambda>x. f x \<le> b) xs = take (length (filter (\<lambda>x. f x \<le> b) xs)) xs"
proof (induction xs)
  case (Cons x xs)
  show ?case
  proof (cases "f x \<le> b")
    case False
    then have "\<forall>y\<in>set xs. \<not> f y \<le> b" using Cons.prems by auto
    then show ?thesis using False by (simp add: filter_False)
  qed (use Cons in simp)
qed simp

definition by_mark :: "InstructionMemorySlot list \<Rightarrow> nat \<Rightarrow> nat list" where
  "by_mark slots n = sort_key (\<lambda>i. GetMark (slots ! i)) [0..<n]"

definition marks :: "InstructionMemorySlot list \<Rightarrow> nat \<Rightarrow> u32 list" where
  "marks slots n = map (\<lambda>i. ucast (GetMark (slots ! i))) (by_mark slots n)"

definition due_count :: "u32 list \<Rightarrow> u32 \<Rightarrow> nat" where
  "due_count ms elapsed = length (filter (\<lambda>x. x \<le> elapsed) ms)"

lemma ucast_mono: "(a :: u16) \<le> b \<Longrightarrow> (ucast a :: u32) \<le> ucast b"
  by (simp add: word_le_nat_alt word_nat)

lemma sorted_marks: "sorted (marks slots n)"
proof -
  have "sorted (map (\<lambda>i. GetMark (slots ! i)) (by_mark slots n))" by (simp add: by_mark_def)
  then show ?thesis unfolding marks_def sorted_map by (rule sorted_wrt_mono_rel [rotated]) (simp add: ucast_mono)
qed

lemma length_marks [simp]: "length (marks slots n) = n"
  by (simp add: marks_def by_mark_def)

lemma due_prefix: "sorted ms \<Longrightarrow> filter (\<lambda>x. x \<le> e) ms = take (due_count ms e) ms"
  using sorted_due_prefix [of "\<lambda>x. x" ms e] by (simp add: due_count_def)

lemma due_count_le: "due_count ms e \<le> length ms"
  by (simp add: due_count_def)

lemma due_before:
  assumes "sorted ms" "j < due_count ms e"
  shows "ms ! j \<le> e"
proof -
  have "ms ! j = filter (\<lambda>x. x \<le> e) ms ! j" using due_prefix [OF assms(1), of e] assms(2) by simp
  moreover have "j < length (filter (\<lambda>x. x \<le> e) ms)" using assms(2) by (simp add: due_count_def)
  ultimately show ?thesis using nth_mem [of j "filter (\<lambda>x. x \<le> e) ms"] by simp
qed

lemma due_after:
  assumes "sorted ms" "due_count ms e < length ms"
  shows "e < ms ! due_count ms e"
proof (rule ccontr)
  let ?k = "due_count ms e"
  assume "\<not> e < ms ! ?k"
  then have "\<forall>x\<in>set (take (Suc ?k) ms). x \<le> e"
    using assms due_before [OF assms(1)] by (auto simp: in_set_conv_nth less_Suc_eq not_less)
  then have "filter (\<lambda>x. x \<le> e) (take (Suc ?k) ms) = take (Suc ?k) ms" by (simp add: filter_id_conv)
  then have "length (filter (\<lambda>x. x \<le> e) (take (Suc ?k) ms @ drop (Suc ?k) ms)) \<ge> Suc ?k"
    using assms(2) by (simp only: filter_append length_append) simp
  then show False by (simp add: due_count_def)
qed

lemma due_count_mono: "e \<le> e' \<Longrightarrow> due_count ms e \<le> due_count ms e'"
  unfolding due_count_def by (induction ms) auto

lemma due_by_mark:
  "filter (\<lambda>i. ucast (GetMark (slots ! i)) \<le> e) (by_mark slots n) = take (due_count (marks slots n) e) (by_mark slots n)"
proof -
  let ?f = "\<lambda>i. ucast (GetMark (slots ! i)) :: u32"
  have "due_count (marks slots n) e = length (filter (\<lambda>i. ?f i \<le> e) (by_mark slots n))"
    by (simp add: due_count_def marks_def filter_map comp_def)
  then show ?thesis using sorted_due_prefix [of ?f "by_mark slots n" e] sorted_marks [of slots n] by (simp add: marks_def)
qed

section \<open>One tick\<close>

text \<open>A program of color instructions started at \<open>t0\<close>, of which the first \<open>k\<close> by mark are executed.\<close>

definition still_run :: "InstructionMemorySlot list \<Rightarrow> nat \<Rightarrow> u32 \<Rightarrow> nat \<Rightarrow> 'mb Controller \<Rightarrow> bool" where
  "still_run slots n t0 k c \<longleftrightarrow> c_group_count c = 1 \<and> c_executing c = [] \<and> 0 < length (c_runtimes c)
     \<and> c_strip c \<and> c_get_timestamp c \<and> c_schedule_next_run c \<and> k \<le> n
     \<and> (if k = n then c_state c = kCompleted
        else c_state c = kActive \<and> still_root n t0 k (c_runtimes c ! 0)
          \<and> (\<forall>j<n. group_slot c j = slots ! (by_mark slots n ! j)))"

definition paint_from :: "InstructionMemorySlot list \<Rightarrow> nat list \<Rightarrow> 'mb StripManager \<Rightarrow> 'mb StripManager" where
  "paint_from slots is s = fold (\<lambda>i. paint_slot (slots ! i)) is s"

lemma same_picture_paint_from: "same_picture s s' \<Longrightarrow> same_picture (paint_from slots is s) (paint_from slots is s')"
  unfolding paint_from_def by (intro same_picture_fold same_picture_paint)

lemma by_mark_slots:
  assumes "still_program slots n" "j < n"
  shows "by_mark slots n ! j < n" "color_slot (slots ! (by_mark slots n ! j))"
    "ucast (GetMark (slots ! (by_mark slots n ! j))) = marks slots n ! j"
proof -
  have "by_mark slots n ! j \<in> set (by_mark slots n)" using assms(2) by (intro nth_mem) (simp add: by_mark_def)
  then show "by_mark slots n ! j < n" by (simp add: by_mark_def)
  then show "color_slot (slots ! (by_mark slots n ! j))" using assms(1) by (simp add: still_program_def)
  show "ucast (GetMark (slots ! (by_mark slots n ! j))) = marks slots n ! j"
    using assms(2) by (simp add: marks_def by_mark_def)
qed

lemma fold_index_segment:
  "k \<le> m \<Longrightarrow> m \<le> length xs \<Longrightarrow> fold (\<lambda>j. f (xs ! j)) [k..<m] a = fold f (drop k (take m xs)) a"
proof (induction m)
  case (Suc m)
  show ?case
  proof (cases "k = Suc m")
    case False
    then show ?thesis using Suc by (simp add: take_Suc_conv_app_nth)
  qed simp
qed simp

lemma schedule_still:
  assumes "c_group_count c = 1" "c_executing c = []" "c_min_scheduled_timeout c = 0" "c_schedule_next_run c"
    and "if m = n then \<not> rt_active (c_runtimes c ! 0)
      else still_root n t0 m (c_runtimes c ! 0) \<and> m < n \<and> ts - t0 < ucast (GetMark (group_slot c m))"
  shows "\<exists>d. ScheduleNextRun ts c =
    (if m = n then None else Some (ucast (GetMark (group_slot c m)) - (ts - t0)), c\<lparr>c_min_scheduled_timeout := d\<rparr>)"
proof (cases "m = n")
  case True
  have "c = c\<lparr>c_min_scheduled_timeout := 0\<rparr>" using assms(3) by simp
  then show ?thesis using True assms by (intro exI [of _ 0]) (simp add: ScheduleNextRun_def schedule_group_def)
next
  case False
  have s: "c_instructions c ! cursor_slot 0 c = group_slot c m"
    using assms(5) False by (simp add: cursor_slot_def group_slot_def still_root_def)
  have "ts - t0 < ucast (GetMark (group_slot c m))" using assms(5) False by simp
  then have "ucast (GetMark (group_slot c m)) - (ts - t0) \<noteq> 0" by auto
  then show ?thesis
    using assms False s by (intro exI [of _ "ucast (GetMark (group_slot c m)) - (ts - t0)"])
      (simp add: ScheduleNextRun_def schedule_group_def still_root_def ScheduleTimeout_def word_gt_0 Let_def)
qed

lemma still_tick:
  assumes still: "still_program slots n" and run: "still_run slots n t0 k c"
    and m: "m = due_count (marks slots n) (t - t0)" "k \<le> m"
  shows "\<exists>c'. Run send t c = Some (kSuccess, if m = n then None else Some (marks slots n ! m - (t - t0)), k < m, c')
    \<and> still_run slots n t0 m c' \<and> same_picture (paint_from slots (drop k (take m (by_mark slots n))) (c_device c)) (c_device c')"
proof (cases "k = n")
  case True
  then have "m = n" using m due_count_le [of "marks slots n" "t - t0"] by simp
  then show ?thesis using True run by (simp add: still_run_def Run_def paint_from_def)
next
  case False
  have mn: "m \<le> n" "k < n" using m(1) due_count_le [of "marks slots n" "t - t0"] False run by (simp_all add: still_run_def)
  have c: "c_group_count c = 1" "c_executing c = []" "0 < length (c_runtimes c)" "c_state c = kActive"
      "still_root n t0 k (c_runtimes c ! 0)" and gs: "\<forall>j<n. group_slot c j = slots ! (by_mark slots n ! j)"
    using run False by (simp_all add: still_run_def)
  define c1 where "c1 = c\<lparr>c_show_requested := False, c_min_scheduled_timeout := 0\<rparr>"
  have gs1: "group_slot c1 j = slots ! (by_mark slots n ! j)" if "j < n" for j
    using gs that by (simp add: group_slot_def c1_def)
  have due: "\<forall>j<m. color_slot (group_slot c1 j) \<and> ucast (GetMark (group_slot c1 j)) \<le> t - t0"
    using by_mark_slots [OF still] due_before [OF sorted_marks] mn m(1) by (simp add: gs1)
  have next_mark: "t - t0 < ucast (GetMark (group_slot c1 m))" "ucast (GetMark (group_slot c1 m)) = marks slots n ! m" if "m < n"
    using by_mark_slots(3) [OF still that] due_after [OF sorted_marks, of slots n "t - t0"] that m(1) by (simp_all add: gs1)
  obtain rts where rts: "length rts = length (c_runtimes c1)" "rt_record (rts ! 0) = rt_record (c_runtimes c1 ! 0)"
      "if m = n then \<not> rt_active (rts ! 0) else still_root n t0 m (rts ! 0)"
    and loop: "run_loop t kSuccess c1 = Some (kSuccess, c1\<lparr>c_runtimes := rts, c_state := (if m = n then kCompleted else c_state c1),
         c_device := fold (\<lambda>j. paint_slot (group_slot c1 j)) [k..<m] (c_device c1), c_show_requested := c_show_requested c1 \<or> k < m\<rparr>)"
    using run_loop_colors [of c1 n t0 k m t kSuccess] c mn m(2) due next_mark by (auto simp: c1_def)
  define pic where "pic = paint_from slots (drop k (take m (by_mark slots n))) (c_device c)"
  have pic: "fold (\<lambda>j. paint_slot (group_slot c1 j)) [k..<m] (c_device c1) = pic"
  proof -
    have "fold (\<lambda>j. paint_slot (group_slot c1 j)) [k..<m] (c_device c1) = fold (\<lambda>j. paint_slot (slots ! (by_mark slots n ! j))) [k..<m] (c_device c)"
      using mn gs1 by (intro fold_cong) (simp_all add: c1_def)
    then show ?thesis
      using fold_index_segment [OF m(2), of "by_mark slots n" "\<lambda>i. paint_slot (slots ! i)" "c_device c"] mn
      by (simp add: pic_def paint_from_def by_mark_def)
  qed
  define c2 where "c2 = c1\<lparr>c_runtimes := rts, c_state := (if m = n then kCompleted else kActive), c_device := pic, c_show_requested := k < m\<rparr>"
  have loop2: "run_loop t kSuccess c1 = Some (kSuccess, c2)"
    using loop pic c(4) by (simp add: c2_def c1_def)
  have gs2: "group_slot c2 j = group_slot c1 j" for j by (simp add: group_slot_def c2_def rts(2))
  obtain d where sch: "ScheduleNextRun t c2 = (if m = n then None else Some (marks slots n ! m - (t - t0)), c2\<lparr>c_min_scheduled_timeout := d\<rparr>)"
  proof -
    have "c_schedule_next_run c" using run by (simp add: still_run_def)
    then have a: "c_group_count c2 = 1" "c_executing c2 = []" "c_min_scheduled_timeout c2 = 0" "c_schedule_next_run c2"
      "c_runtimes c2 = rts" using c by (simp_all add: c2_def c1_def)
    have b: "if m = n then \<not> rt_active (c_runtimes c2 ! 0) else still_root n t0 m (c_runtimes c2 ! 0) \<and> m < n
        \<and> t - t0 < ucast (GetMark (group_slot c2 m))"
    proof (cases "m = n")
      case False
      then have "m < n" using mn by simp
      with False show ?thesis using rts(3) next_mark(1) by (simp add: a(5) gs2)
    qed (use rts(3) in \<open>simp add: a(5)\<close>)
    obtain d where s: "ScheduleNextRun t c2 =
        (if m = n then None else Some (ucast (GetMark (group_slot c2 m)) - (t - t0)), c2\<lparr>c_min_scheduled_timeout := d\<rparr>)"
      using schedule_still [OF a(1-4) b] by blast
    have "(if m = n then None else Some (ucast (GetMark (group_slot c2 m)) - (t - t0)))
        = (if m = n then None else Some (marks slots n ! m - (t - t0)))"
      using next_mark(2) mn by (cases "m = n") (simp_all add: gs2)
    with s that show thesis by simp
  qed
  define c3 where "c3 = c2\<lparr>c_min_scheduled_timeout := d, c_device := (if k < m then snd (Show send pic) else pic)\<rparr>"
  have strip: "c_strip c2" and ts: "GetTimestamp t c = t" using run by (simp_all add: c2_def c1_def still_run_def GetTimestamp_def)
  have "Run send t c = Some (kSuccess, if m = n then None else Some (marks slots n ! m - (t - t0)), k < m, c3)"
    unfolding Run_def ts Let_def c1_def [symmetric]
    using c(4) loop2 sch strip by (simp add: c3_def) (auto simp: c2_def)
  moreover have "still_run slots n t0 m c3"
    using run rts mn c gs1 by (auto simp: still_run_def c3_def c2_def c1_def group_slot_def)
  moreover have "same_picture pic (c_device c3)" by (simp add: c3_def same_picture_Show)
  ultimately show ?thesis unfolding pic_def by blast
qed

section \<open>Ticks at given times\<close>

text \<open>
  Ticks at the times \<open>t0 + e\<close>. Before each the other task may have taken frames from the mailbox,
  which is then \<open>mb\<close>. The outputs are those of Run: status, delay asked for, whether a frame was
  committed.
\<close>

fun run_at :: "('mb \<Rightarrow> SharedFrame \<Rightarrow> status \<times> 'mb) \<Rightarrow> u32 \<Rightarrow> (u32 \<times> 'mb) list \<Rightarrow> 'mb Controller
    \<Rightarrow> ((ControllerStatus \<times> u32 option \<times> bool) list \<times> 'mb Controller) option" where
  "run_at send t0 [] c = Some ([], c)"
| "run_at send t0 ((e, mb) # env) c =
     (case Run send (t0 + e) (c\<lparr>c_device := (c_device c)\<lparr>strip_mailbox := mb\<rparr>\<rparr>) of
        None \<Rightarrow> None
      | Some (st, next, shown, c') \<Rightarrow>
          (case run_at send t0 env c' of None \<Rightarrow> None | Some (outs, c2) \<Rightarrow> Some ((st, next, shown) # outs, c2)))"

text \<open>
  What the ticks of a program of color instructions must answer, from the marks and the elapsed
  times alone: a frame is committed when marks were passed since the last tick, and the delay asked
  for leads to the next mark.
\<close>

fun still_outputs :: "u32 list \<Rightarrow> nat \<Rightarrow> u32 list \<Rightarrow> (ControllerStatus \<times> u32 option \<times> bool) list" where
  "still_outputs ms k [] = []"
| "still_outputs ms k (e # es) = (let m = due_count ms e in
     (kSuccess, if m = length ms then None else Some (ms ! m - e), k < m) # still_outputs ms m es)"

lemma still_run_mailbox:
  "still_run slots n t0 k c \<Longrightarrow> still_run slots n t0 k (c\<lparr>c_device := d\<rparr>)"
  by (auto simp: still_run_def group_slot_def)

lemma paint_from_append: "paint_from slots ys (paint_from slots xs s) = paint_from slots (xs @ ys) s"
  by (simp add: paint_from_def)

lemma take_drop_append: fixes xs :: "'a list" shows "k \<le> m \<Longrightarrow> m \<le> l \<Longrightarrow> drop k (take m xs) @ drop m (take l xs) = drop k (take l xs)"
proof -
  assume k: "k \<le> m" "m \<le> l"
  have "take m xs @ drop m (take l xs) = take l xs"
    using k(2) append_take_drop_id [of m "take l xs"] by (simp add: min_absorb1)
  then have "drop k (take m xs @ drop m (take l xs)) = drop k (take l xs)" by simp
  then show ?thesis using k by (cases "m \<le> length xs") simp_all
qed

lemma still_ticks:
  assumes "still_program slots n" "still_run slots n t0 k c" "sorted (map fst env)"
    and "\<forall>e\<in>set (map fst env). k \<le> due_count (marks slots n) e"
  defines "l \<equiv> if env = [] then k else due_count (marks slots n) (fst (last env))"
  shows "\<exists>c'. run_at send t0 env c = Some (still_outputs (marks slots n) k (map fst env), c')
    \<and> still_run slots n t0 l c' \<and> same_picture (paint_from slots (drop k (take l (by_mark slots n))) (c_device c)) (c_device c')"
  using assms(2-4) unfolding l_def
proof (induction env arbitrary: k c)
  case Nil
  then show ?case by (simp add: paint_from_def)
next
  case (Cons x env)
  obtain e mb where x: "x = (e, mb)" by (cases x)
  let ?c = "c\<lparr>c_device := (c_device c)\<lparr>strip_mailbox := mb\<rparr>\<rparr>" and ?m = "due_count (marks slots n) e"
  let ?l = "if env = [] then ?m else due_count (marks slots n) (fst (last env))"
  have k: "k \<le> ?m" using Cons.prems(3) by (simp add: x)
  obtain c1 where run: "Run send (t0 + e) ?c = Some (kSuccess, if ?m = n then None else Some (marks slots n ! ?m - e), k < ?m, c1)"
    and c1: "still_run slots n t0 ?m c1" "same_picture (paint_from slots (drop k (take ?m (by_mark slots n))) (c_device ?c)) (c_device c1)"
    using still_tick [OF assms(1) still_run_mailbox [OF Cons.prems(1)], of ?m "t0 + e" send "(c_device c)\<lparr>strip_mailbox := mb\<rparr>"] k by auto
  have later: "\<forall>e'\<in>set (map fst env). ?m \<le> due_count (marks slots n) e'"
    using Cons.prems(2) due_count_mono by (auto simp: x)
  obtain c2 where c2: "run_at send t0 env c1 = Some (still_outputs (marks slots n) ?m (map fst env), c2)" "still_run slots n t0 ?l c2"
      "same_picture (paint_from slots (drop ?m (take ?l (by_mark slots n))) (c_device c1)) (c_device c2)"
    using Cons.IH [OF c1(1) _ later] Cons.prems(2) by (auto simp: x)
  have ml: "?m \<le> ?l" using later by simp
  have "same_picture (paint_from slots (drop ?m (take ?l (by_mark slots n)))
      (paint_from slots (drop k (take ?m (by_mark slots n))) (c_device ?c))) (c_device c2)"
    by (rule same_picture_trans [OF same_picture_paint_from [OF c1(2)] c2(3)])
  then have "same_picture (paint_from slots (drop k (take ?l (by_mark slots n))) (c_device ?c)) (c_device c2)"
    by (simp only: paint_from_append take_drop_append [OF k ml])
  moreover have "same_picture (c_device c) (c_device ?c)" by (simp add: same_picture_def)
  ultimately have pic: "same_picture (paint_from slots (drop k (take ?l (by_mark slots n))) (c_device c)) (c_device c2)"
    using same_picture_trans [OF same_picture_paint_from] by blast
  have l: "(if x # env = [] then k else due_count (marks slots n) (fst (last (x # env)))) = ?l" by (simp add: x)
  show ?case unfolding l using run c2(1,2) pic by (simp add: x Let_def)
qed

section \<open>Property\<close>

lemma due_count_all: "due_count (marks slots n) e = n \<longleftrightarrow> (\<forall>i<n. ucast (GetMark (slots ! i)) \<le> e)"
proof -
  let ?f = "\<lambda>i. ucast (GetMark (slots ! i)) \<le> e"
  have "due_count (marks slots n) e = length (filter ?f (by_mark slots n))"
    by (simp add: due_count_def marks_def filter_map comp_def)
  then have "due_count (marks slots n) e = n \<longleftrightarrow> length (filter ?f (by_mark slots n)) = length (by_mark slots n)"
    by (simp add: by_mark_def)
  moreover have all: "length (filter ?f xs) = length xs \<longleftrightarrow> (\<forall>i\<in>set xs. ?f i)" for xs
  proof (cases "\<forall>i\<in>set xs. ?f i")
    case False
    then obtain i where "i \<in> set xs" "\<not> ?f i" by blast
    then show ?thesis using length_filter_less [of i xs ?f] by auto
  qed simp
  ultimately show ?thesis using all [of "by_mark slots n"] by (auto simp: by_mark_def)
qed

text \<open>
  C8. A program of color instructions plays its time line. Take any stored program of color
  instructions in the root group, and tick the controller at any times after Start that do not go
  backwards; the other task may take frames in between. Every tick succeeds; it commits a frame
  exactly when a mark was passed since the tick before, and asks for the delay to the next mark, and
  for none after the last. After the last tick the strip stages the picture that the instructions
  whose marks were reached paint, in the order of their marks, and the program is completed exactly
  when all were.
\<close>

theorem still_animation:
  assumes "reachable send c" "c_state c \<noteq> kActive" "c_strip c" "c_get_timestamp c" "c_schedule_next_run c"
    and "c_instruction_count c = n" "0 < n" "still_program (c_instructions c) n"
    and "env \<noteq> []" "sorted (map fst env)"
  shows "let slots = c_instructions c; due = \<lambda>i. ucast (GetMark (slots ! i)) \<le> fst (last env) in
    \<exists>c1 c2. Start t0 0 c = (kSuccess, c1)
    \<and> run_at send t0 env c1 = Some (still_outputs (map (\<lambda>i. ucast (GetMark (slots ! i))) (sort_key (\<lambda>i. GetMark (slots ! i)) [0..<n])) 0
          (map fst env), c2)
    \<and> same_picture (fold (\<lambda>i. paint_slot (slots ! i)) (filter due (sort_key (\<lambda>i. GetMark (slots ! i)) [0..<n])) (c_device c)) (c_device c2)
    \<and> c_state c2 = (if \<forall>i<n. due i then kCompleted else kActive)"
proof -
  define slots where "slots = c_instructions c"
  define due where "due = (\<lambda>i. ucast (GetMark (slots ! i)) \<le> fst (last env))"
  let ?l = "due_count (marks slots n) (fst (last env))"
  have ts: "GetTimestamp t0 c = t0" using assms(4) by (simp add: GetTimestamp_def)
  obtain c1 where st: "Start t0 0 c = (kSuccess, c1)" "c_state c1 = kActive" "c_executing c1 = []" "c_device c1 = c_device c"
      "c_strip c1 = c_strip c" "c_get_timestamp c1 = c_get_timestamp c" "c_schedule_next_run c1 = c_schedule_next_run c"
      "c_group_count c1 = 1" "0 < length (c_runtimes c1)" "gr_instruction_count (c_groups c1 ! 0) = n" and
      rt: "c_runtimes c1 ! 0 = started_runtime (GetTimestamp t0 c) 0 kMaxGroups 0 (GroupRuntime_init\<lparr>rt_record := c_groups c1 ! 0\<rparr>)" and
      gs: "\<forall>j<n. group_slot c1 j = slots ! (by_mark slots n ! j)"
    using started_still [OF reachable_inv [OF assms(1)] assms(2,6-8), of t0] unfolding slots_def by_mark_def by blast
  have "still_root n t0 0 (c_runtimes c1 ! 0)"
    using rt st(10) by (simp add: ts still_root_def started_runtime_def GroupRuntime_Reset_def GroupRuntime_init_def)
  then have run: "still_run slots n t0 0 c1" using st assms(3-5,7) gs by (simp add: still_run_def)
  obtain c2 where c2: "run_at send t0 env c1 = Some (still_outputs (marks slots n) 0 (map fst env), c2)" "still_run slots n t0 ?l c2"
      "same_picture (paint_from slots (take ?l (by_mark slots n)) (c_device c)) (c_device c2)"
    using still_ticks [OF _ run assms(10)] assms(8,9) by (auto simp: slots_def st(4))
  have "c_state c2 = (if ?l = n then kCompleted else kActive)" using c2(2) by (simp add: still_run_def split: if_splits)
  then have "c_state c2 = (if \<forall>i<n. due i then kCompleted else kActive)" by (simp add: due_count_all due_def)
  moreover have "take ?l (by_mark slots n) = filter due (by_mark slots n)"
    using due_by_mark [of slots "fst (last env)" n] by (simp add: due_def)
  ultimately show ?thesis using st(1) c2(1,3)
    unfolding Let_def slots_def [symmetric] due_def [symmetric]
    by - (rule exI [of _ c1], rule exI [of _ c2], simp add: marks_def by_mark_def paint_from_def due_def)
qed

theorem still_animation_witness:
  "\<exists>c1 c2. Start 100 0 demo_still = (kSuccess, c1)
    \<and> run_at fifo_send 100 [(2, []), (6, []), (8, []), (20, [])] c1 = Some
        ([(kSuccess, Some 3, False), (kSuccess, Some 3, True), (kSuccess, Some 1, False), (kSuccess, None, True)], c2)
    \<and> c_state c2 = kCompleted"
proof -
  have m: "GetMark (c_instructions demo_still ! 0) = 9" "GetMark (c_instructions demo_still ! 1) = 5"
    and s: "c_schedule_next_run demo_still" by code_simp+
  have "sort_key (\<lambda>i. GetMark (c_instructions demo_still ! i)) [0..<2] = [1, 0]"
    using m by (simp add: upt_conv_Cons word_le_nat_alt)
  moreover have "still_outputs [5, 9] 0 [2, 6, 8, 20] =
      [(kSuccess, Some 3, False), (kSuccess, Some 3, True), (kSuccess, Some 1, False), (kSuccess, None, True)]" by code_simp
  moreover have "sorted (map fst [(2 :: u32, [] :: SharedFrame list), (6, []), (8, []), (20, [])])" by (simp add: word_le_nat_alt)
  moreover note still_animation [OF demo_still_facts(1-3,6) s demo_still_facts(4) _ demo_still_facts(5),
      of "[(2, []), (6, []), (8, []), (20, [])]" 100, unfolded Let_def]
  ultimately show ?thesis
    using m by (auto simp: less_2_cases_iff word_le_nat_alt simp del: run_at.simps still_outputs.simps)
qed

end
