(* ===== verification/Completion.thy ===== *)
theory Completion
  imports ControllerProps
begin

text \<open>
  A finite program is played to its end. A program is finite when nothing in it repeats forever; the
  work left in it is the multiset of its groups' remaining calls and repeats, weighted by the call
  graph of the preflight, and then the time left to its Fades and Gradients. Every piece of progress
  of a tick leaves less (the second client of the locale \<open>round_steps\<close> of \<^theory_text>\<open>Ticks\<close>), a tick at or
  after the scheduled time makes some progress, and so the ticks come to an end.
\<close>

section \<open>Timed instructions get nearer to their end\<close>

text \<open>A started Fade or Gradient: its start time and its duration.\<close>

fun body_timer :: "instr_body \<Rightarrow> (u32 \<times> u32) option" where
  "body_timer (Fade f) = (if fade_started f then Some (fade_start_time f, ucast (fade_duration_ms f)) else None)"
| "body_timer (Gradient g) = (if grad_started g then Some (grad_start_time g, ucast (grad_duration_ms g)) else None)"
| "body_timer _ = None"

definition timer :: "InstructionMemorySlot \<Rightarrow> (u32 \<times> u32) option" where
  "timer slot = (case slot of None \<Rightarrow> None | Some i \<Rightarrow> body_timer (i_body i))"

text \<open>
  An instruction that waits for \<open>deadline\<close> has started, and the deadline lies within its duration;
  what is left of the duration at the deadline.
\<close>

definition timed_ok :: "InstructionMemorySlot \<Rightarrow> u32 \<Rightarrow> bool" where
  "timed_ok slot deadline \<longleftrightarrow>
     (case timer slot of None \<Rightarrow> False | Some (start, duration) \<Rightarrow> deadline - start \<le> duration)"

definition time_left :: "InstructionMemorySlot \<Rightarrow> u32 \<Rightarrow> nat" where
  "time_left slot deadline =
     (case timer slot of None \<Rightarrow> 0 | Some (start, duration) \<Rightarrow> unat duration - unat (deadline - start))"

lemma delay_within:
  assumes "0 < p" "e < d"
  shows "unat e + unat (DelayToFadeUpdate t (d - e) p) \<le> unat d"
proof -
  have e: "unat e < unat d" using assms(2) by (simp add: word_less_nat_alt)
  then have u: "unat (d - e) = unat d - unat e" by (simp add: unat_diff_u32)
  then have "0 < d - e" using e by (simp add: word_less_nat_alt)
  from delay_update_bounds(2) [OF assms(1) this, of t] show ?thesis using u e by simp
qed

lemma delay_within_first: "0 < p \<Longrightarrow> d \<noteq> 0 \<Longrightarrow> unat (DelayToFadeUpdate t d p) \<le> unat d"
  using delay_within [of p 0 d t] by (simp add: word_gt_0)

lemma body_Execute_timer:
  assumes "body_Execute p ts b s = (delay, show, b', s')" "0 < p" "delay \<noteq> 0"
  shows "\<exists>duration. unat duration \<le> 65535 \<and>
    (body_timer b = None \<and> body_timer b' = Some (ts, duration) \<and> unat delay \<le> unat duration
     \<or> (\<exists>start. body_timer b = Some (start, duration) \<and> body_timer b' = Some (start, duration)
          \<and> unat (ts - start) + unat delay \<le> unat duration))"
proof (cases b)
  case (Fade f)
  let ?d = "ucast (fade_duration_ms f) :: u32"
  have d: "unat ?d \<le> 65535" "fade_duration_ms f \<noteq> 0 \<Longrightarrow> ?d \<noteq> 0" by (simp_all add: word_nat word_unat_eq_iff)
  from assms Fade obtain led where led: "Led s (unat (fade_index f)) = Some led"
    by (auto simp: Fade_Execute_def split: option.splits)
  show ?thesis
    using assms Fade led d delay_within_first [OF assms(2) d(2)] delay_within [OF assms(2)]
    by (cases "fade_started f") (auto simp: Fade_Execute_def Let_def not_le split: if_splits)
next
  case (Gradient g)
  let ?d = "ucast (grad_duration_ms g) :: u32"
  have d: "unat ?d \<le> 65535" "grad_duration_ms g \<noteq> 0 \<Longrightarrow> ?d \<noteq> 0" by (simp_all add: word_nat word_unat_eq_iff)
  from assms Gradient obtain led where led: "Led s (unat (grad_index g)) = Some led"
    by (auto simp: Gradient_Execute_def split: option.splits)
  show ?thesis
    using assms Gradient led d delay_within_first [OF assms(2) d(2)] delay_within [OF assms(2)]
    by (cases "grad_started g")
       (auto simp: Gradient_Execute_def DelayToGradientUpdate_eq Let_def not_le split: if_splits)
qed (use assms in auto)

lemma slot_Execute_timer:
  assumes "slot_Execute p ts slot s = (delay, show, slot', s')" "0 < p" "delay \<noteq> 0"
  shows "\<exists>duration. unat duration \<le> 65535 \<and>
    (timer slot = None \<and> timer slot' = Some (ts, duration) \<and> unat delay \<le> unat duration
     \<or> (\<exists>start. timer slot = Some (start, duration) \<and> timer slot' = Some (start, duration)
          \<and> unat (ts - start) + unat delay \<le> unat duration))"
proof (cases slot)
  case (Some i)
  obtain b' where "body_Execute p ts (i_body i) s = (delay, show, b', s')" "slot' = Some (i\<lparr>i_body := b'\<rparr>)"
    using assms Some by (auto simp: slot_Execute_def instr_Execute_def split: if_splits prod.splits)
  with body_Execute_timer [OF this(1) assms(2,3)] Some show ?thesis by (simp add: timer_def)
qed (use assms in \<open>simp add: slot_Execute_def\<close>)

text \<open>Executing again at a time at which the deadline is reached leaves less of the duration.\<close>

lemma Execute_time_left:
  assumes "slot_Execute p ts slot s = (delay, show, slot', s')" "0 < p" "delay \<noteq> 0"
  shows "timed_ok slot' (ts + delay)"
    "timed_ok slot deadline \<Longrightarrow> DeadlineReached ts deadline \<Longrightarrow>
       time_left slot' (ts + delay) < time_left slot deadline"
proof -
  obtain d where d: "unat d \<le> 65535" and t: "timer slot = None \<and> timer slot' = Some (ts, d) \<and> unat delay \<le> unat d
     \<or> (\<exists>start. timer slot = Some (start, d) \<and> timer slot' = Some (start, d)
          \<and> unat (ts - start) + unat delay \<le> unat d)"
    using slot_Execute_timer [OF assms] by blast
  have sum: "unat (ts + delay - start) = unat (ts - start) + unat delay" if "unat (ts - start) + unat delay \<le> unat d" for start
    using unat_add_u32 [of "ts - start" delay] that d by (simp add: algebra_simps)
  show "timed_ok slot' (ts + delay)"
    using t sum by (auto simp: timed_ok_def word_le_nat_alt)
  assume ok: "timed_ok slot deadline" and reached: "DeadlineReached ts deadline"
  then obtain start where s: "timer slot = Some (start, d)" "timer slot' = Some (start, d)"
      "unat (ts - start) + unat delay \<le> unat d" "unat (deadline - start) \<le> unat d"
    using t by (auto simp: timed_ok_def word_le_nat_alt)
  have "unat (ts - deadline) < 2147483648"
    using reached by (simp add: DeadlineReached_def kTimestampHalfRange_def word_less_nat_alt)
  then have "unat (ts - start) = unat (ts - deadline) + unat (deadline - start)"
    using unat_add_u32 [of "ts - deadline" "deadline - start"] s(4) d by simp
  moreover have "0 < unat delay" using assms(3) by (simp add: unat_gt_0)
  ultimately show "time_left slot' (ts + delay) < time_left slot deadline"
    using s sum [OF s(3)] by (simp add: time_left_def)
qed

section \<open>The work left in a finite program\<close>

text \<open>Nothing in the program repeats forever: no stored RunGroup, and no active group.\<close>

definition finite_program :: "InstructionMemorySlot list \<Rightarrow> nat \<Rightarrow> bool" where
  "finite_program slots n \<longleftrightarrow> (\<forall>i<n. GetAdditionalRepeats (slots ! i) \<noteq> kForeverLoopCount)"

definition finite_work :: "'mb Controller \<Rightarrow> bool" where
  "finite_work c \<longleftrightarrow> live_inv c
     \<and> finite_program (map slot_ResetForReplay (c_instructions c)) (c_instruction_count c)
     \<and> (\<forall>g<c_group_count c. rt_active (c_runtimes c ! g) \<longrightarrow> rt_repeats_remaining (c_runtimes c ! g) \<noteq> kForeverLoopCount)
     \<and> (\<forall>e\<in>set (c_executing c). timed_ok (c_instructions c ! ex_instruction_index e) (ex_deadline e))"

text \<open>
  The work left: the instructions and passes that the active groups still have before them, as a
  multiset of group labels that the call relation orders, then the time left to the executing
  instructions.
\<close>

definition life_work :: "GroupRuntime \<Rightarrow> GroupId multiset" where
  "life_work r = (if rt_active r
     then replicate_mset (unat (rt_repeats_remaining r) * (gr_instruction_count (rt_record r) + 1)
            + (gr_instruction_count (rt_record r) - rt_cursor r) + 1) (gr_id (rt_record r))
     else {#})"

definition exec_left :: "InstructionMemorySlot list \<Rightarrow> ExecutingInstruction multiset \<Rightarrow> nat" where
  "exec_left slots exs = (\<Sum>e\<in>#exs. Suc (time_left (slots ! ex_instruction_index e) (ex_deadline e)))"

definition life_measure :: "'mb Controller \<Rightarrow> GroupId multiset \<times> nat" where
  "life_measure c = (\<Sum>g<c_group_count c. life_work (c_runtimes c ! g),
     exec_left (c_instructions c) (mset (c_executing c)))"

definition life_order :: "(GroupId \<times> GroupId) set \<Rightarrow> ((GroupId multiset \<times> nat) \<times> (GroupId multiset \<times> nat)) set" where
  "life_order cs = mult ((cs\<^sup>+)\<inverse>) <*lex*> less_than"

definition life_rel :: "('mb Controller \<times> 'mb Controller) set" where
  "life_rel = descent life_measure life_order"

lemma wf_life_rel: "wf life_rel"
  unfolding life_rel_def
  by (rule wf_descent) (simp add: life_order_def wf_calls wf_lex_prod wf_mult)

lemma trans_life_rel: "trans life_rel"
  unfolding life_rel_def
  by (rule trans_descent) (simp add: life_order_def trans_lex_prod mult_def)

lemma finite_workD:
  assumes "finite_work c"
  shows "live_inv c" "finite_program (map slot_ResetForReplay (c_instructions c)) (c_instruction_count c)"
    "g < c_group_count c \<Longrightarrow> rt_active (c_runtimes c ! g) \<Longrightarrow> rt_repeats_remaining (c_runtimes c ! g) \<noteq> kForeverLoopCount"
    "e \<in> set (c_executing c) \<Longrightarrow> timed_ok (c_instructions c ! ex_instruction_index e) (ex_deadline e)"
  using assms by (simp_all add: finite_work_def)

text \<open>What a piece of progress has to show.\<close>

lemma life_step:
  assumes "finite_work c" "live_inv c'" "program c' = program c"
    and "\<And>g. g < c_group_count c \<Longrightarrow> rt_active (c_runtimes c' ! g) \<Longrightarrow> rt_repeats_remaining (c_runtimes c' ! g) \<noteq> kForeverLoopCount"
    and "\<And>e. e \<in> set (c_executing c') \<Longrightarrow> timed_ok (c_instructions c' ! ex_instruction_index e) (ex_deadline e)"
    and "(life_measure c', life_measure c) \<in> life_order (prog_calls c)"
  shows "finite_work c' \<and> (c', c) \<in> life_rel"
  using assms by (auto simp: finite_work_def life_rel_def descent_def) (simp_all add: program_def)

section \<open>Each piece of progress leaves less work\<close>

subsection \<open>Entries of the executing list\<close>

lemma mset_remove_nth: "i < length xs \<Longrightarrow> mset xs = add_mset (xs ! i) (mset (take i xs @ drop (Suc i) xs))"
  by (subst id_take_nth_drop [of i xs]) simp_all

lemma others_distinct:
  assumes "distinct (map f xs)" "i < length xs" "x \<in> set (take i xs @ drop (Suc i) xs)"
  shows "x \<in> set xs" "f x \<noteq> f (xs ! i)"
proof -
  have "distinct (map f (take i xs @ xs ! i # drop (Suc i) xs))"
    using assms(1) id_take_nth_drop [OF assms(2)] by simp
  then show "f x \<noteq> f (xs ! i)" using assms(3) by auto (metis imageI)+
  show "x \<in> set xs" using assms(3) by (auto dest: in_set_takeD in_set_dropD)
qed

lemma exec_left_other:
  "(\<And>e. e \<in># exs \<Longrightarrow> slots' ! ex_instruction_index e = slots ! ex_instruction_index e) \<Longrightarrow>
   exec_left slots' exs = exec_left slots exs"
  unfolding exec_left_def by (intro arg_cong [where f = sum_mset] image_mset_cong) simp

lemma execute_slot_effect:
  assumes "execute_slot ts idx c = (delay, c1)"
  obtains sh slot dev' where
    "slot_Execute (c_refresh_period_ms c) ts (c_instructions c ! idx) (c_device c) = (delay, sh, slot, dev')"
    "c_instructions c1 = (c_instructions c)[idx := slot]"
  using assms by (auto simp: execute_slot_def intro: that split: prod.splits)

lemma observe_instructions [simp]:
  "c_instructions (ObservePositiveBoundary r c) = c_instructions c"
  "c_refresh_period_ms (ObservePositiveBoundary r c) = c_refresh_period_ms c"
proof -
  have "c_instructions (observe_loop n r c) = c_instructions c \<and> c_refresh_period_ms (observe_loop n r c) = c_refresh_period_ms c" for n
    by (induction n arbitrary: r c) (auto simp: upd_runtime_def)
  then show "c_instructions (ObservePositiveBoundary r c) = c_instructions c"
    "c_refresh_period_ms (ObservePositiveBoundary r c) = c_refresh_period_ms c"
    by (simp_all add: ObservePositiveBoundary_def)
qed

lemma instructions_upd_runtime [simp]: "c_instructions (upd_runtime k f c) = c_instructions c"
  by (simp add: upd_runtime_def)

text \<open>Runtimes that agree in what the work left depends on.\<close>

definition same_life :: "GroupRuntime \<Rightarrow> GroupRuntime \<Rightarrow> bool" where
  "same_life r r' \<longleftrightarrow> rt_active r' = rt_active r \<and> rt_record r' = rt_record r \<and> rt_cursor r' = rt_cursor r
     \<and> rt_repeats_remaining r' = rt_repeats_remaining r"

lemma same_life_work: "same_life r r' \<Longrightarrow> life_work r' = life_work r"
  by (simp add: same_life_def life_work_def)

lemma same_life_refl [simp]: "same_life r r"
  and same_life_counts [simp]: "same_life r (r\<lparr>rt_active_count := k\<rparr>)" "same_life r (r\<lparr>rt_child_count := k\<rparr>)"
  by (simp_all add: same_life_def)

lemma same_life_upd: "same_life (rts ! k) x \<Longrightarrow> same_life (rts ! h) (rts[k := x] ! h)"
  by (cases "h = k"; cases "k < length rts") (auto simp: list_update_beyond)

lemma same_life_upd_counts [simp]:
  "same_life (rts ! h) (rts[k := (rts ! k)\<lparr>rt_active_count := n\<rparr>] ! h)"
  "same_life (rts ! h) (rts[k := (rts ! k)\<lparr>rt_child_count := n\<rparr>] ! h)"
  by (simp_all add: same_life_upd)

lemma same_life_trans: "same_life a b \<Longrightarrow> same_life b c \<Longrightarrow> same_life a c"
  by (simp add: same_life_def)

lemma same_life_sum:
  "\<forall>h < gc. same_life (rts ! h) (rts' ! h) \<Longrightarrow> (\<Sum>h<gc. life_work (rts' ! h)) = (\<Sum>h<gc. life_work (rts ! h))"
  by (intro sum.cong) (simp_all add: same_life_work)

definition other_entries :: "nat \<Rightarrow> ExecutingInstruction list \<Rightarrow> ExecutingInstruction multiset" where
  "other_entries i exs = mset (take i exs @ drop (Suc i) exs)"

text \<open>What resuming the entry at position \<open>i\<close> changes.\<close>

lemma drain_effect:
  assumes inv: "live_inv c" and i: "i < length (c_executing c)"
    and reach: "DeadlineReached ts (ex_deadline (c_executing c ! i))"
    and r: "drain_one ts i st c = (i', p, st', c')"
  defines "e \<equiv> c_executing c ! i" and "others \<equiv> other_entries i (c_executing c)"
  obtains delay sh slot dev' where
    "slot_Execute (c_refresh_period_ms c) ts (c_instructions c ! ex_instruction_index e) (c_device c) = (delay, sh, slot, dev')"
    "c_instructions c' = (c_instructions c)[ex_instruction_index e := slot]"
    "mset (c_executing c') = (if delay = 0 then others else add_mset (e\<lparr>ex_deadline := ts + delay\<rparr>) others)"
    "\<forall>h < c_group_count c. same_life (c_runtimes c ! h) (c_runtimes c' ! h)"
proof -
  let ?xs = "c_executing c" and ?gc = "c_group_count c"
  have gcl: "?gc \<le> length (c_runtimes c)" using run_okD(2,3) [OF live_invD(7) [OF inv]] by simp
  note e = exec_entry [OF inv i, folded e_def]
  define co where "co = ObservePositiveBoundary (ex_runtime_index e) c"
  obtain delay c1 where ex: "execute_slot ts (ex_instruction_index e) co = (delay, c1)" by (metis prod.exhaust)
  from execute_slot_effect [OF ex] obtain sh slot dev' where
    x: "slot_Execute (c_refresh_period_ms c) ts (c_instructions c ! ex_instruction_index e) (c_device c) = (delay, sh, slot, dev')"
      "c_instructions c1 = (c_instructions c)[ex_instruction_index e := slot]"
    by (simp add: co_def) blast
  have c1: "c_executing c1 = ?xs" "flag_eq (c_runtimes c) (c_runtimes c1)"
    using c_executing_execute_slot [OF ex] execute_slot_runtimes [OF ex] by (simp_all add: co_def observe_flags)
  have same: "same_life (c_runtimes c ! h) (c_runtimes c1 ! h)" if "h < ?gc" for h
    using flag_eq_fields [OF c1(2), of h] that gcl by (simp add: same_life_def)
  show thesis
  proof (cases "delay = 0")
    case False
    then have "c' = c1\<lparr>c_executing := ?xs[i := e\<lparr>ex_deadline := ts + delay\<rparr>]\<rparr>"
      using r e reach ex c1(1) by (simp add: drain_one_def co_def e_def)
    moreover have "mset (?xs[i := e']) = add_mset e' others" for e'
      using i mset_remove_nth [of i "?xs[i := e']"] by (simp add: others_def other_entries_def)
    ultimately show thesis using that [OF x(1)] x(2) False same by simp
  next
    case True
    then have "c_executing c' = swap_remove i ?xs" "c_instructions c' = c_instructions c1"
        "c_runtimes c' = c_runtimes c1 \<or> (\<exists>k. c_runtimes c' = (c_runtimes c1)[ex_runtime_index e :=
           (c_runtimes c1 ! ex_runtime_index e)\<lparr>rt_active_count := k\<rparr>])"
      using r e reach ex c1(1) by (auto simp: drain_one_def co_def e_def Let_def split: if_splits)
    moreover have "mset (swap_remove i ?xs) = others"
      using mset_swap_remove [OF i] mset_remove_nth [OF i] by (simp add: others_def other_entries_def)
    moreover have "same_life (c_runtimes c ! h) ((c_runtimes c1)[k := (c_runtimes c1 ! k)\<lparr>rt_active_count := n\<rparr>] ! h)"
      if "h < ?gc" for h k n
      using same_life_trans [OF same [OF that]] by simp
    ultimately show thesis using that [OF x(1)] x(2) True same by auto
  qed
qed

lemma drain_life:
  assumes fw: "finite_work c" and i: "i < length (c_executing c)"
    and reach: "DeadlineReached ts (ex_deadline (c_executing c ! i))"
    and r: "drain_one ts i st c = (i', p, st', c')"
  shows "finite_work c' \<and> (c', c) \<in> life_rel"
proof -
  define e where "e = c_executing c ! i"
  define others where "others = other_entries i (c_executing c)"
  note inv = finite_workD(1) [OF fw]
  note l = live_invD [OF inv]
  have step: "live_inv c'" "program c' = program c"
    using drain_one_ok [OF inv i r] reach by (simp_all add: tick_step_def static_def)
  obtain delay sh slot dev' where
    x: "slot_Execute (c_refresh_period_ms c) ts (c_instructions c ! ex_instruction_index e) (c_device c) = (delay, sh, slot, dev')"
    "c_instructions c' = (c_instructions c)[ex_instruction_index e := slot]"
    "mset (c_executing c') = (if delay = 0 then others else add_mset (e\<lparr>ex_deadline := ts + delay\<rparr>) others)"
    and same: "\<forall>h < c_group_count c. same_life (c_runtimes c ! h) (c_runtimes c' ! h)"
    unfolding e_def others_def by (rule drain_effect [OF inv i reach r])
  have all: "mset (c_executing c) = add_mset e others"
    using mset_remove_nth [OF i] by (simp add: e_def others_def other_entries_def)
  then have old: "e' \<in> set (c_executing c)" if "e' = e \<or> e' \<in># others" for e' using that by (metis insert_iff set_mset_add_mset_insert set_mset_mset)
  have slots: "c_instructions c' ! ex_instruction_index e = slot"
      "\<And>e'. e' \<in># others \<Longrightarrow> c_instructions c' ! ex_instruction_index e' = c_instructions c ! ex_instruction_index e'"
    using x(2) exec_entry(1) [OF inv i] l(3,4) others_distinct(2) [OF executing_distinct [OF inv] i, THEN not_sym]
    by (auto simp: e_def others_def other_entries_def)
  have new: "timed_ok slot (ts + delay) \<and> time_left slot (ts + delay) < time_left (c_instructions c ! ex_instruction_index e) (ex_deadline e)"
    if "delay \<noteq> 0"
    using Execute_time_left(1) [OF x(1) l(5) that] Execute_time_left(2) [OF x(1) l(5) that, of "ex_deadline e"]
      finite_workD(4) [OF fw, of e] old reach
    by (simp add: e_def)
  have rep: "rt_repeats_remaining (c_runtimes c' ! g) \<noteq> kForeverLoopCount"
    if "g < c_group_count c" "rt_active (c_runtimes c' ! g)" for g
    using finite_workD(3) [OF fw that(1)] same that by (simp add: same_life_def)
  have timed: "timed_ok (c_instructions c' ! ex_instruction_index e') (ex_deadline e')" if "e' \<in># mset (c_executing c')" for e'
  proof (cases "e' \<in># others")
    case True
    then show ?thesis using finite_workD(4) [OF fw] old slots(2) by simp
  next
    case False
    then show ?thesis using that x(3) new slots(1) by (auto split: if_splits)
  qed
  have "exec_left (c_instructions c') (mset (c_executing c')) < exec_left (c_instructions c) (mset (c_executing c))"
    using exec_left_other [of others "c_instructions c'" "c_instructions c"] slots new
    by (auto simp: exec_left_def x(3) all)
  moreover have "c_group_count c' = c_group_count c" using step(2) by (simp add: program_def)
  ultimately have "(life_measure c', life_measure c) \<in> life_order (prog_calls c)"
    using same_life_sum [OF same] by (simp add: life_measure_def life_order_def)
  with rep timed show ?thesis by (intro life_step [OF fw step]) simp_all
qed

subsection \<open>Groups that complete or repeat\<close>

lemma fold_update_other:
  "\<forall>i\<in>set is. f i \<noteq> k \<Longrightarrow> fold (\<lambda>i slots. slots[f i := h (slots ! f i)]) is slots ! k = slots ! k"
  by (induction "is" arbitrary: slots) auto

text \<open>Resetting a group for replay does not touch what other groups execute.\<close>

lemma replay_elsewhere:
  assumes inv: "live_inv c" and g: "g < c_group_count c" and e: "e \<in> set (c_executing c)"
    and idle: "g \<notin># image_mset fst (epairs (c_executing c))"
  shows "c_instructions (ResetGroupInstructionReplayState g c) ! ex_instruction_index e = c_instructions c ! ex_instruction_index e"
proof -
  note l = live_invD [OF inv]
  have rec: "rt_record (c_runtimes c ! g) = c_groups c ! g" using run_okD(7) [OF l(7) g] .
  have m: "(ex_runtime_index e, ex_instruction_index e) \<in># epairs (c_executing c)" using e by (auto simp: epairs_def)
  then obtain p where p: "ex_runtime_index e < c_group_count c" "p < gr_instruction_count (c_groups c ! ex_runtime_index e)"
      "c_group_indices c ! (gr_index_begin (c_groups c ! ex_runtime_index e) + p) = ex_instruction_index e"
    using executing_index [OF inv m] by metis
  have "ex_runtime_index e \<noteq> g" using m idle by force
  then have "c_group_indices c ! (gr_index_begin (c_groups c ! g) + q) \<noteq> ex_instruction_index e"
    if "q < gr_instruction_count (c_groups c ! g)" for q
    using pool_index_inj [OF l(8) l(4) g that p(1,2)] p(3) by auto
  then show ?thesis
    using fold_update_other [of "[0..<gr_instruction_count (c_groups c ! g)]"
        "\<lambda>q. c_group_indices c ! (gr_index_begin (c_groups c ! g) + q)" "ex_instruction_index e"
        slot_ResetForReplay "c_instructions c"]
    by (simp add: ResetGroupInstructionReplayState_def Let_def rec)
qed

lemma replay_timed:
  assumes fw: "finite_work c" and g: "g < c_group_count c"
    and idle: "g \<notin># image_mset fst (epairs (c_executing c))"
    and c': "c_instructions c' = c_instructions (ResetGroupInstructionReplayState g c)" "c_executing c' = c_executing c"
    and e: "e \<in> set (c_executing c')"
  shows "timed_ok (c_instructions c' ! ex_instruction_index e) (ex_deadline e)"
  using replay_elsewhere [OF finite_workD(1) [OF fw] g _ idle, of e] finite_workD(4) [OF fw, of e] c' e by simp

lemma complete_effect:
  assumes inv: "live_inv c" and g: "g < c_group_count c" and ready: "group_ready c g"
    and r: "complete_one ts g (p, st, c) = (p', st', c')"
  defines "rt \<equiv> c_runtimes c ! g"
  shows "c_executing c' = c_executing c \<and>
    ((\<exists>n pp d. rt_repeats_remaining rt \<noteq> 0 \<and> (rt_repeats_remaining rt \<noteq> kForeverLoopCount \<longrightarrow> n = rt_repeats_remaining rt - 1)
        \<and> c_runtimes c' = (c_runtimes c)[g := started_runtime ts n pp d rt]
        \<and> c_instructions c' = c_instructions (ResetGroupInstructionReplayState g c))
     \<or> c_instructions c' = c_instructions c
        \<and> (\<forall>h < c_group_count c. same_life ((c_runtimes c)[g := GroupRuntime_Reset rt] ! h) (c_runtimes c' ! h)))"
proof -
  have act: "rt_active rt" and rest: "\<not> rt_cursor rt < gr_instruction_count (rt_record rt)"
      "rt_active_count rt = 0" "rt_child_count rt = 0"
    using ready run_okD(7) [OF live_invD(7) [OF inv] g] by (simp_all add: group_ready_def rt_def)
  define n where "n = (if rt_repeats_remaining rt = kForeverLoopCount then kForeverLoopCount else rt_repeats_remaining rt - 1)"
  obtain c1 where c1: "StartGroupRuntime g ts n (rt_parent_group_index rt) c = (True, c1)"
      "c_executing c1 = c_executing c"
      "c_runtimes c1 = (c_runtimes c)[g := started_runtime ts n (rt_parent_group_index rt) (rt_depth rt) rt]"
      "c_instructions c1 = c_instructions (ResetGroupInstructionReplayState g c)"
    using restart_ok [OF inv g, of ts n] act by (auto simp: rt_def)
  show ?thesis
  proof (cases "rt_repeats_remaining rt \<noteq> 0 \<and> rt_positive_boundary_observed rt")
    case True
    then have "c' = c1" using r act rest c1(1) by (simp add: complete_one_def Let_def flip: rt_def n_def)
    then show ?thesis using c1 True by (auto simp: n_def)
  next
    case False
    let ?c1 = "upd_runtime g GroupRuntime_Reset c" and ?p = "rt_parent_group_index rt"
    have "c' = ?c1\<lparr>c_state := kCompleted\<rparr> \<or> c' = ?c1 \<or> c' = upd_runtime ?p (\<lambda>r. r\<lparr>rt_child_count := rt_child_count r - 1\<rparr>) ?c1"
      using r act rest False by (auto simp: complete_one_def Let_def rt_def simp del: runtimes_upd_runtime split: if_splits)
    then show ?thesis by (auto simp: rt_def)
  qed
qed

lemma life_work_started:
  "life_work (started_runtime ts n p d r) =
     replicate_mset ((unat n + 1) * (gr_instruction_count (rt_record r) + 1)) (gr_id (rt_record r))"
  by (simp add: life_work_def started_runtime_def GroupRuntime_Reset_def algebra_simps)

lemma life_work_reset: "life_work (GroupRuntime_Reset r) = {#}"
  by (simp add: life_work_def GroupRuntime_Reset_def)

lemma mult_smaller_more: "X + K = Y \<Longrightarrow> K \<noteq> {#} \<Longrightarrow> (X, Y) \<in> mult r"
  using one_step_implies_mult [of K "{#}" r X] by simp

lemma complete_life:
  assumes fw: "finite_work c" and g: "g < c_group_count c" and ready: "group_ready c g"
    and r: "complete_one ts g (p, st, c) = (p', st', c')"
  shows "finite_work c' \<and> (c', c) \<in> life_rel"
proof -
  let ?rt = "c_runtimes c ! g" and ?gc = "c_group_count c"
  note inv = finite_workD(1) [OF fw]
  note l = live_invD [OF inv]
  have gcl: "?gc \<le> length (c_runtimes c)" using run_okD(2,3) [OF l(7)] by simp
  have step: "live_inv c'" "program c' = program c"
    using complete_one_ok [OF inv g r] ready by (simp_all add: tick_step_def static_def)
  have gc': "c_group_count c' = ?gc" using step(2) by (simp add: program_def)
  have act: "rt_active ?rt" and rest: "rt_cursor ?rt = gr_instruction_count (rt_record ?rt)"
      "rt_active_count ?rt = 0" "rt_child_count ?rt = 0"
    using ready run_okD(7,8) [OF l(7) g] by (simp_all add: group_ready_def)
  have idle: "g \<notin># image_mset fst (epairs (c_executing c))"
    using run_ok_idle(1) [OF l(7) g rest(2,3)] .
  have fin: "rt_repeats_remaining ?rt \<noteq> kForeverLoopCount" by (rule finite_workD(3) [OF fw g act])
  note eff = complete_effect [OF inv g ready r]
  then have ex: "c_executing c' = c_executing c" by blast
  have less: "(life_measure c', life_measure c) \<in> life_order (prog_calls c)"
    if "(\<Sum>h<?gc. life_work (c_runtimes c' ! h)) + K = (\<Sum>h<?gc. life_work (c_runtimes c ! h))" "K \<noteq> {#}" for K
    using mult_smaller_more [OF that] gc' by (simp add: life_measure_def life_order_def)
  from eff consider (again) n pp d where "rt_repeats_remaining ?rt \<noteq> 0" "n = rt_repeats_remaining ?rt - 1"
        "c_runtimes c' = (c_runtimes c)[g := started_runtime ts n pp d ?rt]"
        "c_instructions c' = c_instructions (ResetGroupInstructionReplayState g c)"
    | (over) "c_instructions c' = c_instructions c"
        "\<forall>h<?gc. same_life ((c_runtimes c)[g := GroupRuntime_Reset ?rt] ! h) (c_runtimes c' ! h)"
    using fin by blast
  then show ?thesis
  proof cases
    case again
    have n: "unat (rt_repeats_remaining ?rt) = unat n + 1"
      using again(1,2) by (simp add: unat_minus_one unat_gt_0)
    have nf: "n \<noteq> kForeverLoopCount"
      using n unat_u16_lt [of "rt_repeats_remaining ?rt"] by (auto simp: kForeverLoopCount_def)
    let ?K = "{# gr_id (rt_record ?rt) #}"
    have "life_work ?rt = life_work (started_runtime ts n pp d ?rt) + ?K"
      using act rest(1) n by (simp add: life_work_started) (simp add: life_work_def)
    then have "(\<Sum>h<?gc. life_work (c_runtimes c' ! h)) + ?K = (\<Sum>h<?gc. life_work (c_runtimes c ! h))"
      using sum_upd [OF g gcl, of life_work "started_runtime ts n pp d ?rt"] by (simp add: again(3))
    note less [OF this]
    moreover have "rt_repeats_remaining (c_runtimes c' ! h) \<noteq> kForeverLoopCount"
      if "h < ?gc" "rt_active (c_runtimes c' ! h)" for h
      using finite_workD(3) [OF fw that(1)] that nf gcl
      by (cases "h = g") (simp_all add: again(3) started_runtime_def)
    ultimately show ?thesis
      using replay_timed [OF fw g idle again(4) ex] by (intro life_step [OF fw step]) simp_all
  next
    case over
    have "(\<Sum>h<?gc. life_work (c_runtimes c' ! h)) + life_work ?rt = (\<Sum>h<?gc. life_work (c_runtimes c ! h))"
      using sum_upd [OF g gcl, of life_work "GroupRuntime_Reset ?rt"] same_life_sum [OF over(2)]
      by (simp add: life_work_reset)
    then have "(life_measure c', life_measure c) \<in> life_order (prog_calls c)"
      using act by (intro less [of "life_work ?rt"]) (simp_all add: life_work_def [of ?rt])
    moreover have "rt_repeats_remaining (c_runtimes c' ! h) \<noteq> kForeverLoopCount"
      if "h < ?gc" "rt_active (c_runtimes c' ! h)" for h
      using finite_workD(3) [OF fw that(1)] that over(2) gcl
      by (cases "h = g") (auto simp: same_life_def GroupRuntime_Reset_def)
    ultimately show ?thesis
      using finite_workD(4) [OF fw] over(1) ex by (intro life_step [OF fw step]) simp_all
  qed
qed

subsection \<open>Due instructions\<close>

lemma life_work_advance:
  assumes "rt_active r" "rt_cursor r < gr_instruction_count (rt_record r)"
    and "rt_active r' = rt_active r" "rt_record r' = rt_record r" "rt_cursor r' = rt_cursor r + 1"
      "rt_repeats_remaining r' = rt_repeats_remaining r"
  shows "life_work r = life_work r' + {# gr_id (rt_record r) #}"
  using assms by (simp add: life_work_def) (simp flip: add_mset_add_single replicate_mset_Suc add: Suc_diff_Suc)

text \<open>Moving the cursor past an instruction takes one label out of the work left.\<close>

lemma advance_life:
  assumes fw: "finite_work c" and g: "g < c_group_count c" and act: "rt_active (c_runtimes c ! g)"
    and nd: "\<not> nothing_due ts c g"
  defines "ca \<equiv> advance_cursor g c"
  shows "finite_work ca" "c_instructions ca = c_instructions c" "c_executing ca = c_executing c"
    "(\<Sum>h<c_group_count c. life_work (c_runtimes ca ! h)) + {# gr_id (c_groups c ! g) #}
       = (\<Sum>h<c_group_count c. life_work (c_runtimes c ! h))"
proof -
  note inv = finite_workD(1) [OF fw]
  note f = run_okD [OF live_invD(7) [OF inv]]
  let ?gc = "c_group_count c"
  have room: "rt_cursor (c_runtimes c ! g) < gr_instruction_count (rt_record (c_runtimes c ! g))"
    and due: "\<not> ts - rt_start_time (c_runtimes c ! g) < ucast (GetMark (c_instructions c ! cursor_slot g c))"
    using nd by (simp_all add: nothing_due_def)
  note a = advance_cursor_ok [OF inv g act room due, folded ca_def]
  have gl: "g < length (c_runtimes c)" "?gc \<le> length (c_runtimes c)" using g f(2,3) by simp_all
  obtain co where ca: "ca = upd_runtime g (\<lambda>r. r\<lparr>rt_cursor := rt_cursor r + 1\<rparr>) co"
    and co: "flag_eq (c_runtimes c) (c_runtimes co)" "c_instructions co = c_instructions c"
    unfolding ca_def advance_cursor_def using observe_flags [of c g] by (auto split: if_splits)
  let ?x = "(c_runtimes co ! g)\<lparr>rt_cursor := rt_cursor (c_runtimes co ! g) + 1\<rparr>"
  have rts: "c_runtimes ca = (c_runtimes co)[g := ?x]" by (simp add: ca)
  have len: "length (c_runtimes co) = length (c_runtimes c)" using co(1) by (simp add: flag_eq_def)
  note fe = flag_eq_fields [OF co(1)]
  show i: "c_instructions ca = c_instructions c" "c_executing ca = c_executing c" using a(4) co(2) by (simp_all add: ca)
  have same: "\<forall>h<?gc. same_life (c_runtimes c ! h) (c_runtimes co ! h)" using fe gl(2) by (simp add: same_life_def)
  have "life_work (c_runtimes co ! g) = life_work ?x + {# gr_id (rt_record (c_runtimes co ! g)) #}"
    using fe [OF gl(1)] act room by (intro life_work_advance) simp_all
  then show "(\<Sum>h<?gc. life_work (c_runtimes ca ! h)) + {# gr_id (c_groups c ! g) #} = (\<Sum>h<?gc. life_work (c_runtimes c ! h))"
    using sum_upd [OF g, of "c_runtimes co" life_work ?x] same_life_sum [OF same] gl(2) len fe(1) [OF gl(1)] f(7) [OF g]
    unfolding rts by simp
  have "rt_repeats_remaining (c_runtimes ca ! h) = rt_repeats_remaining (c_runtimes c ! h)"
    "rt_active (c_runtimes ca ! h) = rt_active (c_runtimes c ! h)" if "h < ?gc" for h
    using fe [of h] that gl len by (cases "h = g"; simp add: rts)+
  then show "finite_work ca"
    using fw a(1,2) i by (simp add: finite_work_def) (simp add: static_def program_def)
qed

text \<open>What executing a due instruction changes.\<close>

lemma dispatch_execute_effect:
  assumes "DispatchDueInstruction g si ts st c = (started, st', c')" "\<not> IsRunGroup (c_instructions c ! si)"
  obtains delay sh slot dev' where
    "slot_Execute (c_refresh_period_ms c) ts (c_instructions c ! si) (c_device c) = (delay, sh, slot, dev')"
    "c_instructions c' = (c_instructions c)[si := slot]"
    "c_executing c' = c_executing c \<or> delay \<noteq> 0 \<and> c_executing c' = c_executing c @
       [\<lparr>ex_instruction_index = si, ex_runtime_index = g, ex_deadline = ts + delay\<rparr>]"
proof -
  obtain delay c1 where ex: "execute_slot ts si c = (delay, c1)" by (metis prod.exhaust)
  from execute_slot_effect [OF ex] obtain sh slot dev' where
    "slot_Execute (c_refresh_period_ms c) ts (c_instructions c ! si) (c_device c) = (delay, sh, slot, dev')"
    "c_instructions c1 = (c_instructions c)[si := slot]" .
  then show thesis
    using that assms ex c_executing_execute_slot [OF ex] by (fastforce simp: DispatchDueInstruction_def split: if_splits)
qed

lemma pick_execute_life:
  assumes fw: "finite_work ca" and g: "g < c_group_count ca" and si: "si < c_instruction_count ca"
    and new: "si \<notin># image_mset snd (epairs (c_executing ca))"
    and plain: "\<not> IsRunGroup (c_instructions ca ! si)"
    and r: "DispatchDueInstruction g si ts st ca = (started, st', c')"
  shows "\<forall>e\<in>set (c_executing c'). timed_ok (c_instructions c' ! ex_instruction_index e) (ex_deadline e)"
proof -
  note l = live_invD [OF finite_workD(1) [OF fw]]
  obtain delay sh slot dev' where
    x: "slot_Execute (c_refresh_period_ms ca) ts (c_instructions ca ! si) (c_device ca) = (delay, sh, slot, dev')"
    "c_instructions c' = (c_instructions ca)[si := slot]"
    "c_executing c' = c_executing ca \<or> delay \<noteq> 0 \<and> c_executing c' = c_executing ca @
       [\<lparr>ex_instruction_index = si, ex_runtime_index = g, ex_deadline = ts + delay\<rparr>]"
    by (rule dispatch_execute_effect [OF r plain])
  have old: "timed_ok (c_instructions c' ! ex_instruction_index e) (ex_deadline e)" if "e \<in> set (c_executing ca)" for e
  proof -
    have "ex_instruction_index e \<noteq> si" using new that by (force simp: epairs_def)
    then show ?thesis using finite_workD(4) [OF fw that] by (simp add: x(2))
  qed
  have "timed_ok slot (ts + delay)" if "delay \<noteq> 0" using Execute_time_left(1) [OF x(1) l(5) that] .
  then show ?thesis using x(2,3) old si l(3,4) by auto
qed

text \<open>
  A dispatch after the cursor has moved: the runtimes keep their work, or an idle group that the
  dispatching group calls adds its passes.
\<close>

lemma pick_effect:
  assumes fw: "finite_work c" and g: "g < c_group_count c" and act: "rt_active (c_runtimes c ! g)"
    and si: "si < c_instruction_count c" "GetGroupId (map slot_ResetForReplay (c_instructions c) ! si) = gr_id (c_groups c ! g)"
      "si \<notin># image_mset snd (epairs (c_executing c))"
    and pos: "p < rt_cursor (c_runtimes c ! g)" "c_group_indices c ! (gr_index_begin (c_groups c ! g) + p) = si"
    and r: "DispatchDueInstruction g si ts st c = (started, st', c')"
  shows "(\<forall>e\<in>set (c_executing c'). timed_ok (c_instructions c' ! ex_instruction_index e) (ex_deadline e)) \<and>
    (\<forall>h < c_group_count c. rt_active (c_runtimes c' ! h) \<longrightarrow> rt_repeats_remaining (c_runtimes c' ! h) \<noteq> kForeverLoopCount) \<and>
    (\<exists>K. (\<Sum>h<c_group_count c. life_work (c_runtimes c' ! h)) = (\<Sum>h<c_group_count c. life_work (c_runtimes c ! h)) + K
       \<and> (\<forall>b. b \<in># K \<longrightarrow> (gr_id (c_groups c ! g), b) \<in> prog_calls c))"
proof (cases "IsRunGroup (c_instructions c ! si)")
  case False
  note inv = finite_workD(1) [OF fw]
  from dispatch_execute_ok(6) [OF inv g act pos si(1,3) False r] obtain k
    where k: "c_runtimes c' = (c_runtimes c)[g := (c_runtimes c ! g)\<lparr>rt_active_count := k\<rparr>]" by blast
  have "\<forall>h < c_group_count c. same_life (c_runtimes c ! h) (c_runtimes c' ! h)" by (simp add: k)
  then show ?thesis
    using pick_execute_life [OF fw g si(1,3) False r] same_life_sum finite_workD(3) [OF fw]
    by (intro conjI exI [of _ "{#}"]) (simp_all add: same_life_def)
next
  case True
  note inv = finite_workD(1) [OF fw]
  note l = live_invD [OF inv]
  note f = run_okD [OF l(7)]
  let ?gc = "c_group_count c" and ?n = "GetAdditionalRepeats (c_instructions c ! si)"
  note d = dispatch_run_group_ok [OF inv g act si(1,2) True r]
  show ?thesis
  proof (cases started)
    case False
    then show ?thesis using d finite_workD(3,4) [OF fw] by (intro conjI exI [of _ "{#}"]) simp_all
  next
    case started: True
    then obtain t k dd where t: "t < ?gc" "t \<noteq> g" "\<not> rt_active (c_runtimes c ! t)"
        "(gr_id (c_groups c ! g), gr_id (c_groups c ! t)) \<in> prog_calls c"
        "c_instructions c' = c_instructions (ResetGroupInstructionReplayState t c)" "c_executing c' = c_executing c"
      and rts: "c_runtimes c' = (c_runtimes c)[t := started_runtime ts ?n g dd (c_runtimes c ! t), g := (c_runtimes c ! g)\<lparr>rt_child_count := k\<rparr>]"
      using d by auto
    let ?x = "started_runtime ts ?n g dd (c_runtimes c ! t)"
    have gcl: "?gc \<le> length (c_runtimes c)" using f(2,3) by simp
    have idle: "t \<notin># image_mset fst (epairs (c_executing c))" using f(6) t(3) by (auto simp: exec_ok_def)
    have fin: "?n \<noteq> kForeverLoopCount"
      using finite_workD(2) [OF fw] si(1) l(3,4) by (simp add: finite_program_def)
    have same: "\<forall>h<?gc. same_life ((c_runtimes c)[t := ?x] ! h) (c_runtimes c' ! h)"
      using same_life_upd_counts(2) [of "(c_runtimes c)[t := ?x]" _ g k] t(2) by (simp add: rts)
    have "(\<Sum>h<?gc. life_work (c_runtimes c' ! h)) = (\<Sum>h<?gc. life_work (c_runtimes c ! h)) + life_work ?x"
      using sum_upd [OF t(1) gcl, of life_work ?x] same_life_sum [OF same] t(3)
      by (simp add: life_work_def [of "c_runtimes c ! t"])
    moreover have "\<forall>b. b \<in># life_work ?x \<longrightarrow> (gr_id (c_groups c ! g), b) \<in> prog_calls c"
      using t(4) f(7) [OF t(1)] by (simp add: life_work_started)
    moreover have "rt_repeats_remaining (c_runtimes c' ! h) \<noteq> kForeverLoopCount" if "h < ?gc" "rt_active (c_runtimes c' ! h)" for h
    proof (cases "h = t")
      case True
      then show ?thesis using same that(1) fin gcl by (simp add: same_life_def) (simp add: started_runtime_def)
    next
      case False
      then show ?thesis using same that finite_workD(3) [OF fw that(1)] by (simp add: same_life_def)
    qed
    ultimately show ?thesis using replay_timed [OF fw t(1) idle t(5,6)] by blast
  qed
qed

lemma pick_life:
  assumes fw: "finite_work c" and g: "g < c_group_count c" and act: "rt_active (c_runtimes c ! g)"
    and nd: "\<not> nothing_due ts c g"
    and r: "DispatchDueInstruction g (cursor_slot g c) ts st (advance_cursor g c) = (started, st', c')"
  shows "finite_work c' \<and> (c', c) \<in> life_rel"
proof -
  let ?ca = "advance_cursor g c" and ?gc = "c_group_count c"
  note inv = finite_workD(1) [OF fw]
  have room: "rt_cursor (c_runtimes c ! g) < gr_instruction_count (rt_record (c_runtimes c ! g))"
    and due: "\<not> ts - rt_start_time (c_runtimes c ! g) < ucast (GetMark (c_instructions c ! cursor_slot g c))"
    using nd by (simp_all add: nothing_due_def)
  note a = advance_cursor_ok [OF inv g act room due] and s = cursor_slot_facts [OF inv g room]
    and al = advance_life [OF fw g act nd]
  have st: "c_group_count ?ca = ?gc" "c_groups ?ca = c_groups c" "c_group_indices ?ca = c_group_indices c"
      "c_instruction_count ?ca = c_instruction_count c" "prog_calls ?ca = prog_calls c"
    using a(2) prog_calls_static [OF a(2)] by (simp_all add: static_def program_def)
  have step: "live_inv c'" "program c' = program c"
    using pick_step_ok(1) [OF inv g act room due r] by (simp_all add: tick_step_def static_def)
  have pos: "rt_cursor (c_runtimes c ! g) < rt_cursor (c_runtimes ?ca ! g)" using a(6) by simp
  obtain K where K: "(\<Sum>h<?gc. life_work (c_runtimes c' ! h)) = (\<Sum>h<?gc. life_work (c_runtimes ?ca ! h)) + K"
      "\<forall>b. b \<in># K \<longrightarrow> (gr_id (c_groups c ! g), b) \<in> prog_calls c"
    and rest: "\<forall>e\<in>set (c_executing c'). timed_ok (c_instructions c' ! ex_instruction_index e) (ex_deadline e)"
      "\<forall>h < ?gc. rt_active (c_runtimes c' ! h) \<longrightarrow> rt_repeats_remaining (c_runtimes c' ! h) \<noteq> kForeverLoopCount"
    using pick_effect [OF al(1) _ a(5) _ _ _ pos _ r] s g st al(2,3) by auto
  have "(\<Sum>h<?gc. life_work (c_runtimes c' ! h), \<Sum>h<?gc. life_work (c_runtimes c ! h)) \<in> mult (((prog_calls c)\<^sup>+)\<inverse>)"
    using mult_replaced [OF al(4), of K "((prog_calls c)\<^sup>+)\<inverse>"] K by auto
  moreover have "c_group_count c' = ?gc" using step(2) by (simp add: program_def)
  ultimately have "(life_measure c', life_measure c) \<in> life_order (prog_calls c)"
    by (simp add: life_measure_def life_order_def)
  with rest show ?thesis by (intro life_step [OF fw step]) simp_all
qed

section \<open>Ticks leave less work\<close>

interpretation life: round_steps "\<lambda>c. finite_work c \<and> c_group_count c = gc" life_rel ts gc for ts gc
proof (unfold_locales, goal_cases)
  case (4 c i st i' p st' c')
  then show ?case using drain_life [of c i ts st i' p st' c'] by (auto simp: life_rel_def descent_def program_def)
next
  case (5 c g p st p' st' c')
  then show ?case using complete_life [of c g ts p st p' st' c'] by (auto simp: life_rel_def descent_def program_def)
next
  case (6 c g st started st' c')
  then show ?case using pick_life [of c g ts st started st' c'] by (auto simp: life_rel_def descent_def program_def)
qed (simp_all add: wf_life_rel trans_life_rel finite_workD(1))

lemma finite_work_fields:
  assumes "finite_work c" "live_inv c'" "program c' = program c" "c_runtimes c' = c_runtimes c"
    "c_executing c' = c_executing c" "c_instructions c' = c_instructions c"
  shows "finite_work c'" "life_measure c' = life_measure c"
  using assms by (auto simp: finite_work_def life_measure_def program_def)

text \<open>A tick keeps the program finite, and leaves less work unless nothing was due.\<close>

lemma Run_life:
  assumes fw: "finite_work c" and act: "c_state c = kActive"
    and r: "Run send now c = Some (st, sched, shown, c')"
  shows "finite_work c'" "\<not> quiescent (GetTimestamp now c) c \<Longrightarrow> (c', c) \<in> life_rel"
proof -
  let ?ts = "GetTimestamp now c"
  let ?c1 = "c\<lparr>c_show_requested := False, c_min_scheduled_timeout := 0\<rparr>"
  note inv = finite_workD(1) [OF fw]
  have p1: "program ?c1 = program c" by (simp add: program_def)
  have live1: "live_inv ?c1" using live_invD(6) [OF inv] p1 by (intro live_inv_program [OF inv]) simp_all
  note f1 = finite_work_fields [OF fw live1 p1]
  have fw1: "finite_work ?c1" using f1 by simp
  obtain st2 c2 where loop: "run_loop ?ts kSuccess ?c1 = Some (st2, c2)" "finite_work c2"
      "if quiescent ?ts ?c1 then (c2, ?c1) \<in> life_rel\<^sup>= else (c2, ?c1) \<in> life_rel"
    using life.run_loop [of ?c1 "c_group_count c" kSuccess ?ts] fw1 by (auto simp: tick_status_def)
  have p2: "program c2 = program c" using loop(3) p1 by (auto simp: life_rel_def descent_def split: if_splits)
  have c': "program c' = program c2" "c_runtimes c' = c_runtimes c2" "c_executing c' = c_executing c2"
      "c_instructions c' = c_instructions c2" "c_state c' = c_state c2"
    using r act loop(1) ScheduleNextRun_fold(1) [of ?ts c2]
    by (auto simp: Run_def Let_def program_def split: prod.splits if_splits)
  have "ctl_inv c" using inv act by (simp add: ctl_inv_def live_inv_def)
  then have "live_inv c'" using Run_ok [of c send now] r act by (auto simp: ctl_inv_def)
  note f2 = finite_work_fields [OF loop(2) this c'(1-4)]
  show "finite_work c'" by (rule f2(1))
  have "quiescent ?ts ?c1 = quiescent ?ts c"
    by (simp add: quiescent_def nothing_due_def group_ready_def cursor_slot_def)
  moreover assume "\<not> quiescent ?ts c"
  ultimately have "(c2, ?c1) \<in> life_rel" using loop(3) by simp
  then show "(c', c) \<in> life_rel"
    using f1(2) f2(2) p1 p2 c'(1) inv prog_calls_program [OF p1] by (simp add: life_rel_def descent_def)
qed

text \<open>A tick at a scheduled time, or later, finds something due.\<close>

lemma scheduled_tick_due:
  assumes d: "d \<in> set (pending_delays ts c)" and late: "unat late < 2 ^ 30"
  shows "\<not> quiescent (ts + d + late) c"
proof -
  from d consider (entry) e where "e \<in> set (c_executing c)" "d = ex_deadline e - ts"
    | (mark) g where "g < c_group_count c" "rt_active (c_runtimes c ! g)"
        "rt_cursor (c_runtimes c ! g) < gr_instruction_count (rt_record (c_runtimes c ! g))"
        "d = ucast (GetMark (c_instructions c ! cursor_slot g c)) - (ts - rt_start_time (c_runtimes c ! g))"
    unfolding pending_delays_def by auto
  then show ?thesis
  proof cases
    case entry
    then have "DeadlineReached (ts + d + late) (ex_deadline e)"
      using late by (simp add: DeadlineReached_def kTimestampHalfRange_def word_less_nat_alt)
    then show ?thesis using entry(1) by (auto simp: quiescent_def)
  next
    case mark
    let ?m = "ucast (GetMark (c_instructions c ! cursor_slot g c)) :: u32"
    have "unat ?m < 65536" by (simp add: word_nat)
    then have "unat (?m + late) = unat ?m + unat late" using late by (intro unat_add_u32) simp
    then have "\<not> ?m + late < ?m" by (simp add: word_less_nat_alt)
    moreover have "ts + d + late - rt_start_time (c_runtimes c ! g) = ?m + late" by (simp add: mark(4))
    ultimately have "\<not> nothing_due (ts + d + late) c g" using mark(3) by (simp only: nothing_due_def simp_thms)
    then show ?thesis using mark(1,2) by (auto simp: quiescent_def)
  qed
qed

section \<open>Playing a program to its end\<close>

text \<open>
  The ticks of a program, as the schedule callback asks for them. Between two ticks the environment
  acts: the next tick comes \<open>late\<close> milliseconds after the time asked for, and the other task leaves
  the mailbox of frames as \<open>mb\<close>.
\<close>

fun play ::
  "('mb \<Rightarrow> SharedFrame \<Rightarrow> status \<times> 'mb) \<Rightarrow> (u32 \<times> 'mb) list \<Rightarrow> u32 \<Rightarrow> 'mb Controller \<Rightarrow> 'mb Controller option" where
  "play send [] now c = (case Run send now c of None \<Rightarrow> None | Some (st, sched, shown, c') \<Rightarrow> Some c')"
| "play send ((late, mb) # env) now c =
     (case Run send now c of
        None \<Rightarrow> None
      | Some (st, None, shown, c') \<Rightarrow> Some c'
      | Some (st, Some d, shown, c') \<Rightarrow>
          play send env (now + d + late) (c'\<lparr>c_device := (c_device c')\<lparr>strip_mailbox := mb\<rparr>\<rparr>))"

lemma play_idle: "c_state c \<noteq> kActive \<Longrightarrow> play send env now c = Some c"
  by (cases "(send, env, now, c)" rule: play.cases) (simp_all add: Run_def)

lemma mailbox_fields:
  assumes "finite_work c"
  shows "finite_work (c\<lparr>c_device := (c_device c)\<lparr>strip_mailbox := mb\<rparr>\<rparr>)"
    "life_measure (c\<lparr>c_device := (c_device c)\<lparr>strip_mailbox := mb\<rparr>\<rparr>) = life_measure c"
proof -
  let ?c = "c\<lparr>c_device := (c_device c)\<lparr>strip_mailbox := mb\<rparr>\<rparr>"
  note inv = finite_workD(1) [OF assms]
  have "strip_inv (c_device ?c)" using live_invD(6) [OF inv] by (simp add: strip_inv_def)
  then have l: "live_inv ?c" by (intro live_inv_program [OF inv]) (simp_all add: program_def)
  have p: "program ?c = program c" by (simp add: program_def)
  show "finite_work ?c" "life_measure ?c = life_measure c"
    using finite_work_fields [OF assms l p] by simp_all
qed

text \<open>One tick of an active finite program: it is over, or its next tick comes and finds something due.\<close>

lemma play_tick:
  assumes fw: "finite_work c" and act: "c_state c = kActive" and cb: "c_get_timestamp c" "c_schedule_next_run c"
    and late: "unat late < 2 ^ 30"
  shows "\<exists>st sched shown c1. Run send now c = Some (st, sched, shown, c1) \<and> finite_work c1
    \<and> (\<not> quiescent now c \<longrightarrow> (c1, c) \<in> life_rel)
    \<and> (c_state c1 = kCompleted \<or> c_state c1 = kActive \<and> (\<exists>d. sched = Some d \<and> \<not> quiescent (now + d + late) c1))
    \<and> c_get_timestamp c1 \<and> c_schedule_next_run c1"
proof -
  have now: "GetTimestamp now c = now" using cb by (simp add: GetTimestamp_def)
  have "ctl_inv c" using finite_workD(1) [OF fw] act by (simp add: ctl_inv_def live_inv_def)
  from Run_ok [OF this, of send now] obtain st sched shown c1 where
    r: "Run send now c = Some (st, sched, shown, c1)" "program c1 = program c" "c_state c1 \<noteq> kEditable"
      "c_state c1 = kActive \<longrightarrow> (\<exists>d. sched = Some d \<and> d \<in> set (pending_delays now c1))"
    using act cb(2) now by auto
  have "c_get_timestamp c1" "c_schedule_next_run c1" using r(2) cb by (simp_all add: program_def)
  moreover have "c_state c1 = kCompleted \<or> c_state c1 = kActive" using r(3) by (cases "c_state c1") simp_all
  ultimately show ?thesis
    using r Run_life [OF fw act r(1)] scheduled_tick_due [OF _ late] now by auto
qed

text \<open>Some number of ticks brings the program to its end, and it stays there.\<close>

definition played_out ::
  "('mb \<Rightarrow> SharedFrame \<Rightarrow> status \<times> 'mb) \<Rightarrow> (nat \<Rightarrow> u32 \<times> 'mb) \<Rightarrow> u32 \<Rightarrow> 'mb Controller \<Rightarrow> bool" where
  "played_out send env now c \<longleftrightarrow>
     (\<exists>n. \<forall>m\<ge>n. \<exists>c'. play send (map env [0..<m]) now c = Some c' \<and> c_state c' = kCompleted)"

lemma map_env: "map env [0..<Suc m] = env 0 # map (\<lambda>k. env (Suc k)) [0..<m]"
  by (rule map_upt_Suc)

lemma played_out_now:
  assumes "Run send now c = Some (st, sched, shown, c1)" "c_state c1 = kCompleted"
  shows "played_out send env now c"
proof -
  have "\<exists>c'. play send (map env [0..<m]) now c = Some c' \<and> c_state c' = kCompleted" for m
  proof (cases m)
    case 0
    then show ?thesis using assms by simp
  next
    case (Suc k)
    obtain late mb where "env 0 = (late, mb)" by (cases "env 0")
    then show ?thesis
      using assms Suc by (cases sched) (simp_all add: map_env play_idle del: upt_Suc)
  qed
  then show ?thesis by (auto simp: played_out_def)
qed

lemma played_out_later:
  assumes r: "Run send now c = Some (st, Some d, shown, c1)" and env0: "env 0 = (late, mb)"
    and rest: "played_out send (\<lambda>k. env (Suc k)) (now + d + late) (c1\<lparr>c_device := (c_device c1)\<lparr>strip_mailbox := mb\<rparr>\<rparr>)"
  shows "played_out send env now c"
proof -
  obtain n where n: "\<forall>m\<ge>n. \<exists>c'. play send (map (\<lambda>k. env (Suc k)) [0..<m]) (now + d + late)
      (c1\<lparr>c_device := (c_device c1)\<lparr>strip_mailbox := mb\<rparr>\<rparr>) = Some c' \<and> c_state c' = kCompleted"
    using rest by (auto simp: played_out_def)
  have "\<exists>c'. play send (map env [0..<m]) now c = Some c' \<and> c_state c' = kCompleted" if m: "Suc n \<le> m" for m
  proof -
    obtain k where k: "m = Suc k" using m Suc_le_D by blast
    then have "n \<le> k" using m by simp
    then show ?thesis using n r k by (simp add: map_env env0 del: upt_Suc)
  qed
  then show ?thesis by (auto simp: played_out_def)
qed

text \<open>What one tick of an active finite program leaves to show.\<close>

lemma played_out_step:
  fixes c :: "'mb Controller"
  assumes fw: "finite_work c" and act: "c_state c = kActive" and cb: "c_get_timestamp c" "c_schedule_next_run c"
    and late: "\<forall>k. unat (fst (env k)) < 2 ^ 30"
    and rest: "\<And>(c2 :: 'mb Controller) t. finite_work c2 \<Longrightarrow> c_state c2 = kActive \<Longrightarrow> c_get_timestamp c2 \<Longrightarrow> c_schedule_next_run c2 \<Longrightarrow>
      \<not> quiescent t c2 \<Longrightarrow> (\<not> quiescent now c \<longrightarrow> (c2, c) \<in> life_rel) \<Longrightarrow> played_out send (\<lambda>k. env (Suc k)) t c2"
  shows "played_out send env now c"
proof -
  obtain late mb where env0: "env 0 = (late, mb)" by (cases "env 0")
  have l: "unat late < 2 ^ 30" using late env0 by (metis fst_conv)
  from play_tick [OF fw act cb l, of send now] obtain st sched shown c1 where
    r: "Run send now c = Some (st, sched, shown, c1)" "finite_work c1" "\<not> quiescent now c \<longrightarrow> (c1, c) \<in> life_rel"
      "c_get_timestamp c1" "c_schedule_next_run c1"
    and later: "c_state c1 = kCompleted \<or> c_state c1 = kActive \<and> (\<exists>d. sched = Some d \<and> \<not> quiescent (now + d + late) c1)"
    by auto
  show ?thesis
  proof (cases "c_state c1 = kCompleted")
    case True
    then show ?thesis by (rule played_out_now [OF r(1)])
  next
    case False
    then obtain d where d: "c_state c1 = kActive" "sched = Some d" "\<not> quiescent (now + d + late) c1"
      using later by blast
    define c2 where "c2 = c1\<lparr>c_device := (c_device c1)\<lparr>strip_mailbox := mb\<rparr>\<rparr>"
    note m = mailbox_fields [OF r(2), of mb, folded c2_def]
    have "\<not> quiescent now c \<longrightarrow> (c2, c) \<in> life_rel"
      using r(3) m(2) by (simp add: life_rel_def descent_def c2_def program_def)
    moreover have "\<not> quiescent (now + d + late) c2"
      using d(3) by (simp add: c2_def quiescent_def nothing_due_def group_ready_def cursor_slot_def)
    ultimately have "played_out send (\<lambda>k. env (Suc k)) (now + d + late) c2"
      using m(1) d(1) r(4,5) by (intro rest) (simp_all add: c2_def)
    then show ?thesis unfolding c2_def by (rule played_out_later [of _ _ _ _ _ _ _ env, OF r(1) [unfolded d(2)] env0])
  qed
qed

lemma played_out_due:
  fixes c :: "'mb Controller"
  assumes "finite_work c" "c_state c = kActive" "c_get_timestamp c" "c_schedule_next_run c" "\<not> quiescent now c"
    and "\<forall>k. unat (fst (env k)) < 2 ^ 30"
  shows "played_out send env now c"
  using assms
proof (induction c arbitrary: now env rule: wf_induct_rule [OF wf_life_rel])
  case (1 c)
  show ?case
    using 1(7) by (intro played_out_step [OF 1(2-5,7)] 1(1)) (use 1(6) in auto)
qed

section \<open>Properties\<close>

lemma Start_finite:
  assumes inv: "ctl_inv c" and idle: "c_state c \<noteq> kActive"
    and fin: "\<forall>i<c_instruction_count c. GetAdditionalRepeats (c_instructions c ! i) \<noteq> kForeverLoopCount"
      "repeats \<noteq> kForeverLoopCount"
    and r: "Start now repeats c = (kSuccess, c1)" and act: "c_state c1 = kActive"
  shows "finite_work c1"
proof -
  have ok: "valid_program (c_instructions c) (c_instruction_count c) repeats"
    using Start_ok [OF inv idle, of repeats now] r by (auto split: if_splits)
  have s: "ctl_inv c1" "c_executing c1 = []" "c_instruction_count c1 = c_instruction_count c"
      "map slot_ResetForReplay (c_instructions c1) = map slot_ResetForReplay (c_instructions c)"
      "c_runtimes c1 ! 0 = started_runtime (GetTimestamp now c) repeats kMaxGroups 0 (GroupRuntime_init\<lparr>rt_record := c_groups c1 ! 0\<rparr>)"
      "\<forall>g < c_group_count c1. g \<noteq> 0 \<longrightarrow> \<not> rt_active (c_runtimes c1 ! g)"
    using Start_ok [OF inv idle, of repeats now] r ok act by auto
  have "c_instruction_count c \<le> length (c_instructions c)" using inv by (simp add: ctl_inv_def base_inv_def)
  then have "finite_program (map slot_ResetForReplay (c_instructions c1)) (c_instruction_count c1)"
    using fin(1) by (simp add: s(3,4) finite_program_def)
  moreover have "live_inv c1" using s(1) act by (simp add: ctl_inv_def)
  moreover have "rt_repeats_remaining (c_runtimes c1 ! g) \<noteq> kForeverLoopCount"
    if "g < c_group_count c1" "rt_active (c_runtimes c1 ! g)" for g
    using that s(5,6) fin(2) by (cases "g = 0") (auto simp: started_runtime_def)
  ultimately show ?thesis using s(2) by (simp add: finite_work_def)
qed

lemma finite_program_played:
  assumes "reachable send c" "c_state c \<noteq> kActive" "c_get_timestamp c" "c_schedule_next_run c"
    and "valid_program (c_instructions c) (c_instruction_count c) repeats" "repeats \<noteq> kForeverLoopCount"
    and "\<forall>i<c_instruction_count c. GetAdditionalRepeats (c_instructions c ! i) \<noteq> kForeverLoopCount"
    and "\<forall>k. unat (fst (env k)) < 2 ^ 30"
  shows "\<exists>c1. Start now repeats c = (kSuccess, c1) \<and> played_out send env tick c1"
proof -
  note inv = reachable_inv [OF assms(1)]
  from Start_ok [OF inv assms(2), of repeats now] assms(3-5) obtain c1 where
    c1: "Start now repeats c = (kSuccess, c1)" "c_state c1 = kActive \<or> c_state c1 = kCompleted"
      "c_get_timestamp c1" "c_schedule_next_run c1" by (auto split: if_splits)
  have "played_out send env tick c1"
  proof (cases "c_state c1 = kActive")
    case False
    then show ?thesis using c1(2) play_idle [of c1 send] by (simp add: played_out_def)
  next
    case True
    note fw = Start_finite [OF inv assms(2,7,6) c1(1) True]
    show ?thesis using assms(8) by (intro played_out_step [OF fw True c1(3,4) assms(8)] played_out_due) simp_all
  qed
  with c1(1) show ?thesis by blast
qed

text \<open>
  C5. Every finite program is played to its end. Take a reachable controller that is not active, with
  a clock and a schedule callback, and a valid program in which nothing repeats forever: neither the
  root nor any stored RunGroup. Start it, tick it once, and then at each scheduled time or up to 2 ^ 30 ms
  late, the other task doing with the frames whatever it likes between the ticks. Then every tick
  returns, and after finitely many ticks the program has completed and remains so.
\<close>

theorem finite_program_completes:
  assumes "reachable send c" "c_state c \<noteq> kActive" "c_get_timestamp c" "c_schedule_next_run c"
    and "valid_program (c_instructions c) (c_instruction_count c) repeats" "repeats \<noteq> kForeverLoopCount"
    and "\<forall>i<c_instruction_count c. GetAdditionalRepeats (c_instructions c ! i) \<noteq> kForeverLoopCount"
    and "\<forall>k. unat (fst (env k)) < 2 ^ 30"
  shows "\<exists>c1. Start now repeats c = (kSuccess, c1) \<and>
    (\<exists>n. \<forall>m\<ge>n. \<exists>c2. play send (map env [0..<m]) tick c1 = Some c2 \<and> c_state c2 = kCompleted)"
  using finite_program_played [OF assms] unfolding played_out_def .

lemma demo_loaded_facts:
  "c_state demo_loaded \<noteq> kActive" "c_get_timestamp demo_loaded" "c_schedule_next_run demo_loaded"
  "c_instruction_count demo_loaded = 2"
  "GetAdditionalRepeats (c_instructions demo_loaded ! 0) \<noteq> kForeverLoopCount"
  "GetAdditionalRepeats (c_instructions demo_loaded ! 1) \<noteq> kForeverLoopCount"
  "fst (Start 100 0 demo_loaded) = kSuccess"
  by code_simp+

theorem finite_program_completes_witness:
  "\<exists>c1 n c2. Start 100 0 demo_loaded = (kSuccess, c1)
    \<and> play fifo_send (map (\<lambda>k. (3, [])) [0..<n]) 100 c1 = Some c2 \<and> c_state c2 = kCompleted"
proof -
  have v: "valid_program (c_instructions demo_loaded) (c_instruction_count demo_loaded) 0"
    using Start_ok [OF reachable_inv [OF reachable_demo(2)] demo_loaded_facts(1), of 0 100] demo_loaded_facts(7)
    by (auto split: if_splits)
  have "\<forall>i<c_instruction_count demo_loaded. GetAdditionalRepeats (c_instructions demo_loaded ! i) \<noteq> kForeverLoopCount"
    using demo_loaded_facts(4-6) by (auto simp: less_2_cases_iff)
  then obtain c1 n where "Start 100 0 demo_loaded = (kSuccess, c1)"
      "\<forall>m\<ge>n. \<exists>c2. play fifo_send (map (\<lambda>k. (3, [])) [0..<m]) 100 c1 = Some c2 \<and> c_state c2 = kCompleted"
    using finite_program_completes [OF reachable_demo(2) demo_loaded_facts(1-3) v, of "\<lambda>k. (3, [])" 100 100]
    by (auto simp: kForeverLoopCount_def)
  then show ?thesis by blast
qed

end
