(* ===== verification/App.thy ===== *)
theory App
  imports Dispatch HwTask StillImage
begin

text \<open>
  The APP task of src/app/src/blink_app.cpp: it owns the controller, drains the command mailbox,
  runs the controller when its timer has fired and, at startup, puts a rainbow on the strip.

  The command mailbox is the one the sink sends to, so it is passed beside the task's record; the
  result of waiting for events is an argument, as are the operation that starts the one-shot timer
  and the clock: \<open>clock n\<close> is the n-th value the task reads from prism::UptimeMs. Setup is given
  the strip in the state it has when GetStrip is called, after Initialize has returned: the lemmas
  tell what it does when the app_hw task has configured the strip by then, and when it has not. Log
  messages are not modelled.
\<close>

section \<open>The task\<close>

record ('mb, 'tm) AppTask =
  app_controller :: "'mb Controller"
  app_led_count :: u8
  app_run_timer :: 'tm

definition OnScheduleNextRun :: "(u32 \<Rightarrow> 'tm \<Rightarrow> 'tm) \<Rightarrow> u32 \<Rightarrow> ('mb, 'tm) AppTask \<Rightarrow> ('mb, 'tm) AppTask" where
  "OnScheduleNextRun timer_start delay_ms app = app\<lparr>app_run_timer := timer_start delay_ms (app_run_timer app)\<rparr>"

text \<open>The callback as the controller makes it: for the delay of a run, when there is one.\<close>

definition on_schedule :: "(u32 \<Rightarrow> 'tm \<Rightarrow> 'tm) \<Rightarrow> u32 option \<Rightarrow> ('mb, 'tm) AppTask \<Rightarrow> ('mb, 'tm) AppTask" where
  "on_schedule timer_start sched app =
     (case sched of None \<Rightarrow> app | Some delay \<Rightarrow> OnScheduleNextRun timer_start delay app)"

partial_function (option) UpdateInstructions ::
  "('mb \<Rightarrow> SharedFrame \<Rightarrow> status \<times> 'mb) \<Rightarrow> ('cmb \<Rightarrow> (ControllerCommandMessage \<times> 'cmb) option) \<Rightarrow> (u32 \<Rightarrow> 'tm \<Rightarrow> 'tm)
     \<Rightarrow> (nat \<Rightarrow> u32) \<Rightarrow> nat \<Rightarrow> 'cmb \<Rightarrow> ('mb, 'tm) AppTask \<Rightarrow> (nat \<times> 'cmb \<times> ('mb, 'tm) AppTask) option" where
  "UpdateInstructions send receive timer_start clock n mailbox app =
     (case receive mailbox of
        None \<Rightarrow> Some (n, mailbox, app)
      | Some (msg, mailbox1) \<Rightarrow>
          (case DispatchControllerCommand send (clock n) (clock (n + 1)) msg (app_controller app) of
             None \<Rightarrow> None
           | Some (result, sched, c) \<Rightarrow>
               UpdateInstructions send receive timer_start clock (n + 2) mailbox1
                 (on_schedule timer_start sched (app\<lparr>app_controller := c\<rparr>))))"

declare UpdateInstructions.simps [code]

definition kCommandEventMask :: "(nat \<Rightarrow> u32) \<Rightarrow> u32" where
  "kCommandEventMask user_event = user_event 2"

definition kTimeoutEventMask :: "(nat \<Rightarrow> u32) \<Rightarrow> u32" where
  "kTimeoutEventMask user_event = user_event 3"

definition AppTask_Loop ::
  "('mb \<Rightarrow> SharedFrame \<Rightarrow> status \<times> 'mb) \<Rightarrow> ('cmb \<Rightarrow> (ControllerCommandMessage \<times> 'cmb) option) \<Rightarrow> (u32 \<Rightarrow> 'tm \<Rightarrow> 'tm)
     \<Rightarrow> (nat \<Rightarrow> u32) \<Rightarrow> (nat \<Rightarrow> u32) \<Rightarrow> nat \<Rightarrow> u32 \<Rightarrow> 'cmb \<Rightarrow> ('mb, 'tm) AppTask
     \<Rightarrow> (bool \<times> nat \<times> 'cmb \<times> ('mb, 'tm) AppTask) option" where
  "AppTask_Loop send receive timer_start user_event clock n events mailbox app =
     (case (if events AND kCommandEventMask user_event \<noteq> 0
            then UpdateInstructions send receive timer_start clock n mailbox app
            else Some (n, mailbox, app)) of
        None \<Rightarrow> None
      | Some (n1, mailbox1, app1) \<Rightarrow>
          if events AND kTimeoutEventMask user_event \<noteq> 0
          then (case RunControllerProgress send (clock n1) (app_controller app1) of
                  None \<Rightarrow> None
                | Some (st, sched, shown, c) \<Rightarrow>
                    Some (True, n1 + 1, mailbox1, on_schedule timer_start sched (app1\<lparr>app_controller := c\<rparr>)))
          else Some (True, n1, mailbox1, app1))"

section \<open>Setup\<close>

definition kRainbowColors :: "RgbColor list" where
  "kRainbowColors = [rgb 255 0 0, rgb 255 40 0, rgb 180 60 0, rgb 0 80 0, rgb 0 0 255, rgb 40 0 160, rgb 140 0 255]"

definition add_rainbow :: "nat \<Rightarrow> 'mb Controller \<Rightarrow> 'mb Controller" where
  "add_rainbow num c =
     fold (\<lambda>i c. snd (AddInstruction (Some (mk_SetSingleColor
         \<lparr>ssc_mark = 0, ssc_r = red (kRainbowColors ! i), ssc_g = green (kRainbowColors ! i),
          ssc_b = blue (kRainbowColors ! i), ssc_index = of_nat i\<rparr>)) c)) [0..<num] c"

definition AppTask_Setup ::
  "('mb \<Rightarrow> SharedFrame \<Rightarrow> status \<times> 'mb) \<Rightarrow> (u32 \<Rightarrow> 'tm \<Rightarrow> 'tm) \<Rightarrow> (nat \<Rightarrow> u32) \<Rightarrow> status \<Rightarrow> 'mb StripManager
     \<Rightarrow> 'cmb \<Rightarrow> 'cmb ControllerCommandSink \<Rightarrow> ('mb, 'tm) AppTask
     \<Rightarrow> (bool \<times> 'cmb ControllerCommandSink \<times> ('mb, 'tm) AppTask) option" where
  "AppTask_Setup send timer_start clock init_ret strip command_mailbox sink app =
     (if is_negative init_ret then Some (False, sink, app)
      else
        let led_count = of_nat (strip_led_count strip);
            c1 = SetScheduleCallback True (SetTimestampCallback True (SetStrip True ((app_controller app)\<lparr>c_device := strip\<rparr>)));
            sink1 = SetMailbox (Some command_mailbox) sink;
            num = (if unat led_count < length kRainbowColors then unat led_count else length kRainbowColors);
            c2 = add_rainbow num c1;
            app1 = app\<lparr>app_led_count := led_count, app_controller := c2\<rparr>
        in case DispatchControllerCommand send (clock 0) (clock 1) (CmdStart \<lparr>sc_root_additional_repeats = 0\<rparr>) c2 of
             None \<Rightarrow> None
           | Some (start_result, sched, c3) \<Rightarrow>
               Some (True, sink1, on_schedule timer_start sched (app1\<lparr>app_controller := c3\<rparr>)))"

text \<open>
  What the OS layer calls: the functions of the single task object. Setup is given the stack of the
  app_hw task, which it hands to Initialize, and fails without it; the loop ignores its context.
\<close>

record AppTaskStartupContext =
  ctx_hw_task_stack_buffer :: "nat option"
  ctx_hw_task_stack_size_bytes :: nat

definition AppTask_SetupTrampoline ::
  "('mb \<Rightarrow> SharedFrame \<Rightarrow> status \<times> 'mb) \<Rightarrow> (u32 \<Rightarrow> 'tm \<Rightarrow> 'tm) \<Rightarrow> (nat \<Rightarrow> u32) \<Rightarrow> (nat option \<Rightarrow> nat \<Rightarrow> status)
     \<Rightarrow> 'mb StripManager \<Rightarrow> 'cmb \<Rightarrow> 'cmb ControllerCommandSink \<Rightarrow> ('mb, 'tm) AppTask \<Rightarrow> AppTaskStartupContext option
     \<Rightarrow> (bool \<times> 'cmb ControllerCommandSink \<times> ('mb, 'tm) AppTask) option" where
  "AppTask_SetupTrampoline send timer_start clock initialize strip command_mailbox sink app context =
     (case context of
        None \<Rightarrow> Some (False, sink, app)
      | Some ctx \<Rightarrow>
          AppTask_Setup send timer_start clock (initialize (ctx_hw_task_stack_buffer ctx) (ctx_hw_task_stack_size_bytes ctx))
            strip command_mailbox sink app)"

lemma AppTask_without_stack:
  assumes "ctx_hw_task_stack_buffer ctx = None \<or> ctx_hw_task_stack_size_bytes ctx = 0"
  shows "AppTask_SetupTrampoline send timer_start clock (\<lambda>b n. fst (Initialize board b n initialized hw))
      strip mailbox sink app (Some ctx) = Some (False, sink, app)"
  using assms by (auto simp: AppTask_SetupTrampoline_def AppTask_Setup_def Initialize_def)

section \<open>Draining the mailbox\<close>

text \<open>The same commands one after the other, without the mailbox.\<close>

fun dispatch_all ::
  "('mb \<Rightarrow> SharedFrame \<Rightarrow> status \<times> 'mb) \<Rightarrow> (nat \<Rightarrow> u32) \<Rightarrow> nat \<Rightarrow> ControllerCommandMessage list \<Rightarrow> 'mb Controller
     \<Rightarrow> (ControllerCommandResult list \<times> u32 list \<times> 'mb Controller) option" where
  "dispatch_all send clock n [] c = Some ([], [], c)"
| "dispatch_all send clock n (m # ms) c =
     (case DispatchControllerCommand send (clock n) (clock (n + 1)) m c of
        None \<Rightarrow> None
      | Some (result, sched, c1) \<Rightarrow>
          (case dispatch_all send clock (n + 2) ms c1 of
             None \<Rightarrow> None
           | Some (results, delays, c2) \<Rightarrow>
               Some (result # results, (case sched of None \<Rightarrow> delays | Some d \<Rightarrow> d # delays), c2)))"

lemma dispatch_all_ok:
  "reachable send c \<Longrightarrow> \<exists>results delays c'. dispatch_all send clock n ms c = Some (results, delays, c') \<and> reachable send c'
    \<and> length results = length ms \<and> (\<forall>r\<in>set results. initial_run_status r \<in> {kSuccess, kInvalidProgram, kAlreadyActiveGroup})"
proof (induction ms arbitrary: n c)
  case (Cons m ms)
  obtain result sched c1 where d: "DispatchControllerCommand send (clock n) (clock (n + 1)) m c = Some (result, sched, c1)"
      "reachable send c1" "initial_run_status result \<in> {kSuccess, kInvalidProgram, kAlreadyActiveGroup}"
    using dispatch_ok [OF Cons.prems] by blast
  from Cons.IH [OF d(2), of "n + 2"] d show ?case by auto
qed auto

lemma UpdateInstructions_dispatches:
  assumes mail: "mailbox_laws msend receive pending" and "reachable send (app_controller app)"
  shows "\<exists>mailbox' results delays c'. dispatch_all send clock n (pending mailbox) (app_controller app) = Some (results, delays, c')
    \<and> UpdateInstructions send receive timer_start clock n mailbox app
        = Some (n + 2 * length (pending mailbox), mailbox', app\<lparr>app_controller := c', app_run_timer := fold timer_start delays (app_run_timer app)\<rparr>)
    \<and> pending mailbox' = [] \<and> reachable send c'"
  using assms(2)
proof (induction "pending mailbox" arbitrary: n mailbox app)
  case Nil
  then have "receive mailbox = None" using mail by (simp add: mailbox_laws_def)
  then have "UpdateInstructions send receive timer_start clock n mailbox app = Some (n, mailbox, app)"
    by (subst UpdateInstructions.simps) simp
  then show ?case using Nil by (simp flip: Nil(1))
next
  case (Cons m ms)
  have "receive mailbox \<noteq> None" using mail Cons(2) by (auto simp: mailbox_laws_def)
  then obtain m' mb1 where "receive mailbox = Some (m', mb1)" by auto
  moreover from this have "pending mailbox = m' # pending mb1" using mail by (simp add: mailbox_laws_def)
  ultimately have rc: "receive mailbox = Some (m, mb1)" "pending mb1 = ms" using Cons(2) by simp_all
  obtain result sched c1 where d: "DispatchControllerCommand send (clock n) (clock (n + 1)) m (app_controller app) = Some (result, sched, c1)"
      "reachable send c1"
    using dispatch_ok [OF Cons.prems] by blast
  let ?app = "on_schedule timer_start sched (app\<lparr>app_controller := c1\<rparr>)"
  have a: "app_controller ?app = c1" by (simp add: on_schedule_def OnScheduleNextRun_def split: option.split)
  obtain mb' results delays c' where ih: "dispatch_all send clock (n + 2) ms c1 = Some (results, delays, c')"
      "UpdateInstructions send receive timer_start clock (n + 2) mb1 ?app
        = Some (n + 2 + 2 * length ms, mb', ?app\<lparr>app_controller := c', app_run_timer := fold timer_start delays (app_run_timer ?app)\<rparr>)"
      "pending mb' = []" "reachable send c'"
    using Cons.hyps(1) [of mb1 ?app "n + 2"] d(2) by (auto simp: rc(2) a)
  have u: "UpdateInstructions send receive timer_start clock n mailbox app
      = UpdateInstructions send receive timer_start clock (n + 2) mb1 ?app"
    by (subst UpdateInstructions.simps) (simp only: rc(1) d(1) option.case prod.case)
  have p: "pending mailbox = m # ms" using Cons(2) by simp
  show ?case unfolding u ih(2) p using d(1) ih(1,3,4)
    by (auto simp: on_schedule_def OnScheduleNextRun_def split: option.split)
qed

section \<open>Loading a program\<close>

definition program_slots :: "bool \<Rightarrow> ControllerInstruction list \<Rightarrow> InstructionMemorySlot list" where
  "program_slots b is = map (\<lambda>i. Some (i\<lparr>i_strip := b, i_controller := True\<rparr>)) is @ replicate (kMaxInstructions - length is) None"

lemma program_slots_snoc:
  assumes "length js < kMaxInstructions"
  shows "(program_slots b js)[length js := Some (i\<lparr>i_strip := b, i_controller := True\<rparr>)] = program_slots b (js @ [i])"
proof -
  obtain k where k: "kMaxInstructions - length js = Suc k" using assms by (cases "kMaxInstructions - length js") auto
  then have "kMaxInstructions - Suc (length js) = k" by simp
  then show ?thesis by (simp add: program_slots_def k list_update_append)
qed

definition added :: ControllerCommandResult where
  "added = ControllerCommandResult_init\<lparr>mutation_attempted := True\<rparr>"

lemma dispatch_adds:
  assumes "c_state c = kEditable" "c_instructions c = program_slots (c_strip c) js" "c_instruction_count c = length js"
    and "length js + length is \<le> kMaxInstructions" "map command_instruction ms = map Some is"
  shows "dispatch_all send clock n ms c = Some (replicate (length is) added, [],
    c\<lparr>c_instructions := program_slots (c_strip c) (js @ is), c_instruction_count := length js + length is\<rparr>)"
  using assms
proof (induction ms arbitrary: n c js "is")
  case Nil
  then show ?case by simp
next
  case (Cons m ms)
  obtain i "is'" where i: "is = i # is'" "command_instruction m = Some i" "map command_instruction ms = map Some is'"
    using Cons.prems(5) by (cases "is") auto
  let ?c = "c\<lparr>c_instructions := program_slots (c_strip c) (js @ [i]), c_instruction_count := Suc (length js)\<rparr>"
  have "AddInstruction (Some i) c = (kSuccess, ?c)"
    using Cons.prems i(1) program_slots_snoc [of js "c_strip c" i] by (simp add: AddInstruction_cases)
  then have d: "DispatchControllerCommand send (clock n) (clock (n + 1)) m c = Some (added, None, ?c)"
    by (simp add: dispatch_instruction [OF i(2)] added_def ControllerCommandResult_init_def)
  have "dispatch_all send clock (n + 2) ms ?c = Some (replicate (length is') added, [],
      ?c\<lparr>c_instructions := program_slots (c_strip ?c) ((js @ [i]) @ is'), c_instruction_count := length (js @ [i]) + length is'\<rparr>)"
    using Cons.prems i by (intro Cons.IH) auto
  then show ?case by (simp only: dispatch_all.simps d option.case prod.case) (simp add: i(1))
qed

lemma dispatch_all_append:
  "dispatch_all send clock n (xs @ ys) c = (case dispatch_all send clock n xs c of None \<Rightarrow> None
     | Some (rs, ds, c1) \<Rightarrow> (case dispatch_all send clock (n + 2 * length xs) ys c1 of None \<Rightarrow> None
         | Some (rs', ds', c2) \<Rightarrow> Some (rs @ rs', ds @ ds', c2)))"
proof (induction xs arbitrary: n c)
  case (Cons x xs)
  have "Suc (Suc n) + 2 * length xs = n + 2 * length (x # xs)" by simp
  then show ?case by (simp add: Cons.IH algebra_simps split: option.splits prod.splits)
qed (simp split: option.splits prod.splits)

lemma StartAndTick_program:
  assumes inv: "ctl_inv c" and idle: "c_state c \<noteq> kActive"
    and r: "StartAndTick send t0 t1 r result c = Some (result', sched, c')"
  shows "start_attempted result' \<and>
    start_status result' = (if valid_program (c_instructions c) (c_instruction_count c) r then kSuccess else kInvalidProgram)
    \<and> (if valid_program (c_instructions c) (c_instruction_count c) r then c_state c' \<noteq> kEditable else c' = c)
    \<and> map slot_ResetForReplay (c_instructions c') = map slot_ResetForReplay (c_instructions c)
    \<and> c_instruction_count c' = c_instruction_count c"
proof (cases "valid_program (c_instructions c) (c_instruction_count c) r")
  case True
  then obtain c1 where s: "Start t0 r c = (kSuccess, c1)" "ctl_inv c1" "c_state c1 \<noteq> kEditable"
      "map slot_ResetForReplay (c_instructions c1) = map slot_ResetForReplay (c_instructions c)" "c_instruction_count c1 = c_instruction_count c"
    using Start_ok [OF inv idle, of r t0] by (auto split: if_splits)
  obtain st d sh c2 where run: "Run send t1 c1 = Some (st, d, sh, c2)" "program c2 = program c1"
      "c_state c1 \<noteq> kActive \<longrightarrow> c2 = c1" "c_state c1 = kActive \<longrightarrow> c_state c2 \<noteq> kEditable"
    using Run_ok [OF s(2), of send t1] by blast
  have "result' = result\<lparr>start_attempted := True, start_status := kSuccess, initial_run_attempted := True, initial_run_status := st\<rparr>" "c' = c2"
    using r s(1) run(1) by (simp_all add: StartAndTick_def)
  then show ?thesis using True s run by (auto simp: program_def)
next
  case False
  then have "Start t0 r c = (kInvalidProgram, c)" using Start_ok [OF inv idle, of r t0] by simp
  then show ?thesis using False r by (auto simp: StartAndTick_def)
qed

lemma dispatch_program:
  assumes reach: "reachable send c" and len: "length is \<le> kMaxInstructions" and ms: "map command_instruction ms = map Some is"
  defines "slots \<equiv> program_slots (c_strip c) is"
  shows "\<exists>result delays c'. dispatch_all send clock n (CmdResetInstructions # ms @ [CmdStart p]) c
      = Some (ControllerCommandResult_init # replicate (length is) added @ [result], delays, c')
    \<and> start_status result = (if valid_program slots (length is) (sc_root_additional_repeats p) then kSuccess else kInvalidProgram)
    \<and> (c_state c' \<noteq> kEditable \<longleftrightarrow> valid_program slots (length is) (sc_root_additional_repeats p))
    \<and> map slot_ResetForReplay (c_instructions c') = map slot_ResetForReplay slots
    \<and> c_instruction_count c' = length is \<and> reachable send c'
    \<and> (valid_program slots (length is) (sc_root_additional_repeats p) \<longrightarrow>
        (\<exists>c0 c1 st sched shown. reachable send c0 \<and> c_state c0 = kEditable \<and> c_instructions c0 = slots \<and> c_instruction_count c0 = length is
          \<and> c_get_timestamp c0 = c_get_timestamp c \<and> c_schedule_next_run c0 = c_schedule_next_run c
          \<and> Start (clock (n + 2 + 2 * length is)) (sc_root_additional_repeats p) c0 = (kSuccess, c1)
          \<and> Run send (clock (n + 2 + 2 * length is + 1)) c1 = Some (st, sched, shown, c')
          \<and> delays = (case sched of None \<Rightarrow> [] | Some d \<Rightarrow> [d])))"
proof -
  let ?c0 = "ResetInstructions c" and ?r = "sc_root_additional_repeats p"
  have "length (c_instructions c) = kMaxInstructions" using reachable_inv [OF reach] by (simp add: ctl_inv_def base_inv_def)
  moreover have "map slot_Clear xs = replicate (length xs) None" for xs by (induction xs) (simp_all add: slot_Clear_def)
  ultimately have i0: "c_instructions ?c0 = program_slots (c_strip ?c0) []"
    by (simp add: ResetInstructions_def program_slots_def)
  have s0: "c_state ?c0 = kEditable" "c_instruction_count ?c0 = 0" "c_strip ?c0 = c_strip c" by (simp_all add: ResetInstructions_def)
  let ?c1 = "?c0\<lparr>c_instructions := slots, c_instruction_count := length is\<rparr>"
  have adds: "dispatch_all send clock (n + 2) ms ?c0 = Some (replicate (length is) added, [], ?c1)"
    using dispatch_adds [OF s0(1) i0, of "is" ms] s0 len ms by (simp add: slots_def)
  have r0: "reachable send ?c0" by (rule reachable.step [OF reach ctl_step.reset])
  have r1: "reachable send ?c1" using dispatch_all_ok [OF r0, of clock "n + 2" ms] adds by auto
  have lm: "length ms = length is" using ms by (metis length_map)
  obtain result sched c' where st: "StartAndTick send (clock (n + 2 + 2 * length is)) (clock (n + 2 + 2 * length is + 1)) ?r ControllerCommandResult_init ?c1 = Some (result, sched, c')" "reachable send c'"
    using StartAndTick_ok [OF r1] by blast
  have d: "dispatch_all send clock (n + 2 + 2 * length ms) [CmdStart p] ?c1 = Some ([result], (case sched of None \<Rightarrow> [] | Some d \<Rightarrow> [d]), c')"
    using st(1) by (simp add: dispatch_start lm)
  have "dispatch_all send clock (n + 2) (ms @ [CmdStart p]) ?c0
      = Some (replicate (length is) added @ [result], (case sched of None \<Rightarrow> [] | Some d \<Rightarrow> [d]), c')"
    by (simp only: dispatch_all_append adds d option.case prod.case append_Nil)
  then have "dispatch_all send clock n (CmdResetInstructions # ms @ [CmdStart p]) c
      = Some (ControllerCommandResult_init # replicate (length is) added @ [result], (case sched of None \<Rightarrow> [] | Some d \<Rightarrow> [d]), c')"
    by (simp only: dispatch_all.simps dispatch_reset option.case prod.case)
  moreover note prog = StartAndTick_program [OF reachable_inv [OF r1] _ st(1)]
  moreover have "\<exists>c0 c1 st sched' shown. reachable send c0 \<and> c_state c0 = kEditable \<and> c_instructions c0 = slots \<and> c_instruction_count c0 = length is
      \<and> c_get_timestamp c0 = c_get_timestamp c \<and> c_schedule_next_run c0 = c_schedule_next_run c
      \<and> Start (clock (n + 2 + 2 * length is)) ?r c0 = (kSuccess, c1)
      \<and> Run send (clock (n + 2 + 2 * length is + 1)) c1 = Some (st, sched', shown, c')
      \<and> (case sched of None \<Rightarrow> [] | Some d \<Rightarrow> [d]) = (case sched' of None \<Rightarrow> [] | Some d \<Rightarrow> [d])"
    if "valid_program slots (length is) ?r"
  proof -
    have v: "valid_program (c_instructions ?c1) (c_instruction_count ?c1) ?r" and idle: "c_state ?c1 \<noteq> kActive"
      using that s0 by simp_all
    obtain c1 where s: "Start (clock (n + 2 + 2 * length is)) ?r ?c1 = (kSuccess, c1)"
      using Start_ok [OF reachable_inv [OF r1] idle, of ?r "clock (n + 2 + 2 * length is)", unfolded if_P [OF v]] by blast
    obtain st' shown where "Run send (clock (n + 2 + 2 * length is + 1)) c1 = Some (st', sched, shown, c')"
      using st(1) s by (auto simp: StartAndTick_def split: option.splits)
    moreover have "c_get_timestamp ?c1 = c_get_timestamp c" "c_schedule_next_run ?c1 = c_schedule_next_run c"
      by (simp_all add: ResetInstructions_def)
    ultimately show ?thesis
      using r1 s0 s by - (rule exI [of _ ?c1], rule exI [of _ c1], rule exI [of _ st'], rule exI [of _ sched], rule exI [of _ shown], simp)
  qed
  ultimately show ?thesis using st(2) s0 by (auto split: if_splits)
qed

section \<open>The rainbow\<close>

definition rainbow_instruction :: "nat \<Rightarrow> ControllerInstruction" where
  "rainbow_instruction i = instr 0 0 (SetSingleColor (kRainbowColors ! i) (of_nat i))"

lemma rgb_eta: "rgb (red x) (green x) (blue x) = x"
  by (simp add: rgb_def)

lemma add_rainbow_slots:
  assumes "c_state c = kEditable" "c_instructions c = program_slots (c_strip c) []" "c_instruction_count c = 0"
  shows "num \<le> kMaxInstructions \<Longrightarrow> add_rainbow num c =
    c\<lparr>c_instructions := program_slots (c_strip c) (map rainbow_instruction [0..<num]), c_instruction_count := num\<rparr>"
proof (induction num)
  case 0
  then show ?case using assms by (simp add: add_rainbow_def)
next
  case (Suc num)
  let ?c = "c\<lparr>c_instructions := program_slots (c_strip c) (map rainbow_instruction [0..<num]), c_instruction_count := num\<rparr>"
  have "add_rainbow (Suc num) c = snd (AddInstruction (Some (rainbow_instruction num)) (add_rainbow num c))"
    by (simp add: add_rainbow_def rainbow_instruction_def mk_SetSingleColor_def rgb_eta)
  also have "\<dots> = snd (AddInstruction (Some (rainbow_instruction num)) ?c)" using Suc by simp
  also have "\<dots> = c\<lparr>c_instructions := program_slots (c_strip c) (map rainbow_instruction [0..<Suc num]), c_instruction_count := Suc num\<rparr>"
    using Suc.prems assms(1) program_slots_snoc [of "map rainbow_instruction [0..<num]" "c_strip c" "rainbow_instruction num"]
    by (simp add: AddInstruction_cases)
  finally show ?case .
qed

lemma rainbow_slot:
  "i < num \<Longrightarrow> program_slots b (map rainbow_instruction [0..<num]) ! i
     = Some ((rainbow_instruction i)\<lparr>i_strip := b, i_controller := True\<rparr>)"
  by (simp add: program_slots_def nth_append)

lemma rainbow_painted:
  assumes "num \<le> 7" "strip_inv s"
  shows "strip_inv (painted (program_slots b (map rainbow_instruction [0..<num])) num s)
    \<and> strip_led_count (painted (program_slots b (map rainbow_instruction [0..<num])) num s) = strip_led_count s
    \<and> LedColor (painted (program_slots b (map rainbow_instruction [0..<num])) num s) j
     = (if j < num \<and> j < strip_led_count s then kRainbowColors ! j else LedColor s j)"
proof -
  let ?sl = "program_slots b (map rainbow_instruction [0..<num])"
  have k: "sort_key (\<lambda>i. GetMark (?sl ! i)) [0..<num] = [0..<num]"
  proof -
    have "sort_key (\<lambda>i. GetMark (?sl ! i)) [0..<num] = sort_key (\<lambda>i. 0 :: Mark) [0..<num]"
      by (intro sort_key_cong) (simp_all add: rainbow_slot GetMark_def rainbow_instruction_def instr_def)
    then show ?thesis by (simp add: sort_key_const)
  qed
  have "fold (\<lambda>i. paint_slot (?sl ! i)) [0..<num] s = fold (\<lambda>i s. set_led s i (kRainbowColors ! i)) [0..<num] s"
  proof (intro fold_cong refl)
    fix i assume "i \<in> set [0..<num]"
    then have i: "i < num" "unat (of_nat i :: u8) = i" using assms(1) by (auto simp: unat_of_nat take_bit_nat_eq_self)
    then show "paint_slot (?sl ! i) = (\<lambda>s. set_led s i (kRainbowColors ! i))"
      by (intro ext) (simp add: rainbow_slot paint_slot_def rainbow_instruction_def instr_def)
  qed
  then have p: "painted ?sl num s = fold (\<lambda>i s. set_led s i (kRainbowColors ! i)) [0..<num] s"
    by (simp add: painted_def k)
  have "strip_inv (fold (\<lambda>i s. set_led s i (kRainbowColors ! i)) [0..<m] s)
      \<and> strip_led_count (fold (\<lambda>i s. set_led s i (kRainbowColors ! i)) [0..<m] s) = strip_led_count s
      \<and> LedColor (fold (\<lambda>i s. set_led s i (kRainbowColors ! i)) [0..<m] s) j
         = (if j < m \<and> j < strip_led_count s then kRainbowColors ! j else LedColor s j)" for m
    by (induction m) (auto simp: assms(2) manager.invar_set manager.count_set manager.pixel_set less_Suc_eq)
  then show ?thesis by (simp add: p)
qed

lemma rainbow_still:
  "still_program (program_slots True (map rainbow_instruction [0..<num])) num"
  "i < num \<Longrightarrow> GetMark (program_slots b (map rainbow_instruction [0..<num]) ! i) = 0"
  by (simp_all add: still_program_def rainbow_slot color_slot_def rainbow_instruction_def instr_def GetGroupId_def GetMark_def)

lemma rainbow_loaded:
  assumes inv: "strip_inv strip" and num: "num \<le> 7"
  defines "c \<equiv> add_rainbow num (SetScheduleCallback True (SetTimestampCallback True (SetStrip True (Controller_init strip))))"
  shows "reachable send c \<and> c_state c \<noteq> kActive \<and> c_strip c \<and> c_instruction_count c = num \<and> c_device c = strip
    \<and> c_instructions c = program_slots True (map rainbow_instruction [0..<num])"
proof -
  define c1 where "c1 = SetScheduleCallback True (SetTimestampCallback True (SetStrip True (Controller_init strip)))"
  have "reachable send c1"
    unfolding c1_def by (intro reachable.step [OF _ ctl_step.schedule] reachable.step [OF _ ctl_step.timestamp]
      reachable.step [OF _ ctl_step.strip] reachable.init inv)
  then have r: "reachable send (add_rainbow k c1)" for k
    by (induction k) (simp_all add: add_rainbow_def reachable.step [OF _ ctl_step.add])
  have f1: "c_state c1 = kEditable" "c_instructions c1 = program_slots (c_strip c1) []" "c_instruction_count c1 = 0" "c_strip c1" "c_device c1 = strip"
    by (simp_all add: c1_def SetScheduleCallback_def SetTimestampCallback_def SetStrip_def Controller_init_def program_slots_def)
  have "num \<le> kMaxInstructions" using num by (simp add: kMaxInstructions_def)
  then have "add_rainbow num c1 = c1\<lparr>c_instructions := program_slots True (map rainbow_instruction [0..<num]), c_instruction_count := num\<rparr>"
    using add_rainbow_slots [OF f1(1-3)] f1(4) by simp
  then show ?thesis using r [of num] f1 by (simp add: c_def c1_def [symmetric])
qed

lemma Setup_rainbow:
  assumes init: "\<not> is_negative init_ret" and inv: "strip_inv strip" and n: "0 < strip_led_count strip"
    and fresh: "app_controller app = Controller_init device"
  shows "\<exists>app' picture. AppTask_Setup send timer_start clock init_ret strip mailbox sink app
        = Some (True, \<lparr>sink_mailbox = Some mailbox\<rparr>, app')
    \<and> reachable send (app_controller app') \<and> c_state (app_controller app') = kCompleted
    \<and> app_run_timer app' = app_run_timer app \<and> unat (app_led_count app') = strip_led_count strip
    \<and> c_device (app_controller app') = snd (Show send picture) \<and> strip_inv picture \<and> strip_ready picture
    \<and> strip_mailbox picture = strip_mailbox strip \<and> strip_led_count picture = strip_led_count strip
    \<and> (\<forall>i < strip_led_count strip. LedColor picture i = (if i < 7 then kRainbowColors ! i else LedColor strip i))"
proof -
  let ?n = "strip_led_count strip"
  have le: "?n \<le> kSharedFrameCapacity" and ready: "strip_ready strip" using inv n by (auto simp: strip_inv_def)
  define c1 where "c1 = SetScheduleCallback True (SetTimestampCallback True (SetStrip True ((app_controller app)\<lparr>c_device := strip\<rparr>)))"
  define led where "led = (of_nat ?n :: u8)"
  have led: "unat led = ?n" using le by (simp add: led_def kSharedFrameCapacity_def unat_of_nat take_bit_nat_eq_self)
  define num where "num = (if unat led < length kRainbowColors then unat led else length kRainbowColors)"
  have num: "0 < num" "num \<le> 7" "num \<le> ?n" "?n < 7 \<longrightarrow> num = ?n" "7 \<le> ?n \<longrightarrow> num = 7"
    using n by (auto simp: num_def led kRainbowColors_def)
  define c2 where "c2 = add_rainbow num c1"
  have "(app_controller app)\<lparr>c_device := strip\<rparr> = Controller_init strip" by (simp add: fresh Controller_init_def)
  then have c2: "reachable send c2" "c_state c2 \<noteq> kActive" "c_strip c2" "c_instruction_count c2 = num" "c_device c2 = strip"
      "c_instructions c2 = program_slots True (map rainbow_instruction [0..<num])"
    using rainbow_loaded [OF inv num(2), of send] by (simp_all add: c2_def c1_def)
  let ?p = "painted (c_instructions c2) num (c_device c2)"
  obtain c3 c4 where st: "Start (clock 0) 0 c2 = (kSuccess, c3)" "Run send (clock 1) c3 = Some (kSuccess, None, True, c4)"
      "c_state c4 = kCompleted" "c_device c4 = snd (Show send ?p)"
    using still_image [OF c2(1-4) num(1), of "clock 1" "clock 0"] rainbow_still(1) [of num] rainbow_still(2) [of _ num] by (auto simp: c2(6))
  have r4: "reachable send c4"
    using reachable.step [OF reachable.step [OF c2(1) ctl_step.start, of "clock 0" 0] ctl_step.run, of "clock 1"] st by simp
  have d: "DispatchControllerCommand send (clock 0) (clock 1) (CmdStart \<lparr>sc_root_additional_repeats = 0\<rparr>) c2
      = Some (ControllerCommandResult_init\<lparr>start_attempted := True, start_status := kSuccess, initial_run_attempted := True, initial_run_status := kSuccess\<rparr>, None, c4)"
    by (simp add: dispatch_start StartAndTick_def st del: One_nat_def)
  let ?app = "app\<lparr>app_led_count := led, app_controller := c4\<rparr>"
  have "AppTask_Setup send timer_start clock init_ret strip mailbox sink app = Some (True, \<lparr>sink_mailbox = Some mailbox\<rparr>, ?app)"
    unfolding AppTask_Setup_def Let_def c1_def [symmetric] led_def [symmetric] num_def [symmetric] c2_def [symmetric] d
    using init by (simp add: on_schedule_def SetMailbox_def)
  moreover have "strip_inv ?p \<and> strip_led_count ?p = ?n \<and> (\<forall>i<?n. LedColor ?p i = (if i < 7 then kRainbowColors ! i else LedColor strip i))"
    using rainbow_painted [OF num(2) inv, of True] num by (auto simp: c2(5,6))
  moreover have "strip_mailbox ?p = strip_mailbox strip \<and> strip_ready ?p" using ready by (simp add: painted_frame c2(5))
  ultimately show ?thesis using r4 st(3,4) led by (intro exI [of _ ?app] exI [of _ ?p]) simp
qed

text \<open>
  The rainbow needs the app_hw task to be first: when the setup of the APP task reads the strip before
  the other task has configured it, it finds no pixels, loads nothing and completes an empty program.
\<close>

lemma Setup_early:
  assumes init: "\<not> is_negative init_ret" and fresh: "app_controller app = Controller_init device"
  shows "\<exists>app'. AppTask_Setup send timer_start clock init_ret (StripManager_init mb) mailbox sink app
        = Some (True, \<lparr>sink_mailbox = Some mailbox\<rparr>, app')
    \<and> c_state (app_controller app') = kCompleted \<and> c_device (app_controller app') = StripManager_init mb
    \<and> c_instruction_count (app_controller app') = 0 \<and> app_led_count app' = 0 \<and> app_run_timer app' = app_run_timer app"
proof -
  let ?strip = "StripManager_init mb"
  define c2 where "c2 = add_rainbow 0 (SetScheduleCallback True (SetTimestampCallback True (SetStrip True (Controller_init ?strip))))"
  have c2: "reachable send c2" "c_state c2 \<noteq> kActive" "c_instruction_count c2 = 0" "c_device c2 = ?strip"
    using rainbow_loaded [OF strip_inv_init, of 0 send mb] by (simp_all add: c2_def)
  have v: "valid_program (c_instructions c2) (c_instruction_count c2) 0"
    using valid_program_no_calls [of 0 "c_instructions c2"] c2(3) by simp
  obtain c3 where s: "Start (clock 0) 0 c2 = (kSuccess, c3)" "c_state c3 = kCompleted" "c_device c3 = ?strip" "c_instruction_count c3 = 0"
    using Start_ok [OF reachable_inv [OF c2(1)] c2(2), of 0 "clock 0", unfolded if_P [OF v]] c2(3,4) by auto
  then have r: "Run send (clock 1) c3 = Some (kSuccess, None, False, c3)" by (simp add: Run_def)
  have d: "DispatchControllerCommand send (clock 0) (clock 1) (CmdStart \<lparr>sc_root_additional_repeats = 0\<rparr>) c2
      = Some (ControllerCommandResult_init\<lparr>start_attempted := True, start_status := kSuccess, initial_run_attempted := True, initial_run_status := kSuccess\<rparr>, None, c3)"
    by (simp add: dispatch_start StartAndTick_def s(1) r del: One_nat_def)
  have "(app_controller app)\<lparr>c_device := ?strip\<rparr> = Controller_init ?strip" by (simp add: fresh Controller_init_def)
  moreover have "strip_led_count ?strip = 0" by (simp add: StripManager_init_def)
  ultimately show ?thesis
    using init d s by (simp add: AppTask_Setup_def Let_def c2_def [symmetric] on_schedule_def SetMailbox_def kRainbowColors_def del: One_nat_def)
qed

section \<open>The timer of an active program\<close>

text \<open>The delay the run timer has to be started with: the earliest of the waiting times, never zero.\<close>

definition earliest_timeout :: "u32 \<Rightarrow> 'mb Controller \<Rightarrow> u32 \<Rightarrow> bool" where
  "earliest_timeout ts c d \<longleftrightarrow>
     d \<noteq> 0 \<and> d \<in> set (pending_delays ts c) \<and> (\<forall>x\<in>set (pending_delays ts c). d \<le> x)"

text \<open>
  What a step of the controller leaves of its schedule: an active program either asked for its
  earliest timeout, or the step changed nothing.
\<close>

definition schedule_kept :: "u32 \<Rightarrow> u32 option \<Rightarrow> 'mb Controller \<Rightarrow> 'mb Controller \<Rightarrow> bool" where
  "schedule_kept now sched c c' \<longleftrightarrow>
     c_schedule_next_run c' = c_schedule_next_run c \<and>
     (c_state c' = kActive \<longrightarrow> c_schedule_next_run c' \<longrightarrow>
        (case sched of None \<Rightarrow> c' = c | Some d \<Rightarrow> earliest_timeout (GetTimestamp now c') c' d))"

lemma schedule_kept_refl [simp]: "schedule_kept now None c c"
  by (simp add: schedule_kept_def)

lemma GetTimestamp_program: "program c' = program c \<Longrightarrow> GetTimestamp now c' = GetTimestamp now c"
  by (simp add: program_def GetTimestamp_def)

lemma Run_schedules:
  assumes "reachable send c" "Run send now c = Some (st, sched, shown, c')"
  shows "c_schedule_next_run c' = c_schedule_next_run c"
    and "c_state c' = kActive \<Longrightarrow> c_schedule_next_run c' \<Longrightarrow> \<exists>d. sched = Some d \<and> earliest_timeout (GetTimestamp now c') c' d"
proof -
  note ok = Run_ok [OF reachable_inv [OF assms(1)], of send now, unfolded assms(2)]
  then have p: "program c' = program c" by auto
  then show "c_schedule_next_run c' = c_schedule_next_run c" by (simp add: program_def)
  then show "c_state c' = kActive \<Longrightarrow> c_schedule_next_run c' \<Longrightarrow> \<exists>d. sched = Some d \<and> earliest_timeout (GetTimestamp now c') c' d"
    using ok unfolding earliest_timeout_def GetTimestamp_program [OF p] by (cases "c_state c = kActive") auto
qed

lemma StartAndTick_schedules:
  assumes "reachable send c" "StartAndTick send t0 t1 r result0 c = Some (result, sched, c')"
  shows "schedule_kept t1 sched c c'"
proof -
  obtain st c1 where s: "Start t0 r c = (st, c1)" by (metis prod.exhaust)
  have r1: "reachable send c1" using reachable.step [OF assms(1) ctl_step.start, of t0 r] s by simp
  show ?thesis
  proof (cases "st = kSuccess")
    case False
    have "c1 = c"
    proof (cases "c_state c = kActive")
      case True
      then show ?thesis using s by (simp add: Start_def)
    next
      case idle: False
      show ?thesis using Start_ok [OF reachable_inv [OF assms(1)] idle, where now = t0 and repeats = r] s False by (auto split: if_splits)
    qed
    then show ?thesis using assms(2) s False by (simp add: StartAndTick_def)
  next
    case True
    then have idle: "c_state c \<noteq> kActive" using s by (auto simp: Start_def)
    have flag: "c_schedule_next_run c1 = c_schedule_next_run c"
      using Start_ok [OF reachable_inv [OF assms(1)] idle, where now = t0 and repeats = r] s True by (auto split: if_splits)
    obtain st2 shown where run: "Run send t1 c1 = Some (st2, sched, shown, c')"
      using assms(2) s True by (auto simp: StartAndTick_def split: option.splits)
    show ?thesis using Run_schedules [OF r1 run] flag by (auto simp: schedule_kept_def)
  qed
qed

lemma dispatch_schedules:
  assumes "reachable send c" "DispatchControllerCommand send t0 t1 m c = Some (result, sched, c')"
  shows "schedule_kept t1 sched c c'"
proof (cases m rule: command_cases)
  case (1 i)
  then show ?thesis using assms(2)
    by (auto simp: dispatch_instruction AddInstruction_cases schedule_kept_def split: if_splits)
next
  case (2 r)
  then show ?thesis using StartAndTick_schedules [OF assms(1)] assms(2) by (simp add: dispatch_start)
next
  case 3
  then show ?thesis using assms(2) by (auto simp: dispatch_reset schedule_kept_def ResetInstructions_def)
qed (use assms(2) in \<open>auto simp: DispatchControllerCommand_def Let_def\<close>)

text \<open>
  After any sequence of commands an active program either is the one from before, and no delay was
  asked for, or the last delay asked for is its earliest timeout at the clock reading of that run.
\<close>

lemma dispatch_all_schedules:
  assumes "reachable send c" "dispatch_all send clock n ms c = Some (results, delays, c')"
  shows "c_schedule_next_run c' = c_schedule_next_run c \<and>
    (c_state c' = kActive \<longrightarrow> c_schedule_next_run c' \<longrightarrow>
       (if delays = [] then c' = c
        else \<exists>k \<ge> n. k < n + 2 * length ms \<and> earliest_timeout (GetTimestamp (clock k) c') c' (last delays)))"
  using assms
proof (induction ms arbitrary: n c results delays)
  case (Cons m ms)
  obtain result sched c1 where d: "DispatchControllerCommand send (clock n) (clock (n + 1)) m c = Some (result, sched, c1)" "reachable send c1"
    using dispatch_ok [OF Cons.prems(1)] by blast
  obtain results1 delays1 where a: "dispatch_all send clock (n + 2) ms c1 = Some (results1, delays1, c')"
      "delays = (case sched of None \<Rightarrow> delays1 | Some x \<Rightarrow> x # delays1)"
    using Cons.prems(2) d(1) by (auto split: option.splits)
  have step: "schedule_kept (clock (n + 1)) sched c c1" by (rule dispatch_schedules [OF Cons.prems(1) d(1)])
  note ih = Cons.IH [OF d(2) a(1)]
  show ?case
  proof (intro conjI impI)
    show "c_schedule_next_run c' = c_schedule_next_run c" using ih step by (simp add: schedule_kept_def)
    assume act: "c_state c' = kActive" "c_schedule_next_run c'"
    show "if delays = [] then c' = c
        else \<exists>k \<ge> n. k < n + 2 * length (m # ms) \<and> earliest_timeout (GetTimestamp (clock k) c') c' (last delays)"
    proof (cases "delays1 = []")
      case True
      then have "c' = c1" using ih act by simp
      then show ?thesis
        using step act True a(2) by (cases sched) (auto simp: schedule_kept_def intro!: exI [of _ "n + 1"])
    next
      case False
      then obtain k where k: "n + 2 \<le> k" "k < n + 2 + 2 * length ms" "earliest_timeout (GetTimestamp (clock k) c') c' (last delays1)"
        using ih act by auto
      have "delays \<noteq> []" "last delays = last delays1" using False a(2) by (auto split: option.splits)
      with k show ?thesis by (auto intro!: exI [of _ k])
    qed
  qed
qed simp

lemma fold_last: "xs \<noteq> [] \<Longrightarrow> fold f xs s = f (last xs) (fold f (butlast xs) s)"
  by (induction xs rule: rev_induct) simp_all

section \<open>Property\<close>

text \<open>
  C16. One iteration of the APP loop always returns and leaves nothing behind. With a command event
  it dispatches all waiting commands in order, each with its own clock readings, and empties the
  mailbox; with a timeout event it then runs the controller; without its event a part changes
  nothing. The controller stays in the states its operations reach. And an active program is never
  left without its timer: after the iteration, be it for commands, a timeout or both, the last thing
  done to the timer was to start it with the earliest of the program's waiting times, which is not
  zero, at one of the clock readings of this iteration; unless no run took place and both the
  controller and the timer are untouched.
\<close>

theorem AppTask_Loop_serves:
  assumes "mailbox_laws msend receive pending" "reachable send (app_controller app)"
  shows "\<exists>results delays c n' mailbox' app'.
    dispatch_all send clock n (if events AND kCommandEventMask ue \<noteq> 0 then pending mailbox else []) (app_controller app)
      = Some (results, delays, c)
    \<and> AppTask_Loop send receive timer_start ue clock n events mailbox app = Some (True, n', mailbox', app')
    \<and> pending mailbox' = (if events AND kCommandEventMask ue \<noteq> 0 then [] else pending mailbox)
    \<and> reachable send (app_controller app')
    \<and> (if events AND kTimeoutEventMask ue = 0
       then app_controller app' = c \<and> app_run_timer app' = fold timer_start delays (app_run_timer app)
       else \<exists>st sched shown. Run send (clock (n' - 1)) c = Some (st, sched, shown, app_controller app')
         \<and> (c_state (app_controller app') = kActive \<longrightarrow> c_schedule_next_run c \<longrightarrow>
              (\<exists>d. sched = Some d \<and> d \<noteq> 0 \<and> app_run_timer app' = timer_start d (fold timer_start delays (app_run_timer app)))))
    \<and> (c_state (app_controller app') = kActive \<longrightarrow> c_schedule_next_run (app_controller app') \<longrightarrow>
         (\<exists>k d t. n \<le> k \<and> k < n' \<and> app_run_timer app' = timer_start d t
             \<and> earliest_timeout (GetTimestamp (clock k) (app_controller app')) (app_controller app') d)
         \<or> (events AND kTimeoutEventMask ue = 0 \<and> app_controller app' = app_controller app \<and> app_run_timer app' = app_run_timer app))"
proof -
  let ?ms = "if events AND kCommandEventMask ue \<noteq> 0 then pending mailbox else []"
  obtain results delays c mailbox1 where cmd: "dispatch_all send clock n ?ms (app_controller app) = Some (results, delays, c)"
      "(if events AND kCommandEventMask ue \<noteq> 0 then UpdateInstructions send receive timer_start clock n mailbox app else Some (n, mailbox, app))
        = Some (n + 2 * length ?ms, mailbox1, app\<lparr>app_controller := c, app_run_timer := fold timer_start delays (app_run_timer app)\<rparr>)"
      "pending mailbox1 = (if events AND kCommandEventMask ue \<noteq> 0 then [] else pending mailbox)" "reachable send c"
    using UpdateInstructions_dispatches [OF assms, of clock n mailbox timer_start] assms(2)
    by (cases "events AND kCommandEventMask ue \<noteq> 0") auto
  note timer = dispatch_all_schedules [OF assms(2) cmd(1)]
  let ?n1 = "n + 2 * length ?ms" and ?t = "fold timer_start delays (app_run_timer app)"
  let ?app = "app\<lparr>app_controller := c, app_run_timer := ?t\<rparr>"
  show ?thesis
  proof (cases "events AND kTimeoutEventMask ue = 0")
    case True
    then have "AppTask_Loop send receive timer_start ue clock n events mailbox app = Some (True, ?n1, mailbox1, ?app)"
      unfolding AppTask_Loop_def cmd(2) by simp
    moreover have "(\<exists>k d t. n \<le> k \<and> k < ?n1 \<and> ?t = timer_start d t \<and> earliest_timeout (GetTimestamp (clock k) c) c d)
        \<or> c = app_controller app \<and> ?t = app_run_timer app"
      if "c_state c = kActive" "c_schedule_next_run c"
      using timer that fold_last [of delays timer_start] by (cases "delays = []") (simp, metis)
    ultimately show ?thesis using cmd(1,3,4) True
      by - (rule exI [of _ results], rule exI [of _ delays], rule exI [of _ c], rule exI [of _ ?n1],
          rule exI [of _ mailbox1], rule exI [of _ ?app], simp)
  next
    case False
    obtain st sched shown c' where run: "Run send (clock ?n1) c = Some (st, sched, shown, c')"
      using Run_ok [OF reachable_inv [OF cmd(4)], of send "clock ?n1"] by blast
    note rs = Run_schedules [OF cmd(4) run]
    let ?app' = "on_schedule timer_start sched (?app\<lparr>app_controller := c'\<rparr>)"
    have loop: "AppTask_Loop send receive timer_start ue clock n events mailbox app = Some (True, ?n1 + 1, mailbox1, ?app')"
      unfolding AppTask_Loop_def cmd(2) using False run by (simp add: RunControllerProgress_def)
    have ctl: "app_controller ?app' = c'" and tm: "sched = Some d \<Longrightarrow> app_run_timer ?app' = timer_start d ?t" for d
      by (simp_all add: on_schedule_def OnScheduleNextRun_def split: option.split)
    have armed: "\<exists>d. sched = Some d \<and> d \<noteq> 0 \<and> app_run_timer ?app' = timer_start d ?t \<and> earliest_timeout (GetTimestamp (clock ?n1) c') c' d"
      if "c_state c' = kActive" "c_schedule_next_run c'"
      using rs(2) [OF that] tm by (auto simp: earliest_timeout_def)
    define n1 where "n1 = ?n1"
    define app' where "app' = ?app'"
    have armed': "\<exists>d. sched = Some d \<and> d \<noteq> 0 \<and> app_run_timer app' = timer_start d ?t"
      "\<exists>k d t. n \<le> k \<and> k < n1 + 1 \<and> app_run_timer app' = timer_start d t
          \<and> earliest_timeout (GetTimestamp (clock k) c') c' d" if act: "c_state c' = kActive" "c_schedule_next_run c'"
    proof -
      obtain d where d: "sched = Some d" "d \<noteq> 0" "app_run_timer app' = timer_start d ?t" "earliest_timeout (GetTimestamp (clock n1) c') c' d"
        using armed [OF act] unfolding app'_def n1_def by blast
      then show "\<exists>d. sched = Some d \<and> d \<noteq> 0 \<and> app_run_timer app' = timer_start d ?t" by blast
      have "n \<le> n1" "n1 < n1 + 1" by (simp_all add: n1_def)
      with d show "\<exists>k d t. n \<le> k \<and> k < n1 + 1 \<and> app_run_timer app' = timer_start d t
          \<and> earliest_timeout (GetTimestamp (clock k) c') c' d" by blast
    qed
    have "reachable send c'" using reachable.step [OF cmd(4) ctl_step.run [OF run]] .
    then show ?thesis
      using cmd(1,3) loop run False rs(1) armed' ctl unfolding n1_def [symmetric] app'_def [symmetric]
      by - (rule exI [of _ results], rule exI [of _ delays], rule exI [of _ c], rule exI [of _ "n1 + 1"],
          rule exI [of _ mailbox1], rule exI [of _ app'], simp)
  qed
qed

lemma list_mailbox_laws: "mailbox_laws list_send fifo_receive (\<lambda>mb. mb)"
  by (auto simp: mailbox_laws_def list_send_def fifo_receive_def split: list.splits)

definition demo_app :: "(SharedFrame list, u32 list) AppTask" where
  "demo_app = \<lparr>app_controller = demo_active, app_led_count = 7, app_run_timer = []\<rparr>"

definition loaded_app :: "(SharedFrame list, u32 list) AppTask" where
  "loaded_app = \<lparr>app_controller = demo_loaded, app_led_count = 7, app_run_timer = []\<rparr>"

text \<open>A Run command on a loaded program: the iteration leaves it active with its timer started.\<close>

theorem AppTask_Loop_serves_witness:
  "\<exists>n' app'. AppTask_Loop fifo_send fifo_receive (\<lambda>d t. d # t) (\<lambda>k. 2 ^ k) (\<lambda>n. 100) 0 4 [CmdRun] loaded_app
     = Some (True, n', [], app') \<and> reachable fifo_send (app_controller app') \<and> c_state (app_controller app') = kActive
   \<and> (\<exists>d t. app_run_timer app' = d # t \<and> earliest_timeout (GetTimestamp 100 (app_controller app')) (app_controller app') d)"
proof -
  obtain c where r: "Run fifo_send 100 demo_active = Some (kSuccess, Some 10, False, c)" "c_state c = kActive" by (rule demo_runE)
  have flag: "c_schedule_next_run c" using Run_schedules(1) [OF reachable_demo(3) r(1)] demo_active_state by simp
  have "fst (Start 100 0 demo_loaded) = kSuccess" by code_simp
  then have s: "Start 100 0 demo_loaded = (kSuccess, demo_active)" by (simp add: demo_active_def prod_eq_iff)
  have d: "dispatch_all fifo_send (\<lambda>n. 100) 0 [CmdRun] demo_loaded = Some (results, delays, c') \<Longrightarrow> c' = c" for results delays c'
    by (auto simp: dispatch_start StartAndTick_def s r(1) del: One_nat_def)
  have ev: "(4 :: u32) AND kCommandEventMask (\<lambda>k. 2 ^ k) \<noteq> 0" "(4 :: u32) AND kTimeoutEventMask (\<lambda>k. 2 ^ k) = 0"
    by (simp_all add: kCommandEventMask_def kTimeoutEventMask_def)
  have "c_state demo_loaded = kEditable" by code_simp
  then have ne: "c \<noteq> demo_loaded" using r(2) by auto
  have app: "app_controller loaded_app = demo_loaded" by (simp add: loaded_app_def)
  have "reachable fifo_send (app_controller loaded_app)" by (simp add: app reachable_demo)
  from AppTask_Loop_serves [OF list_mailbox_laws this, of "\<lambda>n. 100" 0 4 "\<lambda>k. 2 ^ k" "[CmdRun]" "\<lambda>d t. d # t"]
  obtain results delays c' n' mailbox' app' where l: "dispatch_all fifo_send (\<lambda>n. 100) 0 [CmdRun] demo_loaded = Some (results, delays, c')"
      "AppTask_Loop fifo_send fifo_receive (\<lambda>d t. d # t) (\<lambda>k. 2 ^ k) (\<lambda>n. 100) 0 4 [CmdRun] loaded_app = Some (True, n', mailbox', app')"
      "mailbox' = []" "reachable fifo_send (app_controller app')" "app_controller app' = c'"
      "c_state c' = kActive \<longrightarrow> c_schedule_next_run c' \<longrightarrow>
        (\<exists>k d t. app_run_timer app' = d # t \<and> earliest_timeout (GetTimestamp 100 c') c' d) \<or> c' = demo_loaded"
    unfolding if_P [OF ev(1)] if_P [OF ev(2)] app by blast
  then show ?thesis using d [OF l(1)] r(2) flag ne by auto
qed

end
