(* ===== verification/Playback.thy ===== *)
theory Playback
  imports App Completion
begin

text \<open>
  The APP task plays a program: the iterations of its loop that the one-shot timer causes are the
  ticks of \<^theory_text>\<open>Completion\<close>, so that a finite program is completed by the task alone.

  The timer is part of the OS layer: \<open>fires\<close> tells after which delay a timer fires, None when it is not
  running, and \<open>expire\<close> is the timer after it has fired.
\<close>

section \<open>The timer\<close>

definition timer_laws :: "(u32 \<Rightarrow> 'tm \<Rightarrow> 'tm) \<Rightarrow> ('tm \<Rightarrow> u32 option) \<Rightarrow> ('tm \<Rightarrow> 'tm) \<Rightarrow> bool" where
  "timer_laws start fires expire \<longleftrightarrow> (\<forall>d t. d \<noteq> 0 \<longrightarrow> fires (start d t) = Some d) \<and> (\<forall>t. fires (expire t) = None)"

lemma Run_delay_positive: "Run send now c = Some (st, Some d, shown, c') \<Longrightarrow> d \<noteq> 0"
  by (auto simp: Run_def ScheduleNextRun_def Let_def split: if_splits option.splits prod.splits)

section \<open>Iterations of the loop\<close>

text \<open>
  One iteration for a timer that has fired, at the time \<open>now\<close>; before it the other task may have taken
  frames, so that the mailbox of frames is \<open>mb\<close>.
\<close>

definition timer_iteration ::
  "('mb \<Rightarrow> SharedFrame \<Rightarrow> status \<times> 'mb) \<Rightarrow> ('cmb \<Rightarrow> (ControllerCommandMessage \<times> 'cmb) option) \<Rightarrow> (u32 \<Rightarrow> 'tm \<Rightarrow> 'tm)
     \<Rightarrow> ('tm \<Rightarrow> 'tm) \<Rightarrow> (nat \<Rightarrow> u32) \<Rightarrow> 'mb \<Rightarrow> u32 \<Rightarrow> 'cmb \<Rightarrow> ('mb, 'tm) AppTask
     \<Rightarrow> (bool \<times> nat \<times> 'cmb \<times> ('mb, 'tm) AppTask) option" where
  "timer_iteration send receive timer_start expire ue mb now mailbox app =
     AppTask_Loop send receive timer_start ue (\<lambda>n. now) 0 (kTimeoutEventMask ue) mailbox
       (app\<lparr>app_run_timer := expire (app_run_timer app),
            app_controller := (app_controller app)\<lparr>c_device := (c_device (app_controller app))\<lparr>strip_mailbox := mb\<rparr>\<rparr>\<rparr>)"

text \<open>
  The iterations from the time \<open>t\<close> at which the controller last ran: as long as the timer runs, it
  fires after its delay, and the task runs at that time or \<open>late\<close> milliseconds later.
\<close>

fun app_play ::
  "('mb \<Rightarrow> SharedFrame \<Rightarrow> status \<times> 'mb) \<Rightarrow> ('cmb \<Rightarrow> (ControllerCommandMessage \<times> 'cmb) option) \<Rightarrow> (u32 \<Rightarrow> 'tm \<Rightarrow> 'tm)
     \<Rightarrow> ('tm \<Rightarrow> u32 option) \<Rightarrow> ('tm \<Rightarrow> 'tm) \<Rightarrow> (nat \<Rightarrow> u32) \<Rightarrow> (u32 \<times> 'mb) list \<Rightarrow> u32 \<Rightarrow> 'cmb \<Rightarrow> ('mb, 'tm) AppTask
     \<Rightarrow> ('mb, 'tm) AppTask option" where
  "app_play send receive timer_start fires expire ue [] t mailbox app = Some app"
| "app_play send receive timer_start fires expire ue ((late, mb) # env) t mailbox app =
     (case fires (app_run_timer app) of
        None \<Rightarrow> Some app
      | Some d \<Rightarrow>
          (case timer_iteration send receive timer_start expire ue mb (t + d + late) mailbox app of
             None \<Rightarrow> None
           | Some (alive, n, mailbox1, app1) \<Rightarrow>
               app_play send receive timer_start fires expire ue env (t + d + late) mailbox1 app1))"

lemma timer_iteration_runs:
  assumes "kTimeoutEventMask ue AND kCommandEventMask ue = 0" "kTimeoutEventMask ue \<noteq> 0"
    and "Run send now ((app_controller app)\<lparr>c_device := (c_device (app_controller app))\<lparr>strip_mailbox := mb\<rparr>\<rparr>) = Some (st, sched, shown, c)"
  shows "timer_iteration send receive timer_start expire ue mb now mailbox app = Some (True, 1, mailbox,
    app\<lparr>app_controller := c, app_run_timer := (case sched of None \<Rightarrow> expire (app_run_timer app)
        | Some d \<Rightarrow> timer_start d (expire (app_run_timer app)))\<rparr>)"
  using assms
  by (simp add: timer_iteration_def AppTask_Loop_def RunControllerProgress_def on_schedule_def OnScheduleNextRun_def
      split: option.split)

text \<open>The iterations follow the ticks, from the tick the timer waits for.\<close>

lemma app_play_follows:
  assumes ev: "kTimeoutEventMask ue AND kCommandEventMask ue = 0" "kTimeoutEventMask ue \<noteq> 0"
    and tm: "timer_laws timer_start fires expire"
    and "fires (app_run_timer app) = Some d"
    and "play send env (t + d + late) ((app_controller app)\<lparr>c_device := (c_device (app_controller app))\<lparr>strip_mailbox := mb\<rparr>\<rparr>) = Some c'"
  shows "\<exists>app'. app_play send receive timer_start fires expire ue ((late, mb) # env) t mailbox app = Some app' \<and> app_controller app' = c'"
  using assms(4,5)
proof (induction env arbitrary: app d t late mb mailbox)
  case Nil
  then obtain st sched shown where "Run send (t + d + late)
      ((app_controller app)\<lparr>c_device := (c_device (app_controller app))\<lparr>strip_mailbox := mb\<rparr>\<rparr>) = Some (st, sched, shown, c')"
    by (auto split: option.splits)
  then show ?case using Nil.prems(1) by (simp add: timer_iteration_runs [OF ev])
next
  case (Cons x env)
  obtain late' mb' where x: "x = (late', mb')" by (cases x)
  from Cons.prems(2) obtain st sched shown c where r: "Run send (t + d + late)
      ((app_controller app)\<lparr>c_device := (c_device (app_controller app))\<lparr>strip_mailbox := mb\<rparr>\<rparr>) = Some (st, sched, shown, c)"
    by (auto simp: x split: option.splits)
  note it = timer_iteration_runs [OF ev r, of receive timer_start expire mailbox]
  show ?case
  proof (cases sched)
    case None
    then have "c' = c" using Cons.prems(2) r by (simp add: x)
    then show ?thesis using Cons.prems(1) it None tm by (simp add: x timer_laws_def)
  next
    case (Some d')
    let ?app = "app\<lparr>app_controller := c, app_run_timer := timer_start d' (expire (app_run_timer app))\<rparr>"
    have "d' \<noteq> 0" using r Some Run_delay_positive by blast
    then have "fires (app_run_timer ?app) = Some d'" using tm by (simp add: timer_laws_def)
    moreover have "play send env (t + d + late + d' + late')
        ((app_controller ?app)\<lparr>c_device := (c_device (app_controller ?app))\<lparr>strip_mailbox := mb'\<rparr>\<rparr>) = Some c'"
      using Cons.prems(2) r Some by (simp add: x)
    ultimately obtain app' where "app_play send receive timer_start fires expire ue ((late', mb') # env) (t + d + late) mailbox ?app = Some app'"
        "app_controller app' = c'"
      using Cons.IH by blast
    then show ?thesis using Cons.prems(1) it Some by (simp add: x)
  qed
qed

lemma app_play_idle:
  assumes ev: "kTimeoutEventMask ue AND kCommandEventMask ue = 0" "kTimeoutEventMask ue \<noteq> 0"
    and "c_state (app_controller app) = kCompleted"
  shows "\<exists>app'. app_play send receive timer_start fires expire ue env t mailbox app = Some app' \<and> c_state (app_controller app') = kCompleted"
  using assms(3)
proof (induction env arbitrary: app t mailbox)
  case (Cons x env)
  obtain late mb where x: "x = (late, mb)" by (cases x)
  show ?case
  proof (cases "fires (app_run_timer app)")
    case (Some d)
    let ?c = "(app_controller app)\<lparr>c_device := (c_device (app_controller app))\<lparr>strip_mailbox := mb\<rparr>\<rparr>"
    have "Run send (t + d + late) ?c = Some (kSuccess, None, False, ?c)" using Cons.prems by (simp add: Run_def)
    from timer_iteration_runs [OF ev this, of receive timer_start expire mailbox] show ?thesis
      using Cons.IH [of "app\<lparr>app_controller := ?c, app_run_timer := expire (app_run_timer app)\<rparr>" "t + d + late" mailbox] Cons.prems Some
      by (simp add: x)
  qed (use Cons.prems in \<open>simp add: x\<close>)
qed simp

section \<open>A started program\<close>

text \<open>
  The state after Start and the first Run, with the timer as the schedule callback left it: the
  iterations of the loop complete a finite program.
\<close>

definition completes ::
  "('mb \<Rightarrow> SharedFrame \<Rightarrow> status \<times> 'mb) \<Rightarrow> ('cmb \<Rightarrow> (ControllerCommandMessage \<times> 'cmb) option) \<Rightarrow> (u32 \<Rightarrow> 'tm \<Rightarrow> 'tm)
     \<Rightarrow> ('tm \<Rightarrow> u32 option) \<Rightarrow> ('tm \<Rightarrow> 'tm) \<Rightarrow> (nat \<Rightarrow> u32) \<Rightarrow> (nat \<Rightarrow> u32 \<times> 'mb) \<Rightarrow> u32 \<Rightarrow> 'cmb \<Rightarrow> ('mb, 'tm) AppTask \<Rightarrow> bool" where
  "completes send receive timer_start fires expire ue env t mailbox app \<longleftrightarrow>
     (\<exists>k. \<forall>m\<ge>k. \<exists>app'. app_play send receive timer_start fires expire ue (map env [0..<m]) t mailbox app = Some app'
        \<and> c_state (app_controller app') = kCompleted)"

lemma started_completes:
  fixes app :: "('mb, 'tm) AppTask"
  assumes ev: "kTimeoutEventMask ue AND kCommandEventMask ue = 0" "kTimeoutEventMask ue \<noteq> 0"
    and tm: "timer_laws timer_start fires expire"
    and c: "reachable send c" "c_state c \<noteq> kActive" "c_get_timestamp c" "c_schedule_next_run c"
      "valid_program (c_instructions c) (c_instruction_count c) repeats" "repeats \<noteq> kForeverLoopCount"
      "\<forall>i<c_instruction_count c. GetAdditionalRepeats (c_instructions c ! i) \<noteq> kForeverLoopCount"
      "\<forall>k. unat (fst (env k)) < 2 ^ 30"
    and start: "Start t0 repeats c = (kSuccess, c1)" and run: "Run send t c1 = Some (st, sched, shown, c2)"
    and app: "app_controller app = c2"
      "app_run_timer app = fold timer_start (case sched of None \<Rightarrow> [] | Some d \<Rightarrow> [d]) timer0"
  shows "completes send receive timer_start fires expire ue env t mailbox app"
proof -
  have "played_out send env t c1" using finite_program_played [OF c, of t0 t] start by simp
  then obtain k where k: "\<forall>m\<ge>k. \<exists>c'. play send (map env [0..<m]) t c1 = Some c' \<and> c_state c' = kCompleted"
    by (auto simp: played_out_def)
  have "\<exists>app'. app_play send receive timer_start fires expire ue (map env [0..<Suc m]) t mailbox app = Some app'
      \<and> c_state (app_controller app') = kCompleted" if m: "k \<le> Suc m" for m
  proof -
    obtain late mb where e: "env 0 = (late, mb)" by (cases "env 0")
    from k m obtain c' where p: "play send (map env [0..<Suc m]) t c1 = Some c'" "c_state c' = kCompleted" by blast
    show ?thesis
    proof (cases sched)
      case None
      then have "c' = c2" using p(1) run by (simp add: map_env e del: upt_Suc)
      then show ?thesis using p(2) app(1) by (intro app_play_idle [OF ev]) simp
    next
      case (Some d)
      have "d \<noteq> 0" using run Some Run_delay_positive by blast
      then have f: "fires (app_run_timer app) = Some d" using tm Some app(2) by (simp add: timer_laws_def)
      have "play send (map (\<lambda>k. env (Suc k)) [0..<m]) (t + d + late)
          ((app_controller app)\<lparr>c_device := (c_device (app_controller app))\<lparr>strip_mailbox := mb\<rparr>\<rparr>) = Some c'"
        using p(1) run Some app(1) by (simp add: map_env e del: upt_Suc)
      from app_play_follows [OF ev tm f this, of receive mailbox] show ?thesis using p(2) by (auto simp only: map_env e)
    qed
  qed
  then have "\<forall>m\<ge>Suc k. \<exists>app'. app_play send receive timer_start fires expire ue (map env [0..<m]) t mailbox app = Some app'
      \<and> c_state (app_controller app') = kCompleted"
    by (metis Suc_le_D Suc_leD)
  then show ?thesis unfolding completes_def by blast
qed

end
