(* ===== verification/System.thy ===== *)
theory System
  imports App
begin

text \<open>
  The two tasks together: their startup and the interleaving of their loops with the bytes the host
  sends. The tasks share the strip manager's mailbox of frames, which the APP task fills and the
  app_hw task drains, and the mailbox of commands, which the other way round is filled by the
  command handlers of the app_hw task; the strip manager is kept with the controller and the
  command mailbox with the sink. One iteration of a task's loop is one step: between two
  iterations any events may have been set, any bytes may have arrived and the other task may have
  run any number of times.
\<close>

section \<open>The services and the state\<close>

record ('w, 'd, 'b, 'l, 't, 'mb, 'cmb, 'tm) Services =
  sv_board :: "('w, 'd, 'b, 'l, 't) Board"
  sv_send_frame :: "'mb \<Rightarrow> SharedFrame \<Rightarrow> status \<times> 'mb"
  sv_receive_frame :: "'mb \<Rightarrow> (SharedFrame \<times> 'mb) option"
  sv_send_command :: "'cmb sender"
  sv_receive_command :: "'cmb \<Rightarrow> (ControllerCommandMessage \<times> 'cmb) option"
  sv_timer_start :: "u32 \<Rightarrow> 'tm \<Rightarrow> 'tm"
  sv_clock :: "nat \<Rightarrow> u32"
  sv_arrive :: "u8 list \<Rightarrow> 'w \<Rightarrow> 'w"

record ('w, 'd, 'b, 'l, 't, 'mb, 'cmb, 'tm) System =
  sys_hw :: "('w, 'cmb, 'd, 'b, 'l, 't) HwTask"
  sys_app :: "('mb, 'tm) AppTask"
  sys_reads :: nat

definition sys_controller :: "('w, 'd, 'b, 'l, 't, 'mb, 'cmb, 'tm) System \<Rightarrow> 'mb Controller" where
  "sys_controller s = app_controller (sys_app s)"

definition sys_sink :: "('w, 'd, 'b, 'l, 't, 'mb, 'cmb, 'tm) System \<Rightarrow> 'cmb ControllerCommandSink" where
  "sys_sink s = env_sink (cm_env (hw_command_manager (sys_hw s)))"

definition on_env :: "(('w, 'cmb) CommandEnv \<Rightarrow> ('w, 'cmb) CommandEnv) \<Rightarrow> ('w, 'd, 'b, 'l, 't, 'mb, 'cmb, 'tm) System
     \<Rightarrow> ('w, 'd, 'b, 'l, 't, 'mb, 'cmb, 'tm) System" where
  "on_env f s = (let cm = hw_command_manager (sys_hw s)
     in s\<lparr>sys_hw := (sys_hw s)\<lparr>hw_command_manager := cm\<lparr>cm_env := f (cm_env cm)\<rparr>\<rparr>\<rparr>)"

section \<open>The steps\<close>

text \<open>The host's bytes reach the port; the tasks run one iteration; power-up runs the two setups.\<close>

definition bytes_arrive :: "('w, 'd, 'b, 'l, 't, 'mb, 'cmb, 'tm) Services \<Rightarrow> u8 list
     \<Rightarrow> ('w, 'd, 'b, 'l, 't, 'mb, 'cmb, 'tm) System \<Rightarrow> ('w, 'd, 'b, 'l, 't, 'mb, 'cmb, 'tm) System" where
  "bytes_arrive sv bs = on_env (\<lambda>e. e\<lparr>env_command_port := map_option (sv_arrive sv bs) (env_command_port e)\<rparr>)"

definition hw_turn :: "('w, 'd, 'b, 'l, 't, 'mb, 'cmb, 'tm) Services \<Rightarrow> u32 \<Rightarrow> ('w, 'd, 'b, 'l, 't, 'mb, 'cmb, 'tm) System
     \<Rightarrow> (bool \<times> ('w, 'd, 'b, 'l, 't, 'mb, 'cmb, 'tm) System) option" where
  "hw_turn sv events s =
     (case HwTask_Loop (sv_board sv) (sv_receive_frame sv) events (c_device (sys_controller s)) (sys_hw s) of
        None \<Rightarrow> None
      | Some (ok, strip, hw) \<Rightarrow>
          Some (ok, s\<lparr>sys_hw := hw, sys_app := (sys_app s)\<lparr>app_controller := (sys_controller s)\<lparr>c_device := strip\<rparr>\<rparr>\<rparr>))"

definition app_turn :: "('w, 'd, 'b, 'l, 't, 'mb, 'cmb, 'tm) Services \<Rightarrow> u32 \<Rightarrow> ('w, 'd, 'b, 'l, 't, 'mb, 'cmb, 'tm) System
     \<Rightarrow> (bool \<times> ('w, 'd, 'b, 'l, 't, 'mb, 'cmb, 'tm) System) option" where
  "app_turn sv events s =
     (case sink_mailbox (sys_sink s) of
        None \<Rightarrow> None
      | Some mailbox \<Rightarrow>
          (case AppTask_Loop (sv_send_frame sv) (sv_receive_command sv) (sv_timer_start sv) (bd_user_event (sv_board sv))
                  (sv_clock sv) (sys_reads s) events mailbox (sys_app s) of
             None \<Rightarrow> None
           | Some (ok, n, mailbox1, app) \<Rightarrow>
               Some (ok, on_env (\<lambda>e. e\<lparr>env_sink := \<lparr>sink_mailbox = Some mailbox1\<rparr>\<rparr>) (s\<lparr>sys_app := app, sys_reads := n\<rparr>))))"

definition power_up :: "('w, 'd, 'b, 'l, 't, 'mb, 'cmb, 'tm) Services \<Rightarrow> nat option \<Rightarrow> nat \<Rightarrow> 'mb \<Rightarrow> 'cmb
     \<Rightarrow> ('w, 'cmb, 'd, 'b, 'l, 't) HwTask \<Rightarrow> ('mb, 'tm) AppTask \<Rightarrow> (('w, 'd, 'b, 'l, 't, 'mb, 'cmb, 'tm) System) option" where
  "power_up sv stack k frame_mailbox command_mailbox hw app =
     (case Initialize (sv_board sv) stack k False hw of (st, initialized, hw1) \<Rightarrow>
        if is_negative st then None
        else case HwTask_Setup (sv_board sv) (sv_send_command sv) (StripManager_init frame_mailbox) hw1 of (hw_ok, strip, hw2) \<Rightarrow>
          if \<not> hw_ok then None
          else case AppTask_Setup (sv_send_frame sv) (sv_timer_start sv) (sv_clock sv) st strip command_mailbox
                      (env_sink (cm_env (hw_command_manager hw2))) app of
                 None \<Rightarrow> None
               | Some (ok, sink, app1) \<Rightarrow>
                   if \<not> ok then None
                   else Some (on_env (\<lambda>e. e\<lparr>env_sink := sink\<rparr>) \<lparr>sys_hw = hw2, sys_app = app1, sys_reads = 2\<rparr>))"

inductive sys_step :: "('w, 'd, 'b, 'l, 't, 'mb, 'cmb, 'tm) Services
     \<Rightarrow> ('w, 'd, 'b, 'l, 't, 'mb, 'cmb, 'tm) System \<Rightarrow> ('w, 'd, 'b, 'l, 't, 'mb, 'cmb, 'tm) System \<Rightarrow> bool" for sv where
  bytes: "sys_step sv s (bytes_arrive sv bs s)"
| hw_task: "hw_turn sv events s = Some (True, s') \<Longrightarrow> sys_step sv s s'"
| app_task: "app_turn sv events s = Some (True, s') \<Longrightarrow> sys_step sv s s'"

text \<open>
  The states of a run that began with a successful power-up: the tasks' objects as their
  constructors leave them and an empty mailbox of frames.
\<close>

inductive sys_reachable :: "('w, 'd, 'b, 'l, 't, 'mb, 'cmb, 'tm) Services \<Rightarrow> ('mb \<Rightarrow> SharedFrame list)
     \<Rightarrow> ('w, 'd, 'b, 'l, 't, 'mb, 'cmb, 'tm) System \<Rightarrow> bool" for sv frames where
  up: "power_up sv stack k frame_mailbox command_mailbox hw app = Some s \<Longrightarrow>
    cm_protocol (hw_command_manager hw) = Protocol_init (command_config (bd_port (sv_board sv))) \<Longrightarrow>
    app_controller app = Controller_init device \<Longrightarrow> frames frame_mailbox = [] \<Longrightarrow> sys_reachable sv frames s"
| step: "sys_reachable sv frames s \<Longrightarrow> sys_step sv s s' \<Longrightarrow> sys_reachable sv frames s'"

text \<open>What the services promise: the laws of the ports, the mailboxes and the board, and a LED that can be toggled.\<close>

definition service_laws :: "('w, 'd, 'b, 'l, 't, 'mb, 'cmb, 'tm) Services \<Rightarrow> ('w \<Rightarrow> u8 list) \<Rightarrow> ('mb \<Rightarrow> SharedFrame list)
     \<Rightarrow> ('cmb \<Rightarrow> ControllerCommandMessage list) \<Rightarrow> ('b \<Rightarrow> nat \<Rightarrow> RgbColor) \<Rightarrow> ('b \<Rightarrow> nat \<Rightarrow> RgbColor) \<Rightarrow> bool" where
  "service_laws sv rx frames commands pixel shown \<longleftrightarrow>
     serial_laws (bd_port (sv_board sv)) rx \<and> arrives (sv_arrive sv) rx
     \<and> mailbox_laws (sv_send_frame sv) (sv_receive_frame sv) frames
     \<and> mailbox_laws (sv_send_command sv) (sv_receive_command sv) commands
     \<and> backend_laws (bd_ws (sv_board sv)) pixel shown \<and> (\<forall>l. 0 \<le> fst (bd_toggle (sv_board sv) l))"


section \<open>Frames that fit, and an armed timer\<close>

text \<open>The strip has the board's size and no waiting frame is larger.\<close>

definition feed_ok :: "nat \<Rightarrow> ('mb \<Rightarrow> SharedFrame list) \<Rightarrow> 'mb StripManager \<Rightarrow> bool" where
  "feed_ok n frames s \<longleftrightarrow> strip_led_count s = n \<and> (\<forall>f\<in>set (frames (strip_mailbox s)). frame_led_count f \<le> n)"

lemma feed_link: "link s = link s' \<Longrightarrow> feed_ok n frames s = feed_ok n frames s'"
  by (simp add: feed_ok_def link_def)

lemma feed_Show: "mailbox_laws send receive frames \<Longrightarrow> feed_ok n frames s \<Longrightarrow> feed_ok n frames (snd (Show send s))"
  by (auto simp: feed_ok_def Show_def Let_def case_prod_unfold mailbox_laws_def)

text \<open>A controller of the running system.\<close>

definition good :: "('mb \<Rightarrow> SharedFrame \<Rightarrow> status \<times> 'mb) \<Rightarrow> nat \<Rightarrow> ('mb \<Rightarrow> SharedFrame list) \<Rightarrow> 'mb Controller \<Rightarrow> bool" where
  "good send n frames c \<longleftrightarrow> reachable send c \<and> feed_ok n frames (c_device c) \<and> c_schedule_next_run c"

text \<open>An active program is one whose next run has been scheduled by then, or was active before.\<close>

definition scheduled :: "u32 option \<Rightarrow> 'mb Controller \<Rightarrow> 'mb Controller \<Rightarrow> bool" where
  "scheduled sched c c' \<longleftrightarrow> (c_state c' = kActive \<longrightarrow> sched = None \<longrightarrow> c_state c = kActive) \<and> (\<forall>d. sched = Some d \<longrightarrow> d \<noteq> 0)"

lemma Run_good:
  assumes mail: "mailbox_laws send receive frames" and good: "good send n frames c"
    and run: "Run send now c = Some (st, sched, sh, c')"
  shows "good send n frames c' \<and> (\<forall>d. sched = Some d \<longrightarrow> d \<noteq> 0) \<and> (c_state c' = kActive \<longrightarrow> sched \<noteq> None)"
proof -
  have g: "reachable send c" "feed_ok n frames (c_device c)" "c_schedule_next_run c" using good by (simp_all add: good_def)
  obtain device where r: "program c' = program c" "link device = link (c_device c)" "c_device c' = (if sh then snd (Show send device) else device)"
      "\<forall>d. sched = Some d \<longrightarrow> d \<noteq> 0" "c_state c \<noteq> kActive \<longrightarrow> c' = c" "c_state c = kActive \<longrightarrow> c_state c' = kActive \<longrightarrow> sched \<noteq> None"
    using Run_ok [OF reachable_inv [OF g(1)], of send now] run g(3) by auto
  have "feed_ok n frames device" using g(2) feed_link [OF r(2)] by simp
  then have "feed_ok n frames (c_device c')" using r(3) feed_Show [OF mail] by simp
  moreover have "c_schedule_next_run c'" using r(1) g(3) by (simp add: program_def)
  ultimately show ?thesis using reachable.step [OF g(1) ctl_step.run [OF run]] r(4-6) by (auto simp: good_def)
qed

lemma Start_good:
  assumes "good send n frames c"
  shows "good send n frames (snd (Start now r c)) \<and> (fst (Start now r c) \<noteq> kSuccess \<longrightarrow> snd (Start now r c) = c)"
proof -
  have inv: "ctl_inv c" and r: "reachable send (snd (Start now r c))"
    using assms reachable_inv reachable.step [OF _ ctl_step.start] by (auto simp: good_def)
  show ?thesis
  proof (cases "c_state c = kActive")
    case True
    then show ?thesis using assms by (simp add: Start_def)
  next
    case False
    then show ?thesis using Start_ok [OF inv False, of r now] assms r by (auto simp: good_def split: if_splits)
  qed
qed

lemma StartAndTick_good:
  assumes "mailbox_laws send receive frames" "good send n frames c" "StartAndTick send t0 t1 r result0 c = Some (result, sched, c')"
  shows "good send n frames c' \<and> scheduled sched c c'"
proof -
  obtain st c1 where s: "Start t0 r c = (st, c1)" by (metis prod.exhaust)
  note f = Start_good [OF assms(2), of t0 r, unfolded s fst_conv snd_conv]
  show ?thesis
  proof (cases "st = kSuccess")
    case True
    then obtain run_st sh where "Run send t1 c1 = Some (run_st, sched, sh, c')"
      using assms(3) s by (auto simp: StartAndTick_def Let_def split: option.splits)
    from Run_good [OF assms(1) conjunct1 [OF f] this] show ?thesis by (auto simp: scheduled_def)
  next
    case False
    then show ?thesis using assms(3) f s by (auto simp: StartAndTick_def scheduled_def)
  qed
qed

lemma dispatch_good:
  assumes "mailbox_laws send receive frames" "good send n frames c"
    and d: "DispatchControllerCommand send t0 t1 m c = Some (result, sched, c')"
  shows "good send n frames c' \<and> scheduled sched c c'"
proof (cases m rule: command_cases)
  case (1 i)
  then have "c' = snd (AddInstruction (Some i) c)" "sched = None" using d by (auto simp: dispatch_instruction case_prod_unfold)
  then show ?thesis using assms(2) reachable.step [OF _ ctl_step.add, of send c "Some i"]
    by (auto simp: good_def scheduled_def AddInstruction_cases split: if_splits)
next
  case (2 r)
  then show ?thesis using StartAndTick_good [OF assms(1,2)] d by (auto simp: dispatch_start)
next
  case 3
  then show ?thesis using d assms(2) reachable.step [OF _ ctl_step.reset, of send c]
    by (auto simp: dispatch_reset good_def scheduled_def) (simp_all add: ResetInstructions_def)
qed (use d assms(2) in \<open>auto simp: DispatchControllerCommand_def scheduled_def\<close>)

lemma dispatch_all_good:
  assumes "mailbox_laws send receive frames"
  shows "good send n frames c \<Longrightarrow> dispatch_all send clock k ms c = Some (results, delays, c') \<Longrightarrow>
    good send n frames c' \<and> (\<forall>d\<in>set delays. d \<noteq> 0) \<and> (c_state c' = kActive \<longrightarrow> delays = [] \<longrightarrow> c_state c = kActive)"
proof (induction ms arbitrary: k c results delays)
  case (Cons m ms)
  obtain result sched c1 results1 delays1 where d: "DispatchControllerCommand send (clock k) (clock (k + 1)) m c = Some (result, sched, c1)"
      "dispatch_all send clock (k + 2) ms c1 = Some (results1, delays1, c')" "delays = (case sched of None \<Rightarrow> delays1 | Some d \<Rightarrow> d # delays1)"
    using Cons.prems(2) by (auto split: option.splits prod.splits)
  note s = dispatch_good [OF assms Cons.prems(1) d(1)]
  from Cons.IH [OF conjunct1 [OF s] d(2)] s d(3) show ?case by (auto simp: scheduled_def split: option.splits)
qed simp

section \<open>The invariant of the system\<close>

definition armed :: "(u32 \<Rightarrow> 'tm \<Rightarrow> 'tm) \<Rightarrow> 'tm \<Rightarrow> bool" where
  "armed timer_start tm \<longleftrightarrow> (\<exists>d t. tm = timer_start d t \<and> d \<noteq> 0)"

lemma fold_armed: "delays \<noteq> [] \<Longrightarrow> \<forall>d\<in>set delays. d \<noteq> 0 \<Longrightarrow> armed timer_start (fold timer_start delays t)"
  by (induction delays rule: rev_induct) (auto simp: armed_def)

definition sys_inv :: "('w, 'd, 'b, 'l, 't, 'mb, 'cmb, 'tm) Services \<Rightarrow> ('mb \<Rightarrow> SharedFrame list)
     \<Rightarrow> ('w, 'd, 'b, 'l, 't, 'mb, 'cmb, 'tm) System \<Rightarrow> bool" where
  "sys_inv sv frames s \<longleftrightarrow> cm_inv (bd_port (sv_board sv)) (sv_send_command sv) (hw_command_manager (sys_hw s))
     \<and> sl_led (hw_status_led (sys_hw s)) \<and> sink_mailbox (sys_sink s) \<noteq> None
     \<and> good (sv_send_frame sv) (ws_LedCount (bd_ws (sv_board sv)) (hw_board_strip (sys_hw s))) frames (sys_controller s)
     \<and> (c_state (sys_controller s) = kActive \<longrightarrow> armed (sv_timer_start sv) (app_run_timer (sys_app s)))"

lemma sys_inv_bytes: "sys_inv sv frames s \<Longrightarrow> sys_inv sv frames (bytes_arrive sv bs s)"
  by (simp add: sys_inv_def bytes_arrive_def on_env_def Let_def cm_inv_def sys_sink_def sys_controller_def)

lemma queue_keeps_mailbox: "sink_mailbox sink \<noteq> None \<Longrightarrow> sink_mailbox (fold (queue_frame send) frs sink) \<noteq> None"
  by (induction frs arbitrary: sink) (auto simp: queue_frame_def QueueCommand_def split: option.splits prod.splits)

lemma Blink_keeps: "Blink toggle led s = (b, led', s') \<Longrightarrow> sl_led s' = sl_led s"
  by (auto simp: Blink_def Let_def split: if_splits prod.splits)

lemma HwTask_Loop_frame:
  assumes "HwTask_Loop board receive events strip hw = Some (True, strip', hw')"
    and "mailbox_laws fsend receive frames" "backend_laws (bd_ws board) pixel shown"
    and "\<forall>f\<in>set (frames (strip_mailbox strip)). frame_led_count f \<le> ws_LedCount (bd_ws board) (hw_board_strip hw)"
  shows "strip' = strip\<lparr>strip_mailbox := strip_mailbox strip'\<rparr> \<and> sl_led (hw_status_led hw') = sl_led (hw_status_led hw)
    \<and> ws_LedCount (bd_ws board) (hw_board_strip hw') = ws_LedCount (bd_ws board) (hw_board_strip hw)"
  using assms(1) TryApplyLatest_drains [OF assms(2-4)]
  by (auto simp: HwTask_Loop_def Let_def Blink_keeps split: option.splits prod.splits if_splits)

lemma hw_turn_ok:
  assumes "service_laws sv rx frames commands pixel shown" "sys_inv sv frames s"
  shows "\<exists>s'. hw_turn sv events s = Some (True, s') \<and> sys_inv sv frames s'
    \<and> (events AND kCommandRxEventMask (sv_board sv) \<noteq> 0 \<longrightarrow> rx_pending rx (cm_env (hw_command_manager (sys_hw s'))) = [])
    \<and> (events AND kFrameEventMask (sv_board sv) \<noteq> 0 \<longrightarrow> frames (strip_mailbox (c_device (sys_controller s'))) = [])"
proof -
  let ?b = "sv_board sv" and ?strip = "c_device (sys_controller s)" and ?hw = "sys_hw s"
  have l: "serial_laws (bd_port ?b) rx" "mailbox_laws (sv_send_frame sv) (sv_receive_frame sv) frames"
      "backend_laws (bd_ws ?b) pixel shown" "\<forall>l. 0 \<le> fst (bd_toggle ?b l)"
    using assms(1) by (simp_all add: service_laws_def)
  have i: "cm_inv (bd_port ?b) (sv_send_command sv) (hw_command_manager ?hw)" "sl_led (hw_status_led ?hw)"
      "sink_mailbox (env_sink (cm_env (hw_command_manager ?hw))) \<noteq> None"
      "good (sv_send_frame sv) (ws_LedCount (bd_ws ?b) (hw_board_strip ?hw)) frames (sys_controller s)"
      "c_state (sys_controller s) = kActive \<longrightarrow> armed (sv_timer_start sv) (app_run_timer (sys_app s))"
    using assms(2) by (simp_all add: sys_inv_def sys_sink_def)
  have fits: "\<forall>f\<in>set (frames (strip_mailbox ?strip)). frame_led_count f \<le> ws_LedCount (bd_ws ?b) (hw_board_strip ?hw)"
    using i(4) by (simp add: good_def feed_ok_def)
  obtain strip' hw' where loop: "HwTask_Loop ?b (sv_receive_frame sv) events ?strip ?hw = Some (True, strip', hw')"
      "let cm = hw_command_manager ?hw; cm' = hw_command_manager hw' in
         if events AND kCommandRxEventMask ?b \<noteq> 0
         then cm_inv (bd_port ?b) (sv_send_command sv) cm' \<and> rx_pending rx (cm_env cm') = []
           \<and> env_sink (cm_env cm') = fold (queue_frame (sv_send_command sv))
               (snd (parse_all (rx_pending rx (cm_env cm)) (abs_parser (cm_protocol cm)))) (env_sink (cm_env cm))
         else cm' = cm"
      "if events AND kFrameEventMask ?b \<noteq> 0 then frames (strip_mailbox strip') = [] else strip' = ?strip"
    using HwTask_Loop_ok [OF l(1) i(1) l(2,3) fits i(2) l(4), of events]
    by (elim exE conjE) (rule that, assumption, assumption, auto split: if_splits)
  note fr = HwTask_Loop_frame [OF loop(1) l(2,3) fits]
  let ?c = "(sys_controller s)\<lparr>c_device := strip'\<rparr>"
  let ?s = "s\<lparr>sys_hw := hw', sys_app := (sys_app s)\<lparr>app_controller := ?c\<rparr>\<rparr>"
  have turn: "hw_turn sv events s = Some (True, ?s)" by (simp add: hw_turn_def loop(1))
  have "reachable (sv_send_frame sv) ?c"
    using i(4) reachable.step [OF _ ctl_step.taken, of _ "sys_controller s" "strip_mailbox strip'"] conjunct1 [OF fr] by (auto simp: good_def)
  moreover have "strip_led_count strip' = strip_led_count ?strip" using arg_cong [OF conjunct1 [OF fr], of strip_led_count] by simp
  then have "feed_ok (ws_LedCount (bd_ws ?b) (hw_board_strip hw')) frames strip'"
    using i(4) fr loop(3) by (cases "events AND kFrameEventMask ?b \<noteq> 0") (auto simp: good_def feed_ok_def)
  ultimately have "good (sv_send_frame sv) (ws_LedCount (bd_ws ?b) (hw_board_strip hw')) frames ?c"
    using i(4) by (simp add: good_def)
  moreover have "cm_inv (bd_port ?b) (sv_send_command sv) (hw_command_manager hw')" "sink_mailbox (env_sink (cm_env (hw_command_manager hw'))) \<noteq> None"
    using loop(2) i(1,3) queue_keeps_mailbox [OF i(3)] by (auto simp: Let_def split: if_splits)
  ultimately have "sys_inv sv frames ?s" using i(2,5) fr by (simp add: sys_inv_def sys_sink_def sys_controller_def)
  then show ?thesis using turn loop(2,3) by (auto simp: Let_def sys_controller_def split: if_splits)
qed

lemma app_turn_ok:
  assumes "service_laws sv rx frames commands pixel shown" "sys_inv sv frames s"
  shows "\<exists>s'. app_turn sv events s = Some (True, s') \<and> sys_inv sv frames s'
    \<and> (events AND kCommandEventMask (bd_user_event (sv_board sv)) \<noteq> 0 \<longrightarrow> commands (the (sink_mailbox (sys_sink s'))) = [])"
proof -
  let ?ue = "bd_user_event (sv_board sv)" and ?app = "sys_app s" and ?n = "ws_LedCount (bd_ws (sv_board sv)) (hw_board_strip (sys_hw s))"
  have l: "mailbox_laws (sv_send_frame sv) (sv_receive_frame sv) frames" "mailbox_laws (sv_send_command sv) (sv_receive_command sv) commands"
    using assms(1) by (simp_all add: service_laws_def)
  have g: "good (sv_send_frame sv) ?n frames (app_controller ?app)" and
      act: "c_state (app_controller ?app) = kActive \<longrightarrow> armed (sv_timer_start sv) (app_run_timer ?app)"
    using assms(2) by (simp_all add: sys_inv_def sys_controller_def)
  obtain mailbox where mb: "sink_mailbox (sys_sink s) = Some mailbox" using assms(2) by (auto simp: sys_inv_def)
  let ?ms = "if events AND kCommandEventMask ?ue \<noteq> 0 then commands mailbox else []"
  obtain results delays c n1 mailbox1 where cmd: "dispatch_all (sv_send_frame sv) (sv_clock sv) (sys_reads s) ?ms (app_controller ?app) = Some (results, delays, c)"
      "(if events AND kCommandEventMask ?ue \<noteq> 0
        then UpdateInstructions (sv_send_frame sv) (sv_receive_command sv) (sv_timer_start sv) (sv_clock sv) (sys_reads s) mailbox ?app
        else Some (sys_reads s, mailbox, ?app))
        = Some (n1, mailbox1, ?app\<lparr>app_controller := c, app_run_timer := fold (sv_timer_start sv) delays (app_run_timer ?app)\<rparr>)"
      "events AND kCommandEventMask ?ue \<noteq> 0 \<longrightarrow> commands mailbox1 = []"
    using UpdateInstructions_dispatches [OF l(2), of "sv_send_frame sv" ?app "sv_clock sv" "sys_reads s" mailbox "sv_timer_start sv"] g
    by (cases "events AND kCommandEventMask ?ue \<noteq> 0") (auto simp: good_def)
  let ?app1 = "?app\<lparr>app_controller := c, app_run_timer := fold (sv_timer_start sv) delays (app_run_timer ?app)\<rparr>"
  have c: "good (sv_send_frame sv) ?n frames c" "c_state c = kActive \<longrightarrow> armed (sv_timer_start sv) (app_run_timer ?app1)"
    using dispatch_all_good [OF l(1) g cmd(1)] act fold_armed [of delays "sv_timer_start sv" "app_run_timer ?app"]
    by (cases "delays = []"; simp)+
  have "\<exists>n' app'. AppTask_Loop (sv_send_frame sv) (sv_receive_command sv) (sv_timer_start sv) ?ue (sv_clock sv) (sys_reads s) events mailbox ?app
        = Some (True, n', mailbox1, app') \<and> good (sv_send_frame sv) ?n frames (app_controller app')
      \<and> (c_state (app_controller app') = kActive \<longrightarrow> armed (sv_timer_start sv) (app_run_timer app'))"
  proof (cases "events AND kTimeoutEventMask ?ue = 0")
    case True
    then show ?thesis unfolding AppTask_Loop_def cmd(2) using c by simp
  next
    case False
    obtain st sched sh c' where run: "Run (sv_send_frame sv) (sv_clock sv n1) c = Some (st, sched, sh, c')"
      using Run_ok [OF reachable_inv] c(1) unfolding good_def by blast
    let ?app' = "on_schedule (sv_timer_start sv) sched (?app1\<lparr>app_controller := c'\<rparr>)"
    have "AppTask_Loop (sv_send_frame sv) (sv_receive_command sv) (sv_timer_start sv) ?ue (sv_clock sv) (sys_reads s) events mailbox ?app
        = Some (True, n1 + 1, mailbox1, ?app')"
      unfolding AppTask_Loop_def cmd(2) using False run by (simp add: RunControllerProgress_def)
    then show ?thesis using Run_good [OF l(1) c(1) run]
      by (auto simp: on_schedule_def OnScheduleNextRun_def armed_def split: option.splits)
  qed
  then obtain n' app' where loop: "AppTask_Loop (sv_send_frame sv) (sv_receive_command sv) (sv_timer_start sv) ?ue (sv_clock sv) (sys_reads s) events mailbox ?app
        = Some (True, n', mailbox1, app')" "good (sv_send_frame sv) ?n frames (app_controller app')"
      "c_state (app_controller app') = kActive \<longrightarrow> armed (sv_timer_start sv) (app_run_timer app')" by blast
  let ?s = "on_env (\<lambda>e. e\<lparr>env_sink := \<lparr>sink_mailbox = Some mailbox1\<rparr>\<rparr>) (s\<lparr>sys_app := app', sys_reads := n'\<rparr>)"
  have "app_turn sv events s = Some (True, ?s)" by (simp add: app_turn_def mb loop(1))
  moreover have "sys_inv sv frames ?s" using assms(2) loop(2,3)
    by (simp add: sys_inv_def on_env_def Let_def cm_inv_def sys_sink_def sys_controller_def)
  moreover have "sink_mailbox (sys_sink ?s) = Some mailbox1" by (simp add: sys_sink_def on_env_def Let_def)
  ultimately show ?thesis using cmd(3) by auto
qed

lemma add_rainbow_schedule: "c_schedule_next_run (add_rainbow num c) = c_schedule_next_run c"
  by (induction num) (auto simp: add_rainbow_def AddInstruction_cases split: if_splits)

lemma AppTask_Setup_good:
  assumes "AppTask_Setup send timer_start clock init_ret strip mailbox sink app = Some (ok, sink', app')" "\<not> is_negative init_ret"
    and "mailbox_laws send receive frames" "strip_inv strip" "feed_ok n frames strip" "app_controller app = Controller_init device"
  shows "good send n frames (app_controller app') \<and> sink' = \<lparr>sink_mailbox = Some mailbox\<rparr>
    \<and> (c_state (app_controller app') = kActive \<longrightarrow> armed timer_start (app_run_timer app'))"
proof -
  define num where "num = (if unat (of_nat (strip_led_count strip) :: u8) < length kRainbowColors then unat (of_nat (strip_led_count strip) :: u8) else length kRainbowColors)"
  define c1 where "c1 = SetScheduleCallback True (SetTimestampCallback True (SetStrip True (Controller_init strip)))"
  have num: "num \<le> 7" by (simp add: num_def kRainbowColors_def)
  have "(app_controller app)\<lparr>c_device := strip\<rparr> = Controller_init strip" by (simp add: assms(6) Controller_init_def)
  then obtain result sched c3 where d: "DispatchControllerCommand send (clock 0) (clock 1) (CmdStart \<lparr>sc_root_additional_repeats = 0\<rparr>) (add_rainbow num c1) = Some (result, sched, c3)"
      "app' = on_schedule timer_start sched (app\<lparr>app_led_count := of_nat (strip_led_count strip), app_controller := c3\<rparr>)" "sink' = \<lparr>sink_mailbox = Some mailbox\<rparr>"
    using assms(1,2) unfolding AppTask_Setup_def Let_def num_def [symmetric]
    by (auto simp: c1_def SetMailbox_def split: option.splits prod.splits if_splits)
  have "good send n frames (add_rainbow num c1)"
    using rainbow_loaded [OF assms(4) num, of send] assms(5) add_rainbow_schedule [of num c1]
    by (simp add: good_def c1_def) (simp add: SetScheduleCallback_def)
  moreover have "c_state (add_rainbow num c1) \<noteq> kActive" using rainbow_loaded [OF assms(4) num, of send] by (simp add: c1_def)
  ultimately show ?thesis using dispatch_good [OF assms(3) _ d(1)] d(2,3)
    by (auto simp: scheduled_def on_schedule_def OnScheduleNextRun_def armed_def split: option.splits)
qed

lemma sys_inv_power_up:
  assumes laws: "service_laws sv rx frames commands pixel shown" and up: "power_up sv stack k frame_mailbox command_mailbox hw app = Some s"
    and fresh: "cm_protocol (hw_command_manager hw) = Protocol_init (command_config (bd_port (sv_board sv)))"
      "app_controller app = Controller_init device" "frames frame_mailbox = []"
  shows "sys_inv sv frames s"
proof -
  let ?b = "sv_board sv" and ?n = "ws_LedCount (bd_ws (sv_board sv)) (hw_board_strip hw)"
  obtain st initialized hw1 strip hw2 sink app1 where u: "Initialize ?b stack k False hw = (st, initialized, hw1)" "\<not> is_negative st"
      "HwTask_Setup ?b (sv_send_command sv) (StripManager_init frame_mailbox) hw1 = (True, strip, hw2)"
      "AppTask_Setup (sv_send_frame sv) (sv_timer_start sv) (sv_clock sv) st strip command_mailbox (env_sink (cm_env (hw_command_manager hw2))) app = Some (True, sink, app1)"
      "s = on_env (\<lambda>e. e\<lparr>env_sink := sink\<rparr>) \<lparr>sys_hw = hw2, sys_app = app1, sys_reads = 2\<rparr>"
    using up by (auto simp: power_up_def split: prod.splits if_splits option.splits)
  have k: "hw_command_manager hw1 = hw_command_manager hw" "hw_board_strip hw1 = hw_board_strip hw" using Initialize_keeps [OF u(1)] by simp_all
  have "?n \<le> kSharedFrameCapacity" using u(1,2) by (auto simp: Initialize_def split: if_splits prod.splits)
  then have su: "strip_inv strip" "strip_led_count strip = ?n" "cm_inv (bd_port ?b) (sv_send_command sv) (hw_command_manager hw2)"
      "sl_led (hw_status_led hw2)" "hw_board_strip hw2 = hw_board_strip hw" "strip_mailbox strip = frame_mailbox"
    using HwTask_Setup_ok [of hw1 ?b "StripManager_init frame_mailbox" "sv_send_command sv"] u(3) fresh(1) k strip_inv_init [of frame_mailbox]
    by (auto simp: StripManager_init_def)
  have "feed_ok ?n frames strip" using su(2,6) fresh(3) by (simp add: feed_ok_def)
  moreover have "mailbox_laws (sv_send_frame sv) (sv_receive_frame sv) frames" using laws by (simp add: service_laws_def)
  ultimately have "good (sv_send_frame sv) ?n frames (app_controller app1) \<and> sink = \<lparr>sink_mailbox = Some command_mailbox\<rparr>
      \<and> (c_state (app_controller app1) = kActive \<longrightarrow> armed (sv_timer_start sv) (app_run_timer app1))"
    using AppTask_Setup_good [OF u(4,2) _ su(1) _ fresh(2)] by blast
  then show ?thesis using su(3-5) by (simp add: sys_inv_def u(5) on_env_def Let_def cm_inv_def sys_sink_def sys_controller_def)
qed

lemma sys_reachable_inv:
  assumes "service_laws sv rx frames commands pixel shown" "sys_reachable sv frames s"
  shows "sys_inv sv frames s"
  using assms(2)
proof (induction rule: sys_reachable.induct)
  case (step s s')
  from step(2) show ?case
  proof (cases rule: sys_step.cases)
    case (hw_task events)
    then show ?thesis using hw_turn_ok [OF assms(1) step.IH, of events] by simp
  next
    case (app_task events)
    then show ?thesis using app_turn_ok [OF assms(1) step.IH, of events] by simp
  qed (use sys_inv_bytes step.IH in blast)
qed (rule sys_inv_power_up [OF assms(1)])

section \<open>Property\<close>

text \<open>
  C3. The system never stops serving. After a successful power-up, however the iterations of the two
  tasks and the arrival of bytes interleave and whatever the host sends, the next iteration of
  either task returns and keeps its task alive, for any events. An iteration of the app_hw task
  with its receive event leaves no byte unread and with its frame event no frame waiting; one of
  the APP task with its command event leaves no command waiting. The strip keeps the board's size
  and every waiting frame fits on it, and whenever a program is active the last thing that happened
  to the run timer is that it was started with a delay that is not zero.
\<close>

theorem system_keeps_serving:
  assumes "service_laws sv rx frames commands pixel shown" "sys_reachable sv frames s"
  shows "(\<exists>s'. hw_turn sv events s = Some (True, s') \<and> sys_reachable sv frames s'
      \<and> (events AND kCommandRxEventMask (sv_board sv) \<noteq> 0 \<longrightarrow> rx_pending rx (cm_env (hw_command_manager (sys_hw s'))) = [])
      \<and> (events AND kFrameEventMask (sv_board sv) \<noteq> 0 \<longrightarrow> frames (strip_mailbox (c_device (sys_controller s'))) = []))
    \<and> (\<exists>s'. app_turn sv events s = Some (True, s') \<and> sys_reachable sv frames s'
      \<and> (events AND kCommandEventMask (bd_user_event (sv_board sv)) \<noteq> 0 \<longrightarrow> commands (the (sink_mailbox (sys_sink s'))) = []))
    \<and> reachable (sv_send_frame sv) (sys_controller s)
    \<and> strip_led_count (c_device (sys_controller s)) = ws_LedCount (bd_ws (sv_board sv)) (hw_board_strip (sys_hw s))
    \<and> (\<forall>f\<in>set (frames (strip_mailbox (c_device (sys_controller s)))).
         frame_led_count f \<le> ws_LedCount (bd_ws (sv_board sv)) (hw_board_strip (sys_hw s)))
    \<and> (c_state (sys_controller s) = kActive \<longrightarrow> (\<exists>d t. app_run_timer (sys_app s) = sv_timer_start sv d t \<and> d \<noteq> 0))"
proof -
  have inv: "sys_inv sv frames s" by (rule sys_reachable_inv [OF assms])
  note step = sys_reachable.step [OF assms(2)]
  from inv have "reachable (sv_send_frame sv) (sys_controller s)
    \<and> feed_ok (ws_LedCount (bd_ws (sv_board sv)) (hw_board_strip (sys_hw s))) frames (c_device (sys_controller s))
    \<and> (c_state (sys_controller s) = kActive \<longrightarrow> armed (sv_timer_start sv) (app_run_timer (sys_app s)))"
    by (simp add: sys_inv_def good_def)
  then show ?thesis
    using hw_turn_ok [OF assms(1) inv, of events] app_turn_ok [OF assms(1) inv, of events]
    unfolding feed_ok_def armed_def by (blast intro: step sys_step.hw_task sys_step.app_task)
qed

text \<open>The board of seven plain pixels, with lists for the mailboxes and for the timer's starts.\<close>

definition demo_services where
  "demo_services = \<lparr>sv_board = demo_board, sv_send_frame = fifo_send, sv_receive_frame = fifo_receive, sv_send_command = list_send,
     sv_receive_command = fifo_receive, sv_timer_start = (\<lambda>d t. d # t), sv_clock = (\<lambda>n. 100), sv_arrive = (\<lambda>bs w. w @ bs)\<rparr>"

definition demo_up where
  "demo_up = power_up demo_services (Some 4096) 1024 ([] :: SharedFrame list) ([] :: ControllerCommandMessage list)
     (demo_hw\<lparr>hw_command_manager := CommandManager_init demo_port\<rparr>) \<lparr>app_controller = Controller_init (StripManager_init []), app_led_count = 0, app_run_timer = []\<rparr>"

lemma demo_service_laws: "service_laws demo_services (\<lambda>w. w) (\<lambda>mb. mb) (\<lambda>mb. mb) fst snd"
  using demo_port_laws plain_backend_laws [of 7] fifo_mailbox_laws list_mailbox_laws by (simp add: service_laws_def demo_services_def)

lemma demo_up_reachable: "\<exists>s. demo_up = Some s \<and> sys_reachable demo_services (\<lambda>mb. mb) s"
proof -
  let ?hw = "demo_hw\<lparr>hw_command_manager := CommandManager_init demo_port\<rparr>"
  let ?app = "\<lparr>app_controller = Controller_init (StripManager_init ([] :: SharedFrame list)), app_led_count = 0, app_run_timer = [] :: u32 list\<rparr>"
  obtain st i hw1 where r: "Initialize demo_board (Some 4096) 1024 False ?hw = (st, i, hw1)" by (metis prod_cases3)
  then have st: "st = STATUS_OK"
    by (auto simp: Initialize_def demo_board_def demo_hw_def StartHwExecutor_def HwTask_Start_def kSharedFrameCapacity_def plain_ops_def)
  have p: "cm_protocol (hw_command_manager ?hw) = Protocol_init (command_config (bd_port demo_board))" by (simp add: CommandManager_init_def)
  have "0 \<le> fst (dp_Printf (bd_debug demo_board) (banner demo_board) (bd_debug_port demo_board))" by (simp add: demo_board_def)
  then obtain strip hw2 where su: "HwTask_Setup demo_board list_send (StripManager_init ([] :: SharedFrame list)) hw1 = (True, strip, hw2)"
      "strip_inv strip" "0 < strip_led_count strip"
    using HwTask_Setup_ok [of hw1 demo_board "StripManager_init ([] :: SharedFrame list)" list_send] Initialize_keeps [OF r] p strip_inv_init [of "[] :: SharedFrame list"]
    by (auto simp: kSharedFrameCapacity_def)
  obtain s where s: "demo_up = Some s"
    using Setup_rainbow [of STATUS_OK strip ?app "StripManager_init []" fifo_send "\<lambda>d t. d # t" "\<lambda>n. 100" "[]" "env_sink (cm_env (hw_command_manager hw2))"] su
    by (auto simp: demo_up_def power_up_def demo_services_def r st)
  then have "sys_reachable demo_services (\<lambda>mb. mb) s"
    by (intro sys_reachable.up [OF s [unfolded demo_up_def]]) (simp_all add: CommandManager_init_def demo_services_def)
  then show ?thesis using s by blast
qed

theorem system_keeps_serving_witness:
  "\<exists>s s'. demo_up = Some s \<and> hw_turn demo_services 3 s = Some (True, s') \<and> strip_mailbox (c_device (sys_controller s')) = []"
proof -
  obtain s where s: "demo_up = Some s" "sys_reachable demo_services (\<lambda>mb. mb) s" using demo_up_reachable by blast
  have "(3 :: u32) AND kFrameEventMask (sv_board demo_services) \<noteq> 0"
    by (simp add: kFrameEventMask_def demo_services_def demo_board_def)
  then show ?thesis using system_keeps_serving [OF demo_service_laws s(2), of 3] s(1) by blast
qed

end
