(* ===== verification/PendingQueue.thy ===== *)
theory PendingQueue
  imports Preflight
begin

text \<open>
  The pending queue of src/app/controller/instructions/pending_instruction_queue_view.cpp: indexes
  of instruction slots in the order of their marks, with a cursor. The view holds a pointer to the
  controller's slots; \<open>q_instructions\<close> is the array it points to.
\<close>

section \<open>The view\<close>

definition kCapacity :: nat where "kCapacity = kMaxInstructions"

record PendingInstructionQueueView =
  q_instructions :: "InstructionMemorySlot list"
  q_sorted_order :: "nat list"
  q_sorted_count :: nat
  q_head :: nat

definition PendingInstructionQueueView_init :: PendingInstructionQueueView where
  "PendingInstructionQueueView_init =
     \<lparr>q_instructions = [], q_sorted_order = replicate kCapacity 0, q_sorted_count = 0, q_head = 0\<rparr>"

definition SetInstructions :: "InstructionMemorySlot list \<Rightarrow> PendingInstructionQueueView \<Rightarrow> PendingInstructionQueueView" where
  "SetInstructions instructions q = q\<lparr>q_instructions := instructions\<rparr>"

definition HasNext :: "PendingInstructionQueueView \<Rightarrow> bool" where
  "HasNext q \<longleftrightarrow> q_head q < q_sorted_count q"

definition Peek :: "PendingInstructionQueueView \<Rightarrow> nat" where
  "Peek q = q_sorted_order q ! q_head q"

definition PeekMark :: "PendingInstructionQueueView \<Rightarrow> Mark" where
  "PeekMark q = GetMark (q_instructions q ! (q_sorted_order q ! q_head q))"

function find_position :: "PendingInstructionQueueView \<Rightarrow> nat \<Rightarrow> nat \<Rightarrow> nat" where
  "find_position q slot_idx ins =
     (if ins < q_sorted_count q \<and>
         GetMark (q_instructions q ! (q_sorted_order q ! ins)) \<le> GetMark (q_instructions q ! slot_idx)
      then find_position q slot_idx (ins + 1) else ins)"
  by pat_completeness auto
termination
  by (relation "measure (\<lambda>(q, slot_idx, ins). q_sorted_count q - ins)") auto

declare find_position.simps [simp del]

fun shift_right :: "nat \<Rightarrow> nat \<Rightarrow> nat list \<Rightarrow> nat list" where
  "shift_right ins i xs = (if i \<le> ins then xs else shift_right ins (i - 1) (xs[i := xs ! (i - 1)]))"

declare shift_right.simps [simp del]

definition Insert :: "nat \<Rightarrow> PendingInstructionQueueView \<Rightarrow> PendingInstructionQueueView" where
  "Insert slot_idx q =
     (let ins = find_position q slot_idx 0;
          order = shift_right ins (q_sorted_count q) (q_sorted_order q)
      in q\<lparr>q_sorted_order := order[ins := slot_idx], q_sorted_count := q_sorted_count q + 1\<rparr>)"

definition Advance :: "PendingInstructionQueueView \<Rightarrow> PendingInstructionQueueView" where
  "Advance q = q\<lparr>q_head := q_head q + 1\<rparr>"

definition Queue_Reset :: "PendingInstructionQueueView \<Rightarrow> PendingInstructionQueueView" where
  "Queue_Reset q = q\<lparr>q_sorted_count := 0, q_head := 0\<rparr>"

section \<open>Inserting keeps the order\<close>

definition entries :: "PendingInstructionQueueView \<Rightarrow> nat list" where
  "entries q = take (q_sorted_count q) (q_sorted_order q)"

definition queue_inv :: "PendingInstructionQueueView \<Rightarrow> bool" where
  "queue_inv q \<longleftrightarrow> length (q_sorted_order q) = kCapacity \<and> q_sorted_count q \<le> kCapacity \<and>
     sorted (map (\<lambda>i. GetMark (q_instructions q ! i)) (entries q))"

lemma insert_right_takeWhile:
  "sorted (map f ys) \<Longrightarrow> insert_right f x ys = takeWhile (\<lambda>y. f y \<le> f x) ys @ x # dropWhile (\<lambda>y. f y \<le> f x) ys"
proof (induction ys rule: rev_induct)
  case (snoc y ys)
  have all: "\<forall>z\<in>set ys. f z \<le> f y" using snoc.prems by (simp add: sorted_append)
  show ?case
  proof (cases "f x < f y")
    case True
    then show ?thesis using snoc by (auto simp: insert_right_snoc takeWhile_append dropWhile_append sorted_append)
  next
    case False
    then have "\<forall>z\<in>set ys. f z \<le> f x" using all by (meson not_less order.trans)
    then have "takeWhile (\<lambda>y. f y \<le> f x) (ys @ [y]) = ys @ [y]" "dropWhile (\<lambda>y. f y \<le> f x) (ys @ [y]) = []"
      using False by (simp_all add: not_less)
    then show ?thesis using False by (simp add: insert_right_snoc)
  qed
qed (simp add: insert_right_def)

lemma find_position_takeWhile:
  assumes "q_sorted_count q \<le> length (q_sorted_order q)" "ins \<le> q_sorted_count q"
  shows "find_position q x ins =
    ins + length (takeWhile (\<lambda>y. GetMark (q_instructions q ! y) \<le> GetMark (q_instructions q ! x)) (drop ins (entries q)))"
  using assms(2)
proof (induction "q_sorted_count q - ins" arbitrary: ins)
  case 0
  then show ?case by (subst find_position.simps) (simp add: entries_def)
next
  case (Suc m)
  then have lt: "ins < q_sorted_count q" by simp
  have "drop ins (entries q) = entries q ! ins # drop (Suc ins) (entries q)"
    using lt assms(1) by (intro Cons_nth_drop_Suc [symmetric]) (simp add: entries_def)
  moreover have "entries q ! ins = q_sorted_order q ! ins" using lt by (simp add: entries_def)
  moreover have "find_position q x (Suc ins) =
      Suc ins + length (takeWhile (\<lambda>y. GetMark (q_instructions q ! y) \<le> GetMark (q_instructions q ! x)) (drop (Suc ins) (entries q)))"
    using Suc.hyps(1) [of "Suc ins"] Suc.hyps(2) lt by simp
  ultimately show ?case using lt by (subst find_position.simps) simp
qed

lemma shift_right_insert:
  "(shift_right (length pre) (length pre + length ys) (pre @ ys @ z # post))[length pre := x] = pre @ x # ys @ post"
proof (induction ys arbitrary: z post rule: rev_induct)
  case Nil
  then show ?case by (subst shift_right.simps) simp
next
  case (snoc y ys)
  have "(pre @ (ys @ [y]) @ z # post)[length pre + length (ys @ [y]) := y] = pre @ ys @ y # y # post"
    by (simp add: list_update_append)
  moreover have "(pre @ (ys @ [y]) @ z # post) ! (length pre + length (ys @ [y]) - 1) = y" by (simp add: nth_append)
  ultimately have "shift_right (length pre) (length pre + length (ys @ [y])) (pre @ (ys @ [y]) @ z # post)
      = shift_right (length pre) (length pre + length ys) (pre @ ys @ y # y # post)"
    by (subst shift_right.simps) (simp only:, simp)
  then show ?case using snoc [of y "y # post"] by simp
qed

lemma Insert_entries:
  assumes inv: "queue_inv q" and room: "q_sorted_count q < kCapacity"
  shows "queue_inv (Insert x q) \<and> q_instructions (Insert x q) = q_instructions q \<and> q_head (Insert x q) = q_head q
    \<and> entries (Insert x q) = insert_right (\<lambda>i. GetMark (q_instructions q ! i)) x (entries q)"
proof -
  let ?f = "\<lambda>i. GetMark (q_instructions q ! i)" and ?n = "q_sorted_count q" and ?xs = "q_sorted_order q"
  have len: "length ?xs = kCapacity" and s: "sorted (map ?f (entries q))" using inv by (simp_all add: queue_inv_def)
  let ?a = "takeWhile (\<lambda>y. ?f y \<le> ?f x) (entries q)" and ?b = "dropWhile (\<lambda>y. ?f y \<le> ?f x) (entries q)"
  have pos: "find_position q x 0 = length ?a"
    using find_position_takeWhile [of q 0 x] len room by simp
  have e: "entries q = ?a @ ?b" by simp
  have n: "?n = length ?a + length ?b"
    using len room arg_cong [OF e, of length] by (simp add: entries_def del: takeWhile_dropWhile_id)
  have "?xs = entries q @ ?xs ! ?n # drop (Suc ?n) ?xs"
    using len room by (simp add: entries_def Cons_nth_drop_Suc)
  then have xs: "?xs = ?a @ ?b @ ?xs ! ?n # drop (Suc ?n) ?xs" by (metis append.assoc e)
  have order: "q_sorted_order (Insert x q) = ?a @ x # ?b @ drop (Suc ?n) ?xs"
    using shift_right_insert [of ?a ?b "?xs ! ?n" "drop (Suc ?n) ?xs" x] unfolding xs [symmetric] n [symmetric]
    by (simp add: Insert_def Let_def pos)
  have c: "q_sorted_count (Insert x q) = Suc ?n" by (simp add: Insert_def Let_def)
  have en: "entries (Insert x q) = insert_right ?f x (entries q)"
    unfolding insert_right_takeWhile [OF s] entries_def [of "Insert x q"] order c by (simp add: n)
  have "length (q_sorted_order (Insert x q)) = kCapacity"
    unfolding order using len room n by simp
  then show ?thesis using en insert_right_sorted [OF s, of x] room c by (simp add: queue_inv_def) (simp add: Insert_def Let_def)
qed

section \<open>Draining\<close>

text \<open>The usage pattern of the header without the time condition: take the next index, advance, until none is left.\<close>

function queue_drain :: "PendingInstructionQueueView \<Rightarrow> nat list" where
  "queue_drain q = (if HasNext q then Peek q # queue_drain (Advance q) else [])"
  by pat_completeness auto
termination
  by (relation "measure (\<lambda>q. q_sorted_count q - q_head q)") (auto simp: HasNext_def Advance_def)

declare queue_drain.simps [simp del]

lemma queue_drain_entries:
  "q_sorted_count q \<le> length (q_sorted_order q) \<Longrightarrow> queue_drain q = drop (q_head q) (entries q)"
proof (induction q rule: queue_drain.induct)
  case (1 q)
  show ?case
  proof (cases "HasNext q")
    case True
    then have "drop (q_head q) (entries q) = entries q ! q_head q # drop (Suc (q_head q)) (entries q)"
      using 1(2) by (intro Cons_nth_drop_Suc [symmetric]) (simp add: entries_def HasNext_def)
    moreover have "entries q ! q_head q = Peek q" using True by (simp add: entries_def HasNext_def Peek_def)
    moreover have "entries (Advance q) = entries q" "q_head (Advance q) = Suc (q_head q)"
        "q_sorted_count (Advance q) = q_sorted_count q" "q_sorted_order (Advance q) = q_sorted_order q"
      by (simp_all add: entries_def Advance_def)
    ultimately show ?thesis using 1 True by (subst queue_drain.simps) simp
  next
    case False
    then show ?thesis by (subst queue_drain.simps) (simp add: entries_def HasNext_def)
  qed
qed

lemma insert_all:
  assumes "queue_inv q" "q_sorted_count q = 0" "length xs \<le> kCapacity"
  shows "queue_inv (fold Insert xs q) \<and> q_instructions (fold Insert xs q) = q_instructions q \<and> q_head (fold Insert xs q) = q_head q
    \<and> q_sorted_count (fold Insert xs q) = length xs
    \<and> entries (fold Insert xs q) = sort_key (\<lambda>i. GetMark (q_instructions q ! i)) xs"
  using assms(3)
proof (induction xs rule: rev_induct)
  case Nil
  then show ?case using assms(1,2) by (simp add: entries_def)
next
  case (snoc x xs)
  have "q_sorted_count (fold Insert xs q) < kCapacity" using snoc by simp
  moreover have "q_sorted_count (Insert x r) = Suc (q_sorted_count r)" for r by (simp add: Insert_def Let_def)
  ultimately show ?case
    using snoc Insert_entries [of "fold Insert xs q" x]
    by (simp add: insert_right_sort_key)
qed

section \<open>Property\<close>

text \<open>
  C39. The queue hands out the instructions in the order of their marks: after a reset, inserting at
  most as many slots as it has room for and then taking them one by one gives these slots sorted
  by mark, those with equal marks in the order of insertion, each once.
\<close>

theorem queue_hands_out_sorted:
  assumes "length (q_sorted_order q) = kCapacity" "length xs \<le> kCapacity"
  shows "queue_drain (fold Insert xs (Queue_Reset (SetInstructions slots q))) = sort_key (\<lambda>i. GetMark (slots ! i)) xs"
proof -
  let ?q = "Queue_Reset (SetInstructions slots q)"
  have "queue_inv ?q" "q_sorted_count ?q = 0" "q_head ?q = 0" "q_instructions ?q = slots"
    using assms(1) by (simp_all add: queue_inv_def entries_def Queue_Reset_def SetInstructions_def)
  from insert_all [OF this(1,2) assms(2)] this show ?thesis
    by (simp add: queue_drain_entries queue_inv_def)
qed

definition marked :: "Mark \<Rightarrow> InstructionMemorySlot" where
  "marked m = Some (instr m 0 (SetSingleColor black 0))"

theorem queue_hands_out_sorted_witness:
  "queue_drain (fold Insert [0, 1, 2] (Queue_Reset (SetInstructions [marked 5, marked 1, marked 5] PendingInstructionQueueView_init)))
     = [1, 0, 2]"
  using queue_hands_out_sorted [of PendingInstructionQueueView_init "[0, 1, 2]" "[marked 5, marked 1, marked 5]"]
  by (simp add: PendingInstructionQueueView_init_def kCapacity_def kMaxInstructions_def marked_def GetMark_def instr_def word_le_nat_alt)

text \<open>
  Insert places an entry by its mark alone. A slot with an earlier mark inserted after the cursor
  has moved lands before the cursor: it is never handed out, and the entry before the cursor is
  handed out again.
\<close>

lemma late_insert_repeats:
  "let q = Insert 0 (SetInstructions [marked 5, marked 1] PendingInstructionQueueView_init) in
   Peek q = 0 \<and> queue_drain (Insert 1 (Advance q)) = [0]"
  by code_simp

end
