(* ===== verification/Diagnostics.thy ===== *)
theory Diagnostics
  imports Controller Protocol
begin

text \<open>
  The diagnostic texts: the ToString functions of the instructions, the controller's messages about
  the instructions it runs, and the log and hex dump of the protocol engine.

  Of the C library they use std::snprintf and std::vsnprintf with the conversions %u, %s and %02X:
  \<open>format\<close> is the text these produce, and storing it keeps one character less than the size for
  the terminating null character. A buffer is a list of its size. The debug callbacks are not part
  of the model: a message is the text that is handed to them, and whether there is a callback is
  an argument.
\<close>

section \<open>Formatting\<close>

definition digit :: "nat \<Rightarrow> char" where
  "digit n = (if n < 10 then char_of (48 + n) else char_of (55 + n))"

fun dec :: "nat \<Rightarrow> string" where
  "dec n = (if n < 10 then [digit n] else dec (n div 10) @ [digit (n mod 10)])"

declare dec.simps [simp del]

definition hex2 :: "u8 \<Rightarrow> string" where
  "hex2 b = [digit (unat b div 16), digit (unat b mod 16)]"

datatype printf_arg = UArg nat | SArg string | XArg u8

fun conversion :: "printf_arg \<Rightarrow> string \<times> string" where
  "conversion (UArg n) = (''%u'', dec n)"
| "conversion (SArg s) = (''%s'', s)"
| "conversion (XArg b) = (''%02X'', hex2 b)"

text \<open>A format with its arguments: each argument replaces the next conversion, which has to be its own.\<close>

fun format :: "string \<Rightarrow> printf_arg list \<Rightarrow> string" where
  "format [] args = []"
| "format (c # fs) args =
     (if c = CHR ''%'' then
        (case args of
           [] \<Rightarrow> c # format fs args
         | a # rest \<Rightarrow>
             (case conversion a of (spec, text) \<Rightarrow>
                if take (length spec) (c # fs) = spec then text @ format (drop (length spec - 1) fs) rest
                else c # format fs args))
      else c # format fs args)"

text \<open>The null-terminated text that snprintf leaves in a buffer of a size.\<close>

definition snprintf :: "nat \<Rightarrow> string \<Rightarrow> string" where
  "snprintf n text = take (n - 1) text"

section \<open>Descriptions of instructions\<close>

definition SetMultipleColor_ToString :: "RgbColor \<Rightarrow> Range \<Rightarrow> string" where
  "SetMultipleColor_ToString color rng =
     format ''SetMultipleColor(r=%u g=%u b=%u [%u,%u))''
       [UArg (unat (red color)), UArg (unat (green color)), UArg (unat (blue color)),
        UArg (unat (range_start rng)), UArg (unat (range_end rng))]"

definition SetSingleColor_ToString :: "RgbColor \<Rightarrow> u8 \<Rightarrow> string" where
  "SetSingleColor_ToString color index =
     format ''SetSingleColor(r=%u g=%u b=%u idx=%u)''
       [UArg (unat (red color)), UArg (unat (green color)), UArg (unat (blue color)), UArg (unat index)]"

definition SetMultipleColorHsv_ToString :: "HsvColor \<Rightarrow> Range \<Rightarrow> string" where
  "SetMultipleColorHsv_ToString color rng =
     format ''SetMultipleColorHsv(h=%u s=%u v=%u [%u..%u))''
       [UArg (unat (hsv_h color)), UArg (unat (hsv_s color)), UArg (unat (hsv_v color)),
        UArg (unat (range_start rng)), UArg (unat (range_end rng))]"

definition SetSingleColorHsv_ToString :: "HsvColor \<Rightarrow> u8 \<Rightarrow> string" where
  "SetSingleColorHsv_ToString color index =
     format ''SetSingleColorHsv(h=%u s=%u v=%u @%u)''
       [UArg (unat (hsv_h color)), UArg (unat (hsv_s color)), UArg (unat (hsv_v color)), UArg (unat index)]"

definition RunGroup_ToString :: "GroupId \<Rightarrow> LoopCount \<Rightarrow> string" where
  "RunGroup_ToString target_id additional_repeats =
     format ''RunGroup(target=%u repeats=%u)'' [UArg (unat target_id), UArg (unat additional_repeats)]"

definition Fade_ToString :: "Fade_data \<Rightarrow> string" where
  "Fade_ToString f =
     format ''Fade(percent=%u duration=%u idx=%u)''
       [UArg (unat (fade_percent f)), UArg (unat (fade_duration_ms f)), UArg (unat (fade_index f))]"

definition Gradient_ToString :: "Gradient_data \<Rightarrow> string" where
  "Gradient_ToString g =
     format ''Gradient(target=#%02X%02X%02X duration=%u idx=%u)''
       [XArg (red (grad_target g)), XArg (green (grad_target g)), XArg (blue (grad_target g)),
        UArg (unat (grad_duration_ms g)), UArg (unat (grad_index g))]"

lemmas ToString_defs = SetMultipleColor_ToString_def SetSingleColor_ToString_def SetMultipleColorHsv_ToString_def
  SetSingleColorHsv_ToString_def RunGroup_ToString_def Fade_ToString_def Gradient_ToString_def

fun body_ToString :: "instr_body \<Rightarrow> string" where
  "body_ToString (SetMultipleColor color rng) = SetMultipleColor_ToString color rng"
| "body_ToString (SetSingleColor color index) = SetSingleColor_ToString color index"
| "body_ToString (SetMultipleColorHsv color rng) = SetMultipleColorHsv_ToString color rng"
| "body_ToString (SetSingleColorHsv color index) = SetSingleColorHsv_ToString color index"
| "body_ToString (RunGroup target_id additional_repeats) = RunGroup_ToString target_id additional_repeats"
| "body_ToString (Fade f) = Fade_ToString f"
| "body_ToString (Gradient g) = Gradient_ToString g"

definition slot_ToString :: "nat \<Rightarrow> InstructionMemorySlot \<Rightarrow> string" where
  "slot_ToString n slot = snprintf n (case slot of None \<Rightarrow> ''Empty'' | Some i \<Rightarrow> body_ToString (i_body i))"

section \<open>The controller's messages\<close>

definition kDebugLogBufferSize :: nat where "kDebugLogBufferSize = 96"

text \<open>The text of a message, if it is written: with no sink, or a format that is too long, it is not.\<close>

definition Controller_DebugLog :: "bool \<Rightarrow> string \<Rightarrow> printf_arg list \<Rightarrow> string option" where
  "Controller_DebugLog debug fmt args =
     (if \<not> debug then None
      else
        let prefixed = format (''[Controller] %s'' @ [CHR 0x0A]) [SArg fmt]
        in if kDebugLogBufferSize \<le> length prefixed then None
           else Some (format (snprintf kDebugLogBufferSize prefixed) args))"

definition DebugLogDrain :: "bool \<Rightarrow> nat \<Rightarrow> nat \<Rightarrow> 'mb Controller \<Rightarrow> string option" where
  "DebugLogDrain debug i idx c =
     (if \<not> debug then None
      else Controller_DebugLog debug ''DrainExecuting[%u] idx=%u (%s)''
             [UArg i, UArg idx, SArg (slot_ToString 64 (c_instructions c ! idx))])"

definition DebugLogPick :: "bool \<Rightarrow> nat \<Rightarrow> u32 \<Rightarrow> 'mb Controller \<Rightarrow> string option" where
  "DebugLogPick debug idx elapsed c =
     (if \<not> debug then None
      else Controller_DebugLog debug ''PickDueInstructions idx=%u mark=%u elapsed=%u (%s)''
             [UArg idx, UArg (unat (GetMark (c_instructions c ! idx))), UArg (unat elapsed),
              SArg (slot_ToString 64 (c_instructions c ! idx))])"

section \<open>The log of the APP task\<close>

fun status_code :: "ControllerStatus \<Rightarrow> nat" where
  "status_code kSuccess = 0"
| "status_code kInvalidArgument = 1"
| "status_code kBusy = 2"
| "status_code kCapacityExhausted = 3"
| "status_code kInvalidProgram = 4"
| "status_code kAlreadyActiveGroup = 5"

definition LogControllerFailure :: "string \<Rightarrow> ControllerStatus \<Rightarrow> string option" where
  "LogControllerFailure operation st =
     (if st \<noteq> kSuccess
      then Some (format (''[APP] %s failed: status=%u'' @ [CHR 0x0A]) [SArg operation, UArg (status_code st)])
      else None)"

text \<open>A failure is always reported, with the operation and the number of its status, and nothing else is.\<close>

lemma LogControllerFailure_text:
  "LogControllerFailure operation st =
     (if st = kSuccess then None
      else Some (''[APP] '' @ operation @ '' failed: status='' @ dec (status_code st) @ [CHR 0x0A]))"
  by (simp add: LogControllerFailure_def)

section \<open>The log of the protocol engine\<close>

definition k_line_capacity :: nat where "k_line_capacity = 64 - 1"

text \<open>Writing a text and its terminator into a buffer from a position on, for at most a given size.\<close>

definition snprintf_at :: "nat \<Rightarrow> nat \<Rightarrow> string \<Rightarrow> char list \<Rightarrow> char list" where
  "snprintf_at pos n text line =
     (let stored = take (n - 1) text @ [CHR 0x00] in take pos line @ stored @ drop (pos + length stored) line)"

text \<open>The loop over the bytes of a row, from the byte numbers that are left.\<close>

fun dump_bytes :: "u8 list \<Rightarrow> nat \<Rightarrow> nat list \<Rightarrow> nat \<Rightarrow> char list \<Rightarrow> nat \<times> char list" where
  "dump_bytes data offset [] pos line = (pos, line)"
| "dump_bytes data offset (i # rest) pos line =
     (let (pos1, line1) = (if 0 < i \<and> pos < k_line_capacity then (pos + 1, line[pos := CHR '' '']) else (pos, line))
      in if k_line_capacity \<le> pos1 then (pos1, line1)
         else
           let text = format ''%02X'' [XArg (data ! (offset + i))];
               line2 = snprintf_at pos1 (k_line_capacity - pos1 + 1) text line1
           in dump_bytes data offset rest (min (pos1 + length text) k_line_capacity) line2)"

definition dump_row :: "u8 list \<Rightarrow> u32 \<Rightarrow> u32 \<Rightarrow> char list \<Rightarrow> char list" where
  "dump_row data len offset line =
     (let remain = len - offset;
          chunk = (if remain < 16 then remain else 16)
      in case dump_bytes data (unat offset) [0..<unat chunk] 0 line of (pos, line1) \<Rightarrow> line1[pos := CHR 0x00])"

definition cstring :: "char list \<Rightarrow> string" where
  "cstring buf = takeWhile (\<lambda>c. c \<noteq> CHR 0x00) buf"

text \<open>The loop over the rows; the last argument is what has been handed to the callback.\<close>

partial_function (option) dump_loop :: "u8 list \<Rightarrow> u32 \<Rightarrow> u32 \<Rightarrow> char list \<Rightarrow> string list \<Rightarrow> string list option" where
  "dump_loop data len offset line out =
     (if offset < len
      then dump_loop data len (offset + 16) (dump_row data len offset line)
             (out @ [format (''%s'' @ [CHR 0x0A]) [SArg (cstring (dump_row data len offset line))]])
      else Some out)"

declare dump_loop.simps [code]

text \<open>The messages for the callback. The array for a row is not initialised: its content is an argument.\<close>

definition DebugLogImpl :: "char list \<Rightarrow> bool \<Rightarrow> u8 list option \<Rightarrow> u32 \<Rightarrow> string \<Rightarrow> printf_arg list \<Rightarrow> string list option" where
  "DebugLogImpl line debug data len fmt args =
     (if \<not> debug then Some []
      else
        let buf = snprintf 128 (format fmt args);
            header = format (''[PROTO] %s'' @ [CHR 0x0A]) [SArg buf]
        in case data of
             None \<Rightarrow> Some [header]
           | Some d \<Rightarrow>
               if len = 0 then Some [header]
               else dump_loop d len 0 line [header])"

definition DebugVerbose :: "char list \<Rightarrow> bool \<Rightarrow> bool \<Rightarrow> u8 list option \<Rightarrow> u32 \<Rightarrow> string \<Rightarrow> printf_arg list \<Rightarrow> string list option" where
  "DebugVerbose line debug verbose data len fmt args =
     (if \<not> verbose then Some [] else DebugLogImpl line debug data len fmt args)"

section \<open>Descriptions are complete\<close>

lemma length_dec: "0 < k \<Longrightarrow> n < 10 ^ k \<Longrightarrow> length (dec n) \<le> k"
proof (induction k arbitrary: n)
  case (Suc k)
  show ?case
  proof (cases "n < 10")
    case True
    then show ?thesis by (subst dec.simps) simp
  next
    case False
    then have "0 < k" using Suc.prems(2) by (cases k) auto
    moreover have "n div 10 < 10 ^ k" using Suc.prems(2) by (simp add: div_less_iff_less_mult)
    ultimately show ?thesis using Suc.IH [of "n div 10"] False by (subst dec.simps) simp
  qed
qed simp

lemma length_dec_word:
  "length (dec (unat (x :: u8))) \<le> 3" "length (dec (unat (y :: u16))) \<le> 5" "length (dec (unat (z :: u32))) \<le> 10"
  using length_dec [of 3 "unat x"] length_dec [of 5 "unat y"] length_dec [of 10 "unat z"] unat_u8_lt [of x] unat_u16_lt [of y] unat_u32_lt [of z]
  by (simp_all del: unat_u8_lt unat_u16_lt unat_u32_lt)

lemma length_body_ToString: "length (body_ToString b) \<le> 49"
  by (cases b) (simp add: ToString_defs hex2_def, rule order_trans, (rule add_mono | rule length_dec_word)+, simp)+

text \<open>
  Every description fits in the buffer of 64 characters that the controller's messages give it, so
  that they show it whole.
\<close>

theorem slot_ToString_whole:
  "slot_ToString 64 slot = (case slot of None \<Rightarrow> ''Empty'' | Some i \<Rightarrow> body_ToString (i_body i))"
  using length_body_ToString [of "i_body (the slot)"] by (auto simp: slot_ToString_def snprintf_def split: option.split)

section \<open>The rows of a dump\<close>

fun hex_row :: "u8 list \<Rightarrow> string" where
  "hex_row [] = []"
| "hex_row (b # bs) = hex2 b @ concat (map (\<lambda>b. CHR '' '' # hex2 b) bs)"

function rows :: "u8 list \<Rightarrow> u8 list list" where
  "rows xs = (if xs = [] then [] else take 16 xs # rows (drop 16 xs))"
  by pat_completeness auto
termination
  by (relation "measure length") auto

declare rows.simps [simp del]

lemma of_char_digit: "n < 16 \<Longrightarrow> of_char (digit n) = (if n < 10 then 48 + n else 55 + n)"
  by (simp add: digit_def)

lemma digit_nonzero: "n < 16 \<Longrightarrow> digit n \<noteq> CHR 0x00"
proof
  assume "n < 16" "digit n = CHR 0x00"
  then have "of_char (digit n) = (0 :: nat)" by simp
  with of_char_digit [OF \<open>n < 16\<close>] show False by (simp split: if_splits)
qed

lemma hex2_facts: "length (hex2 b) = 2" "CHR 0x00 \<notin> set (hex2 b)" "format ''%02X'' [XArg b] = hex2 b"
proof -
  have "unat b div 16 < 16" "unat b mod 16 < 16" using unat_u8_lt [of b] by (simp_all add: div_less_iff_less_mult)
  then show "CHR 0x00 \<notin> set (hex2 b)"
    using digit_nonzero [of "unat b div 16"] digit_nonzero [of "unat b mod 16"] by (auto simp: hex2_def)
qed (simp_all add: hex2_def)

lemma hex_row_snoc: "hex_row (bs @ [b]) = (if bs = [] then hex2 b else hex_row bs @ CHR '' '' # hex2 b)"
  by (cases bs) simp_all

lemma length_hex_row: "length (hex_row bs) = 3 * length bs - 1"
proof (cases bs)
  case (Cons b cs)
  have "length (concat (map (\<lambda>b. CHR '' '' # hex2 b) cs)) = 3 * length cs" by (induction cs) (simp_all add: hex2_facts)
  then show ?thesis by (simp add: Cons hex2_facts)
qed simp

lemma hex_row_clean: "CHR 0x00 \<notin> set (hex_row bs)"
  by (cases bs) (simp_all add: hex2_facts)


lemma snprintf_at_fits:
  assumes "length line = 64" "pos + length text < 64" "length text < n"
  shows "length (snprintf_at pos n text line) = 64" "take (pos + length text) (snprintf_at pos n text line) = take pos line @ text"
  using assms by (simp_all add: snprintf_at_def)

lemma dump_bytes_row:
  assumes "offset + n \<le> length data" "n \<le> 16"
  shows "i \<le> n \<Longrightarrow> length line = 64 \<Longrightarrow> pos = length (hex_row (take i (drop offset data))) \<Longrightarrow>
    take pos line = hex_row (take i (drop offset data)) \<Longrightarrow>
    \<exists>line'. dump_bytes data offset [i..<n] pos line = (length (hex_row (take n (drop offset data))), line')
      \<and> length line' = 64 \<and> take (length (hex_row (take n (drop offset data)))) line' = hex_row (take n (drop offset data))"
proof (induction "n - i" arbitrary: i pos line)
  case 0
  then show ?case by simp
next
  case (Suc k)
  let ?bs = "take i (drop offset data)" and ?b = "data ! (offset + i)"
  have i: "i < n" "i < 16" "length ?bs = i" using Suc.hyps(2) assms by simp_all
  then have next_row: "take (Suc i) (drop offset data) = ?bs @ [?b]" using assms(1) by (simp add: take_Suc_conv_app_nth)
  have pos: "pos = 3 * i - 1" using Suc.prems(3) i(3) by (simp add: length_hex_row)
  let ?pos = "if 0 < i then pos + 1 else pos" and ?line = "if 0 < i then line[pos := CHR '' ''] else line"
  let ?line2 = "snprintf_at ?pos (63 - ?pos + 1) (hex2 ?b) ?line"
  have p: "?pos = 3 * i" "?pos + 2 < 64" using pos i(2) by auto
  have t: "take ?pos ?line = (if i = 0 then [] else hex_row ?bs @ '' '')"
    using Suc.prems(2,4) p(2) take_Suc_conv_app_nth [of pos "line[pos := CHR '' '']"] by auto
  have "length ?line = 64" using Suc.prems(2) by simp
  note s = snprintf_at_fits [OF this, of ?pos "hex2 ?b" "63 - ?pos + 1", unfolded hex2_facts(1)]
  have row: "hex_row (take (Suc i) (drop offset data)) = take ?pos ?line @ hex2 ?b"
    using i(3) t by (auto simp: next_row hex_row_snoc)
  have "dump_bytes data offset [i..<n] pos line = dump_bytes data offset [Suc i..<n] (?pos + 2) ?line2"
    using p pos i by (auto simp: upt_conv_Cons k_line_capacity_def hex2_facts numeral_2_eq_2 simp del: format.simps)
  moreover have "?pos + 2 = length (hex_row (take (Suc i) (drop offset data)))"
    using p(1) i next_row by (simp add: length_hex_row)
  ultimately show ?case
    using Suc.hyps(1) [of "Suc i" ?line2 "?pos + 2"] Suc.hyps(2) i s p(2) row by (simp del: snprintf_at_def)
qed

lemma cstring_cut:
  assumes "k < length line" "CHR 0x00 \<notin> set (take k line)"
  shows "cstring (line[k := CHR 0x00]) = take k line"
proof -
  have "line[k := CHR 0x00] = take k line @ CHR 0x00 # drop (Suc k) line" using assms(1) by (rule upd_conv_take_nth_drop)
  then show ?thesis using assms(2) by (auto simp: cstring_def takeWhile_tail)
qed

lemma dump_row_hex:
  assumes "unat len = length data" "offset < len" "length line = 64"
  shows "cstring (dump_row data len offset line) = hex_row (take 16 (drop (unat offset) data)) \<and> length (dump_row data len offset line) = 64"
proof -
  let ?bs = "take 16 (drop (unat offset) data)" and ?n = "unat (if len - offset < 16 then len - offset else 16)"
  have sub: "unat (len - offset) = length data - unat offset" using assms(1,2) by (simp add: unat_sub)
  then have n: "?n = min 16 (length data - unat offset)" by (simp add: word_less_nat_alt)
  have lt: "unat offset < length data" using assms(1,2) by (simp add: word_less_nat_alt)
  then have len: "unat offset + ?n \<le> length data" "?n \<le> 16" unfolding n by simp_all
  have bs: "take ?n (drop (unat offset) data) = ?bs" unfolding n by (simp add: min_def)
  obtain line' where d: "dump_bytes data (unat offset) [0..<?n] 0 line = (length (hex_row ?bs), line')" "length line' = 64"
      "take (length (hex_row ?bs)) line' = hex_row ?bs"
    using dump_bytes_row [OF len, of 0 line 0] assms(3) unfolding bs by auto
  have "length (hex_row ?bs) < 64" by (simp add: length_hex_row)
  then have "cstring (line'[length (hex_row ?bs) := CHR 0x00]) = hex_row ?bs"
    using cstring_cut [of "length (hex_row ?bs)" line'] d(2,3) hex_row_clean [of ?bs] by simp
  then show ?thesis unfolding dump_row_def Let_def d(1) using d(2) by simp
qed

lemma dump_loop_rows:
  assumes "unat len = length data" "length data \<le> 2 ^ 32 - 16"
  shows "length line = 64 \<Longrightarrow> dump_loop data len offset line out = Some (out @ map (\<lambda>bs. hex_row bs @ [CHR 0x0A]) (rows (drop (unat offset) data)))"
proof (induction "length data - unat offset" arbitrary: offset line out rule: less_induct)
  case less
  show ?case
  proof (cases "offset < len")
    case False
    then have "drop (unat offset) data = []" using assms(1) by (simp add: word_less_nat_alt)
    then show ?thesis using False by (subst dump_loop.simps) (simp add: rows.simps)
  next
    case True
    then have lt: "unat offset < length data" using assms(1) by (simp add: word_less_nat_alt)
    then have u: "unat (offset + 16) = unat offset + 16" using assms(2) by (subst unat_add_lem [THEN iffD1]) simp_all
    have r: "rows (drop (unat offset) data) = take 16 (drop (unat offset) data) # rows (drop (unat (offset + 16)) data)"
      using lt by (subst rows.simps) (simp add: u add.commute)
    note row = dump_row_hex [OF assms(1) True less.prems]
    have f: "format (''%s'' @ [CHR 0x0A]) [SArg s] = s @ [CHR 0x0A]" for s by simp
    have "dump_loop data len offset line out = dump_loop data len (offset + 16) (dump_row data len offset line)
        (out @ [hex_row (take 16 (drop (unat offset) data)) @ [CHR 0x0A]])"
      using True row by (subst dump_loop.simps) (simp only: f if_True)
    also have "\<dots> = Some ((out @ [hex_row (take 16 (drop (unat offset) data)) @ [CHR 0x0A]])
        @ map (\<lambda>bs. hex_row bs @ [CHR 0x0A]) (rows (drop (unat (offset + 16)) data)))"
      using less.hyps row lt by (simp add: u)
    finally show ?thesis by (simp add: r)
  qed
qed

section \<open>Properties\<close>

definition digit_value :: "char \<Rightarrow> nat" where
  "digit_value c = (let k = of_char c in if k < 58 then k - 48 else k - 55)"

text \<open>Reading a row of the dump back.\<close>

fun read_row :: "string \<Rightarrow> u8 list" where
  "read_row (a # b # rest) = of_nat (digit_value a * 16 + digit_value b) # read_row (drop 1 rest)"
| "read_row _ = []"

lemma digit_value_digit: "n < 16 \<Longrightarrow> digit_value (digit n) = n"
  by (simp add: digit_value_def of_char_digit Let_def)

lemma read_hex_row: "read_row (hex_row bs) = bs"
proof (induction bs)
  case (Cons b bs)
  have "unat b div 16 < 16" "unat b mod 16 < 16" using unat_u8_lt [of b] by (simp_all add: div_less_iff_less_mult)
  then have "of_nat (digit_value (digit (unat b div 16)) * 16 + digit_value (digit (unat b mod 16))) = b"
    by (simp only: digit_value_digit div_mult_mod_eq) simp
  moreover have "hex_row (b # bs) = hex2 b @ (if bs = [] then [] else CHR '' '' # hex_row bs)" by (cases bs) simp_all
  ultimately show ?case using Cons.IH by (simp add: hex2_def)
qed simp

lemma rows_concat: "concat (rows xs) = xs \<and> (\<forall>r\<in>set (rows xs). length r \<le> 16)"
proof (induction xs rule: rows.induct)
  case (1 xs)
  then show ?case by (subst (1 2) rows.simps) auto
qed

text \<open>
  C40. A dump shows exactly the bytes. With a callback, the engine's message is handed over first, cut
  to the 127 characters of its buffer, then one line for every sixteen bytes: the loop ends, every
  row fits in the buffer of a line without being cut, the content the buffer had before does not
  matter, and reading the rows back gives the bytes.
\<close>

theorem dump_shows_bytes:
  assumes "unat len = length d" "d \<noteq> []" "length d \<le> 2 ^ 32 - 16" "length line = 64"
  shows "DebugLogImpl line True (Some d) len fmt args
      = Some ((''[PROTO] '' @ take 127 (format fmt args) @ [CHR 0x0A]) # map (\<lambda>bs. hex_row bs @ [CHR 0x0A]) (rows d))
    \<and> concat (map (\<lambda>bs. read_row (hex_row bs)) (rows d)) = d
    \<and> (\<forall>bs\<in>set (rows d). length (hex_row bs) \<le> 47 \<and> length bs \<le> 16)"
proof -
  have h: "format (''[PROTO] %s'' @ [CHR 0x0A]) [SArg s] = ''[PROTO] '' @ s @ [CHR 0x0A]" for s by simp
  have "len \<noteq> 0" using assms(1,2) by auto
  moreover have "length (hex_row bs) \<le> 47" if "length bs \<le> 16" for bs using that by (simp add: length_hex_row)
  ultimately show ?thesis
    using dump_loop_rows [OF assms(1,3,4), of 0] rows_concat [of d]
    unfolding DebugLogImpl_def Let_def h snprintf_def by (simp add: read_hex_row)
qed

theorem dump_shows_bytes_witness:
  "DebugLogImpl (replicate 64 CHR ''?'') True (Some [0xAA, 2, 1]) 3 ''Rx %u bytes:'' [UArg 3]
    = Some [''[PROTO] Rx 3 bytes:'' @ [CHR 0x0A], ''AA 02 01'' @ [CHR 0x0A]]"
proof -
  have "rows [0xAA, 2, 1 :: u8] = [[0xAA, 2, 1]]" by (simp add: rows.simps)
  moreover have "hex_row [0xAA, 2, 1] = ''AA 02 01''" by code_simp
  moreover have "take 127 (format ''Rx %u bytes:'' [UArg 3]) = ''Rx 3 bytes:''" by code_simp
  ultimately show ?thesis using dump_shows_bytes [of 3 "[0xAA, 2, 1]" "replicate 64 CHR ''?''" "''Rx %u bytes:''" "[UArg 3]"]
    by simp
qed

text \<open>The controller's messages about an instruction are always written, with its whole description.\<close>

theorem controller_messages_whole:
  "DebugLogPick True idx elapsed c = Some (''[Controller] PickDueInstructions idx='' @ dec idx @ '' mark='' @ dec (unat (GetMark (c_instructions c ! idx)))
     @ '' elapsed='' @ dec (unat elapsed) @ '' ('' @ (case c_instructions c ! idx of None \<Rightarrow> ''Empty'' | Some i \<Rightarrow> body_ToString (i_body i)) @ '')'' @ [CHR 0x0A])"
  "DebugLogDrain True i idx c = Some (''[Controller] DrainExecuting['' @ dec i @ ''] idx='' @ dec idx
     @ '' ('' @ (case c_instructions c ! idx of None \<Rightarrow> ''Empty'' | Some i \<Rightarrow> body_ToString (i_body i)) @ '')'' @ [CHR 0x0A])"
  unfolding slot_ToString_whole [symmetric]
  by (simp_all add: DebugLogPick_def DebugLogDrain_def Controller_DebugLog_def kDebugLogBufferSize_def snprintf_def)

end
