(* ===== verification/HostTimed.thy ===== *)
theory HostTimed
  imports Diagnostics
begin

text \<open>
  The timed instruction of the host tests: test_timed_instruction.cpp, which is compiled into the
  tests only. It yields once with its delay, then completes, and counts its executions in a counter
  that several copies may share, so the counters are a memory beside the instruction.
\<close>

record TimedInstruction =
  ti_delay_ms :: u32
  ti_execution_count :: "nat option"
  ti_yield_on_first_execution :: bool
  ti_yielded :: bool

type_synonym counters = "nat \<Rightarrow> u32"

definition mk_TimedInstruction :: "u32 \<Rightarrow> nat option \<Rightarrow> bool \<Rightarrow> TimedInstruction" where
  "mk_TimedInstruction delay_ms execution_count yield_on_first_execution =
     \<lparr>ti_delay_ms = delay_ms, ti_execution_count = execution_count,
      ti_yield_on_first_execution = yield_on_first_execution, ti_yielded = False\<rparr>"

definition Timed_Execute :: "TimedInstruction \<Rightarrow> counters \<Rightarrow> u32 \<times> TimedInstruction \<times> counters" where
  "Timed_Execute t counters =
     (let counters1 = (case ti_execution_count t of None \<Rightarrow> counters | Some a \<Rightarrow> counters(a := counters a + 1))
      in if \<not> ti_yield_on_first_execution t \<or> ti_yielded t then (0, t, counters1)
         else (ti_delay_ms t, t\<lparr>ti_yielded := True\<rparr>, counters1))"

definition Timed_ResetForReplay :: "TimedInstruction \<Rightarrow> TimedInstruction" where
  "Timed_ResetForReplay t = t\<lparr>ti_yielded := False\<rparr>"

definition Timed_HasPositiveSchedulingBoundary :: "TimedInstruction \<Rightarrow> bool" where
  "Timed_HasPositiveSchedulingBoundary t \<longleftrightarrow> 0 < ti_delay_ms t"

definition Timed_ToString :: "TimedInstruction \<Rightarrow> string" where
  "Timed_ToString t = format ''TimedInstruction(delay=%u)'' [UArg (unat (ti_delay_ms t))]"

text \<open>The delays of a number of executions in a row.\<close>

fun timed_pass :: "nat \<Rightarrow> TimedInstruction \<Rightarrow> counters \<Rightarrow> u32 list \<times> TimedInstruction \<times> counters" where
  "timed_pass 0 t counters = ([], t, counters)"
| "timed_pass (Suc n) t counters =
     (case Timed_Execute t counters of (delay, t1, counters1) \<Rightarrow>
        case timed_pass n t1 counters1 of (delays, t2, counters2) \<Rightarrow> (delay # delays, t2, counters2))"

lemma timed_rest:
  assumes "\<not> ti_yield_on_first_execution t \<or> ti_yielded t"
  shows "timed_pass n t counters = (replicate n 0, t,
    case ti_execution_count t of None \<Rightarrow> counters | Some a \<Rightarrow> counters(a := counters a + of_nat n))"
proof (induction n arbitrary: counters)
  case (Suc n)
  have "Timed_Execute t counters =
      (0, t, case ti_execution_count t of None \<Rightarrow> counters | Some a \<Rightarrow> counters(a := counters a + 1))"
    using assms by (auto simp: Timed_Execute_def Let_def)
  then show ?case by (simp add: Suc.IH add.assoc split: option.split)
qed (simp split: option.split)

text \<open>
  Each replay yields exactly once, at its first execution and with the configured delay, and counts
  every execution; resetting it makes it yield again.
\<close>

lemma timed_replay:
  assumes "ti_yield_on_first_execution t"
  shows "timed_pass (Suc n) (Timed_ResetForReplay t) counters = (ti_delay_ms t # replicate n 0, t\<lparr>ti_yielded := True\<rparr>,
    case ti_execution_count t of None \<Rightarrow> counters | Some a \<Rightarrow> counters(a := counters a + of_nat (Suc n)))"
proof -
  have "Timed_Execute (Timed_ResetForReplay t) counters = (ti_delay_ms t, t\<lparr>ti_yielded := True\<rparr>,
      case ti_execution_count t of None \<Rightarrow> counters | Some a \<Rightarrow> counters(a := counters a + 1))"
    using assms by (simp add: Timed_Execute_def Timed_ResetForReplay_def)
  then show ?thesis by (simp add: timed_rest add.assoc split: option.split)
qed

end
