(* ===== verification/Spec2Isabelle.thy ===== *)
theory Spec2Isabelle
  imports Color Oklab Strip StripView SlotLayout ControllerProps ProtocolProps Commands CommandManager Dispatch HwTask StillImage Timeline Completion App Playback System PendingQueue Diagnostics HostTimed
begin

text \<open>
  Verification of Prism Kit, an animation engine for addressable LED strips (src/).

  \<^bold>\<open>The program.\<close> A host sends framed commands over a serial port. The app_hw task
  (src/app/src/hw/) parses the frames, turns each into a command message and queues it in a mailbox;
  it also takes finished frames of pixels from a second mailbox and shows them on the board, and
  blinks a status LED. The APP task (src/app/src/blink_app.cpp) takes the messages, builds
  instructions from them and loads them into the controller (src/app/controller/), which checks a
  program of groups before it starts it and then, tick by tick, executes the instructions that are
  due, stages pixels, commits a frame and schedules its next tick with a one-shot timer. At startup
  the APP task shows a rainbow.

  \<^bold>\<open>Which theory models what.\<close> The order is that of the imports.
  \<^item> \<open>Prelude\<close>: machine integers, the collections of lemmas, and facts on lists, folds, rounding
    division and words that the components share.
  \<^item> \<open>Color\<close>: src/include/prism/color.hpp, the RGB and HSV records, the presets and the conversions.
  \<^item> \<open>Oklab\<close>: src/app/controller/oklab.cpp, the fixed-point color space of gradients: the tables, the
    cube root, the matrix products, encoding and interpolation, at the widths of the source, and the
    routines with signed arithmetic once more with every operation checked.
  \<^item> \<open>Strip\<close>: src/app/src/hw/strip_manager.cpp, the staged frame and the hand-off of frames between
    the tasks. The locale \<open>strip_contract\<close> is what the instructions rely on; the manager interprets it.
  \<^item> \<open>StripView\<close>: the pixel views of the strip manager as objects in a memory, shown to be the indices
    that stand for them elsewhere.
  \<^item> \<open>Instruction\<close>: src/app/controller/instructions/, the seven kinds of instruction with their
    constructors, Execute and ResetForReplay, and the memory slot that holds one of them.
  \<^item> \<open>SlotLayout\<close>: the memory slot as instruction_memory_slot.cpp has it, a union with a tag, refined to
    the option over which the controller is stated.
  \<^item> \<open>Preflight\<close>: the part of src/app/controller/controller.cpp that checks a program before it is
    started: group table, index pool, call graph, its closure and the repeat boundaries.
  \<^item> \<open>Controller\<close>, \<open>ControllerInv\<close>, \<open>Ticks\<close>, \<open>ControllerProps\<close>: the rest of controller.cpp, the public
    operations and the tick with its loops; the run-time invariant and the pieces of progress that
    keep it; the loops of the tick, once and for all for any order that the pieces descend (the
    locale \<open>round_steps\<close>); the state machine of the public operations and its properties.
  \<^item> \<open>StillImage\<close>, \<open>Timeline\<close>: what a program of color instructions shows, at once and over time.
  \<^item> \<open>Completion\<close>: programs in which nothing repeats for ever come to their end, by a second order for
    \<open>round_steps\<close>.
  \<^item> \<open>Bytes\<close>, \<open>Protocol\<close>, \<open>ProtocolProps\<close>: src/protocol/, frames, the handler table, the transmit phase
    and the receive state machine, with an abstract parser of byte streams that it refines. The
    locale \<open>byte_source\<close> states what the receive loop needs of its environment.
  \<^item> \<open>Commands\<close>: src/app/src/hw/controller_command_sink.cpp, the messages, the fourteen handlers and
    their registration, with the encoding the host uses as their inverse.
  \<^item> \<open>CommandManager\<close>: src/app/src/hw/command_manager.cpp, the port adapters and the run; it
    interprets \<open>byte_source\<close>.
  \<^item> \<open>Dispatch\<close>: src/app/src/controller_command_dispatch.cpp, from a message to the controller.
  \<^item> \<open>HwTask\<close>: status_led.cpp, hw_task.cpp, app_hw.cpp and prism_hw_backend.cpp under src/app/src/.
  \<^item> \<open>App\<close>: src/app/src/blink_app.cpp, the APP task's setup and loop.
  \<^item> \<open>Playback\<close>: the APP task's loop driven by its timer, which plays a program as \<open>Completion\<close> does.
  \<^item> \<open>System\<close>: the two tasks together, as a relation of steps from power-up on.
  \<^item> \<open>PendingQueue\<close>: pending_instruction_queue_view.cpp, which no other file uses.
  \<^item> \<open>Diagnostics\<close>: the texts of the ToString functions, of the controller's messages, of the failures
    the APP task reports and of the protocol engine's log and hex dump.
  \<^item> \<open>HostTimed\<close>: test_timed_instruction.cpp, an instruction of the host tests.

  \<^bold>\<open>How state and errors correspond.\<close> A class is a record with its members as fields (\<open>c_\<close> for the
  controller, \<open>p_\<close> for the protocol engine, \<open>cm_\<close>, \<open>hw_\<close>, \<open>app_\<close> for the tasks), an enum is a
  datatype with the source's constructors, unsigned integers are words of their width wherever a
  value can wrap, and a null pointer is None or a flag that tells whether the pointer is set. An
  operation takes the record last and returns its result beside the new record; status codes are
  values. An array index that the code leaves unchecked is an index into a list of the array's
  fixed length, and the invariants show that it is in range.

  \<^bold>\<open>Loops.\<close> A loop with a bound the code states is structural recursion or a fold; one that ends by a
  simple measure is a function with its termination proof. A loop that ends only in states of the
  program, or with services that keep their laws (the passes of the tick, the receive loop, the
  draining of a mailbox), is a partial function with None for never returning, and the theorems
  show that Some is returned. There is no fuel: the counters are those of the source.

  \<^bold>\<open>What is outside.\<close> The submodules bal and oshal are not part of the tree. Their operations are
  arguments, or fields of the records \<open>SerialPort\<close>, \<open>DebugPort\<close>, \<open>Ws2812Ops\<close> and \<open>Board\<close>, and what the
  code relies on is stated as \<open>mailbox_laws\<close> (a mailbox hands out in order what was accepted),
  \<open>backend_laws\<close> (setting a pixel changes that pixel, showing latches), \<open>serial_laws\<close> and \<open>arrives\<close>
  (reading hands out a first part of what was received), \<open>timer_laws\<close> (a started one-shot timer fires
  once, after its delay). Each has an instance that the witnesses use. The clock is an argument of every operation that reads it, so the theorems hold for any
  readings, the wrap of the 32-bit counter included.

  \<^bold>\<open>What the theorems show.\<close> The whole way of a program: bytes in any pieces
  become exactly the commands sent, these the controller's program, and it is started exactly when
  it is valid (\<open>host_program_runs\<close>), and completed when it is finite
  (\<open>host_program_completes\<close>); power-up ends with the rainbow on the board
  (\<open>startup_shows_rainbow\<close>), provided the app_hw task has configured the strip before
  the APP task reads it (\<open>Setup_early\<close> tells what happens otherwise); the two tasks
  serve forever in every interleaving (\<open>system_keeps_serving\<close>); no iteration of the APP
  loop leaves an active program without its timer (\<open>AppTask_Loop_serves\<close>). Controller:
  every tick returns, does all that is due, schedules the earliest pending delay, and only a reset
  changes an active program; preflight is equivalent to a declarative notion of valid program; a
  finite program is completed (\<open>finite_program_completes\<close>), a program of color
  instructions plays its time line (\<open>still_animation\<close>). Instructions: exact pixels,
  ramps and delays; the tagged union is never read through the wrong member. Arithmetic: no checked
  operation overflows, roots are optimal, encodings nearest, and the color conversions return the
  largest and smallest channel. Protocol: refinement of the abstract parser, buffer bounds under
  every operation, round trips, resynchronisation and rejection of damaged frames. Diagnostics: no
  text is cut that the code means to show whole. Errors: the exact conditions under which Initialize
  fails and handlers drop.

  \<^bold>\<open>Not modelled.\<close> The calls that log, inside the operations, and the pointers
  to the debug callbacks: nothing the program does depends on them (\<open>Diagnostics\<close> has
  the texts); the banner is the exception. The boot hand-off and the task stacks
  (src/src/boot_handoff_zephyr.cpp), static objects and one call into a submodule.
  Controller::SetDebug and the functions that return a singleton. The memory slot's member for the
  host-test instruction, which only the tests have. Preemption inside an iteration of a task's loop:
  \<open>System\<close> interleaves whole iterations, and the members of a task are touched by its
  own iterations only, apart from the two mailboxes. Which of the two setups comes first is up to
  the OS layer: \<open>AppTask_Setup\<close> is given the strip as it is when it reads it.
\<close>

section \<open>From the wire to the controller\<close>

lemma command_instruction_known: "command_instruction m = Some i \<Longrightarrow> known m"
  by (cases m) simp_all

lemma queue_all:
  assumes "mailbox_laws msend receive pending"
    and "\<forall>mb m. length (pending mb) < cap \<longrightarrow> fst (msend mb m) = STATUS_OK"
  shows "length (pending mb) + length ms \<le> cap \<Longrightarrow>
    \<exists>mb'. fold (QueueCommand msend) ms \<lparr>sink_mailbox = Some mb\<rparr> = \<lparr>sink_mailbox = Some mb'\<rparr> \<and> pending mb' = pending mb @ ms"
proof (induction ms arbitrary: mb)
  case (Cons m ms)
  have "pending (snd (msend mb m)) = pending mb @ [m]"
    using assms Cons.prems by (simp add: mailbox_laws_def)
  moreover have "QueueCommand msend m \<lparr>sink_mailbox = Some mb\<rparr> = \<lparr>sink_mailbox = Some (snd (msend mb m))\<rparr>"
    by (simp add: QueueCommand_def case_prod_unfold)
  ultimately show ?case using Cons.IH [of "snd (msend mb m)"] Cons.prems by simp
qed simp

lemma Loop_dispatches:
  assumes "mailbox_laws msend receive pending" "reachable send (app_controller app)"
    and "events AND kCommandEventMask ue \<noteq> 0" "events AND kTimeoutEventMask ue = 0"
  shows "\<exists>mailbox' results delays c'. dispatch_all send clock n (pending mailbox) (app_controller app) = Some (results, delays, c')
    \<and> AppTask_Loop send receive timer_start ue clock n events mailbox app = Some (True, n + 2 * length (pending mailbox), mailbox',
        app\<lparr>app_controller := c', app_run_timer := fold timer_start delays (app_run_timer app)\<rparr>)
    \<and> pending mailbox' = []"
proof -
  obtain mailbox' results delays c' where u: "dispatch_all send clock n (pending mailbox) (app_controller app) = Some (results, delays, c')"
      "UpdateInstructions send receive timer_start clock n mailbox app = Some (n + 2 * length (pending mailbox), mailbox',
        app\<lparr>app_controller := c', app_run_timer := fold timer_start delays (app_run_timer app)\<rparr>)" "pending mailbox' = []"
    using UpdateInstructions_dispatches [OF assms(1,2), of clock n mailbox timer_start] by blast
  have "AppTask_Loop send receive timer_start ue clock n events mailbox app = Some (True, n + 2 * length (pending mailbox), mailbox',
        app\<lparr>app_controller := c', app_run_timer := fold timer_start delays (app_run_timer app)\<rparr>)"
    unfolding AppTask_Loop_def using assms(3,4) u(2) by simp
  then show ?thesis using u by blast
qed

text \<open>The app_hw task queues the host's messages: the first half of both properties below.\<close>

lemma host_program_queued:
  assumes "serial_laws ops rx" "arrives arrive rx" "cm_inv ops msend cm"
    and "env_command_port (cm_env cm) \<noteq> None" "rx_pending rx (cm_env cm) = []" "p_state (cm_protocol cm) = kWaitingForSync"
    and "mailbox_laws msend receive pending" "\<forall>mb m. length (pending mb) < 32 \<longrightarrow> fst (msend mb m) = STATUS_OK"
    and "env_sink (cm_env cm) = \<lparr>sink_mailbox = Some mb\<rparr>" "pending mb = []"
    and "map command_instruction commands = map Some instructions" "length instructions \<le> kMaxInstructions"
    and "concat pieces = concat (map (\<lambda>m. wire (encode m)) (CmdResetInstructions # commands @ [CmdStart p]))"
  shows "\<exists>cm' mb1. serve arrive pieces cm = Some cm' \<and> sink_mailbox (env_sink (cm_env cm')) = Some mb1
    \<and> pending mb1 = CmdResetInstructions # commands @ [CmdStart p] \<and> length commands = length instructions"
proof -
  let ?ms = "CmdResetInstructions # commands @ [CmdStart p]" and ?msgs = "map (Pair ([] :: u8 list)) (CmdResetInstructions # commands @ [CmdStart p])"
  have "known m" if "m \<in> set commands" for m
    using arg_cong [OF assms(11), of set] that command_instruction_known by (metis image_iff list.set_map)
  then have "\<forall>(junk, m)\<in>set ?msgs. kSyncByte \<notin> set junk \<and> known m" by auto
  moreover have "concat pieces = concat (map (\<lambda>(junk, m). junk @ wire (encode m)) ?msgs)" by (simp add: assms(13) comp_def)
  ultimately obtain cm' where s: "serve arrive pieces cm = Some cm'"
      "env_sink (cm_env cm') = fold (QueueCommand msend) (map snd ?msgs) (env_sink (cm_env cm))"
    using serve_commands [OF assms(1-6), of ?msgs pieces] by blast
  have "length commands = length instructions" using arg_cong [OF assms(11), of length] by simp
  then have "length (pending mb) + length ?ms \<le> 32" using assms(10,12) by (simp add: kMaxInstructions_def)
  then obtain mb1 where q: "fold (QueueCommand msend) ?ms \<lparr>sink_mailbox = Some mb\<rparr> = \<lparr>sink_mailbox = Some mb1\<rparr>" "pending mb1 = ?ms"
    using queue_all [OF assms(7,8), of mb ?ms] assms(10) by auto
  have "env_sink (cm_env cm') = \<lparr>sink_mailbox = Some mb1\<rparr>"
    using s(2) q(1) by (simp add: assms(9) comp_def)
  then show ?thesis using s(1) q(2) \<open>length commands = length instructions\<close> by simp
qed

text \<open>
  C1. A program sent by the host runs as sent. The host sends a reset, the commands of up to
  twenty-eight instructions and a start, the bytes arriving in any pieces; the command mailbox
  accepts thirty-two messages, as many as it has room for. Then the app_hw task queues all of
  them, one iteration of the APP loop empties the mailbox, the controller holds exactly the
  instructions that were sent, in order, whatever it held before, and the program has been started
  exactly when it is valid.
\<close>

theorem host_program_runs:
  assumes "serial_laws ops rx" "arrives arrive rx" "cm_inv ops msend cm"
    and "env_command_port (cm_env cm) \<noteq> None" "rx_pending rx (cm_env cm) = []" "p_state (cm_protocol cm) = kWaitingForSync"
    and "mailbox_laws msend receive pending" "\<forall>mb m. length (pending mb) < 32 \<longrightarrow> fst (msend mb m) = STATUS_OK"
    and "env_sink (cm_env cm) = \<lparr>sink_mailbox = Some mb\<rparr>" "pending mb = []"
    and "reachable send (app_controller app)"
    and "events AND kCommandEventMask ue \<noteq> 0" "events AND kTimeoutEventMask ue = 0"
    and "map command_instruction commands = map Some instructions" "length instructions \<le> kMaxInstructions"
    and "concat pieces = concat (map (\<lambda>m. wire (encode m)) (CmdResetInstructions # commands @ [CmdStart p]))"
  shows "\<exists>cm' mb1 n' mb2 app'. serve arrive pieces cm = Some cm' \<and> sink_mailbox (env_sink (cm_env cm')) = Some mb1
    \<and> AppTask_Loop send receive timer_start ue clock n events mb1 app = Some (True, n', mb2, app') \<and> pending mb2 = []
    \<and> (let slots = program_slots (c_strip (app_controller app)) instructions in
         map slot_ResetForReplay (c_instructions (app_controller app')) = map slot_ResetForReplay slots
         \<and> c_instruction_count (app_controller app') = length instructions
         \<and> (c_state (app_controller app') \<noteq> kEditable \<longleftrightarrow>
              valid_program slots (length instructions) (sc_root_additional_repeats p)))"
proof -
  obtain cm' mb1 where q: "serve arrive pieces cm = Some cm'" "sink_mailbox (env_sink (cm_env cm')) = Some mb1"
      "pending mb1 = CmdResetInstructions # commands @ [CmdStart p]"
    using host_program_queued [OF assms(1-10,14-16)] by blast
  then show ?thesis
    using Loop_dispatches [OF assms(7,11-13), of clock n mb1 timer_start] dispatch_program [OF assms(11,15,14), of clock n p]
    by (auto simp: Let_def)
qed

text \<open>A program of one instruction, sent in one piece to a controller that is running another program.\<close>

definition demo_command :: ControllerCommandMessage where
  "demo_command = CmdSetSingleColor \<lparr>ssc_mark = 0, ssc_r = 1, ssc_g = 2, ssc_b = 3, ssc_index = 0\<rparr>"

definition demo_stream :: "u8 list" where
  "demo_stream = concat (map (\<lambda>m. wire (encode m)) [CmdResetInstructions, demo_command, CmdStart \<lparr>sc_root_additional_repeats = 0\<rparr>])"

theorem host_program_runs_witness:
  "\<exists>cm' mb1 n' app'. serve (\<lambda>bs w. w @ bs) [demo_stream] demo_manager = Some cm' \<and> sink_mailbox (env_sink (cm_env cm')) = Some mb1
    \<and> AppTask_Loop fifo_send fifo_receive (\<lambda>d t. d # t) (\<lambda>k. 2 ^ k) (\<lambda>n. 100) 0 4 mb1 demo_app = Some (True, n', [], app')
    \<and> c_instruction_count (app_controller app') = 1"
proof -
  have "reachable fifo_send (app_controller demo_app)" by (simp add: demo_app_def reachable_demo)
  moreover have "(4 :: u32) AND kCommandEventMask (\<lambda>k. 2 ^ k) \<noteq> 0" "(4 :: u32) AND kTimeoutEventMask (\<lambda>k. 2 ^ k) = 0"
    by (simp_all add: kCommandEventMask_def kTimeoutEventMask_def)
  moreover have "map command_instruction [demo_command] = map Some [instr 0 0 (SetSingleColor (rgb 1 2 3) 0)]"
      "length [instr 0 0 (SetSingleColor (rgb 1 2 3) 0)] \<le> kMaxInstructions"
    by (simp_all add: demo_command_def kMaxInstructions_def)
  moreover have "concat [demo_stream] = concat (map (\<lambda>m. wire (encode m)) (CmdResetInstructions # [demo_command] @ [CmdStart \<lparr>sc_root_additional_repeats = 0\<rparr>]))"
    by (simp add: demo_stream_def)
  moreover have "\<forall>mb m. length mb < 32 \<longrightarrow> fst (list_send mb m) = STATUS_OK" by (simp add: list_send_def)
  ultimately show ?thesis
    using host_program_runs [OF demo_port_laws demo_manager_facts(1-4) list_mailbox_laws _ demo_manager_facts(5), of fifo_send demo_app 4
        "\<lambda>k. 2 ^ k" "[demo_command]" "[instr 0 0 (SetSingleColor (rgb 1 2 3) 0)]" "[demo_stream]"
        "\<lparr>sc_root_additional_repeats = 0\<rparr>" "\<lambda>d t. d # t" "\<lambda>n. 100" 0]
    by (auto simp: Let_def simp del: serve.simps)
qed

text \<open>
  C2. A finite program sent by the host plays to its end without it. When the program is valid and
  nothing in it repeats forever, then after the iteration that dispatched the commands the APP task
  needs nothing but its one-shot timer: running its loop each time the timer fires, up to 2 ^ 30 ms
  late and whatever the other task does with the frames in between, completes the program after
  finitely many iterations, and it remains completed.
\<close>

theorem host_program_completes:
  assumes "serial_laws ops rx" "arrives arrive rx" "cm_inv ops msend cm"
    and "env_command_port (cm_env cm) \<noteq> None" "rx_pending rx (cm_env cm) = []" "p_state (cm_protocol cm) = kWaitingForSync"
    and "mailbox_laws msend receive pending" "\<forall>mb m. length (pending mb) < 32 \<longrightarrow> fst (msend mb m) = STATUS_OK"
    and "env_sink (cm_env cm) = \<lparr>sink_mailbox = Some mb\<rparr>" "pending mb = []"
    and "reachable send (app_controller app)"
    and "events AND kCommandEventMask ue \<noteq> 0" "events AND kTimeoutEventMask ue = 0"
    and "map command_instruction commands = map Some instructions" "length instructions \<le> kMaxInstructions"
    and "concat pieces = concat (map (\<lambda>m. wire (encode m)) (CmdResetInstructions # commands @ [CmdStart p]))"
    and "timer_laws timer_start fires expire"
    and "kTimeoutEventMask ue AND kCommandEventMask ue = 0" "kTimeoutEventMask ue \<noteq> 0"
    and "c_get_timestamp (app_controller app)" "c_schedule_next_run (app_controller app)"
    and "valid_program (program_slots (c_strip (app_controller app)) instructions) (length instructions) (sc_root_additional_repeats p)"
    and "sc_root_additional_repeats p \<noteq> kForeverLoopCount"
    and "\<forall>i\<in>set instructions. body_AdditionalRepeats (i_body i) \<noteq> kForeverLoopCount"
    and "\<forall>k. unat (fst (env k)) < 2 ^ 30"
  shows "\<exists>cm' mb1 n' mb2 app'. serve arrive pieces cm = Some cm' \<and> sink_mailbox (env_sink (cm_env cm')) = Some mb1
    \<and> AppTask_Loop send receive timer_start ue clock n events mb1 app = Some (True, n', mb2, app')
    \<and> (\<exists>k. \<forall>m\<ge>k. \<exists>app2. app_play send receive timer_start fires expire ue (map env [0..<m]) (clock (n' - 1)) mb2 app' = Some app2
          \<and> c_state (app_controller app2) = kCompleted)"
proof -
  let ?slots = "program_slots (c_strip (app_controller app)) instructions"
  obtain cm' mb1 where q: "serve arrive pieces cm = Some cm'" "sink_mailbox (env_sink (cm_env cm')) = Some mb1"
      "pending mb1 = CmdResetInstructions # commands @ [CmdStart p]" "length commands = length instructions"
    using host_program_queued [OF assms(1-10,14-16)] by blast
  obtain result delays c2 where d: "dispatch_all send clock n (pending mb1) (app_controller app) = Some (result, delays, c2)"
    and st: "\<exists>c0 c1 st sched shown. reachable send c0 \<and> c_state c0 = kEditable \<and> c_instructions c0 = ?slots \<and> c_instruction_count c0 = length instructions
          \<and> c_get_timestamp c0 = c_get_timestamp (app_controller app) \<and> c_schedule_next_run c0 = c_schedule_next_run (app_controller app)
          \<and> Start (clock (n + 2 + 2 * length instructions)) (sc_root_additional_repeats p) c0 = (kSuccess, c1)
          \<and> Run send (clock (n + 2 + 2 * length instructions + 1)) c1 = Some (st, sched, shown, c2)
          \<and> delays = (case sched of None \<Rightarrow> [] | Some d \<Rightarrow> [d])"
    using dispatch_program [OF assms(11,15,14), of clock n p] assms(22) unfolding q(3) by blast
  from st obtain c0 c1 status sched shown where
    c0: "reachable send c0" "c_state c0 = kEditable" "c_instructions c0 = ?slots" "c_instruction_count c0 = length instructions"
      "c_get_timestamp c0" "c_schedule_next_run c0"
    and start: "Start (clock (n + 2 + 2 * length instructions)) (sc_root_additional_repeats p) c0 = (kSuccess, c1)"
    and run: "Run send (clock (n + 2 + 2 * length instructions + 1)) c1 = Some (status, sched, shown, c2)"
    and delays: "delays = (case sched of None \<Rightarrow> [] | Some d \<Rightarrow> [d])"
    using assms(20,21) by auto
  obtain mb2 where loop: "AppTask_Loop send receive timer_start ue clock n events mb1 app = Some (True, n + 2 * length (pending mb1), mb2,
      app\<lparr>app_controller := c2, app_run_timer := fold timer_start delays (app_run_timer app)\<rparr>)"
    using Loop_dispatches [OF assms(7,11-13), of clock n mb1 timer_start] d by auto
  have "\<forall>i<length instructions. GetAdditionalRepeats (?slots ! i) \<noteq> kForeverLoopCount"
    using assms(24) by (simp add: program_slots_def nth_append GetAdditionalRepeats_def)
  then have "completes send receive timer_start fires expire ue env (clock (n + 2 + 2 * length instructions + 1)) mb2
      (app\<lparr>app_controller := c2, app_run_timer := fold timer_start delays (app_run_timer app)\<rparr>)"
    using c0 assms(22) delays
    by (intro started_completes [OF assms(18,19,17) c0(1) _ c0(5,6) _ assms(23) _ assms(25) start run]) simp_all
  moreover have "n + 2 * length (pending mb1) - 1 = n + 2 + 2 * length instructions + 1" by (simp add: q(3,4))
  ultimately show ?thesis using q(1,2) loop unfolding completes_def by metis
qed

theorem host_program_completes_witness:
  "\<exists>cm' mb1 n' mb2 app' k app2. serve (\<lambda>bs w. w @ bs) [demo_stream] demo_manager = Some cm' \<and> sink_mailbox (env_sink (cm_env cm')) = Some mb1
    \<and> AppTask_Loop fifo_send fifo_receive (\<lambda>d t. [d]) (\<lambda>k. 2 ^ k) (\<lambda>n. 100) 0 4 mb1 demo_app = Some (True, n', mb2, app')
    \<and> app_play fifo_send fifo_receive (\<lambda>d t. [d]) (\<lambda>t. case t of [] \<Rightarrow> None | d # ds \<Rightarrow> Some d) (\<lambda>t. []) (\<lambda>k. 2 ^ k)
        (map (\<lambda>k. (5, [])) [0..<k]) 100 mb2 app' = Some app2
    \<and> c_state (app_controller app2) = kCompleted"
proof -
  let ?i = "instr 0 0 (SetSingleColor (rgb 1 2 3) 0)" and ?fires = "\<lambda>t. case t of [] \<Rightarrow> None | d # ds \<Rightarrow> Some (d :: u32)"
  have reach: "reachable fifo_send (app_controller demo_app)" by (simp add: demo_app_def reachable_demo)
  have ev: "(4 :: u32) AND kCommandEventMask (\<lambda>k. 2 ^ k) \<noteq> 0" "(4 :: u32) AND kTimeoutEventMask (\<lambda>k. 2 ^ k) = 0"
    "kTimeoutEventMask (\<lambda>k. 2 ^ k) AND kCommandEventMask (\<lambda>k. 2 ^ k) = 0" "kTimeoutEventMask (\<lambda>k. 2 ^ k) \<noteq> 0"
    by (simp_all add: kCommandEventMask_def kTimeoutEventMask_def)
  have ins: "map command_instruction [demo_command] = map Some [?i]" "length [?i] \<le> kMaxInstructions"
    "\<forall>i\<in>set [?i]. body_AdditionalRepeats (i_body i) \<noteq> kForeverLoopCount"
    by (simp_all add: demo_command_def kMaxInstructions_def instr_def kForeverLoopCount_def)
  have bytes: "concat [demo_stream] = concat (map (\<lambda>m. wire (encode m)) (CmdResetInstructions # [demo_command] @ [CmdStart \<lparr>sc_root_additional_repeats = 0\<rparr>]))"
    by (simp add: demo_stream_def)
  have room: "\<forall>mb m. length mb < 32 \<longrightarrow> fst (list_send mb m) = STATUS_OK" by (simp add: list_send_def)
  have tm: "timer_laws (\<lambda>d t. [d]) ?fires (\<lambda>t. [])" by (simp add: timer_laws_def)
  have cb: "c_get_timestamp (app_controller demo_app)" "c_schedule_next_run (app_controller demo_app)" "c_strip (app_controller demo_app)"
    by code_simp+
  have "still_program (program_slots True [?i]) 1"
    by (simp add: still_program_def program_slots_def color_slot_def instr_def GetGroupId_def)
  then have v: "valid_program (program_slots (c_strip (app_controller demo_app)) [?i]) (length [?i])
      (sc_root_additional_repeats \<lparr>sc_root_additional_repeats = 0\<rparr>)"
    using cb(3) still_program_valid by simp
  have z: "sc_root_additional_repeats \<lparr>sc_root_additional_repeats = 0\<rparr> \<noteq> kForeverLoopCount" by (simp add: kForeverLoopCount_def)
  have late: "\<forall>k. unat (fst ((\<lambda>k. (5 :: u32, [] :: SharedFrame list)) (k :: nat))) < 2 ^ 30" by simp
  from host_program_completes [OF demo_port_laws demo_manager_facts(1-4) list_mailbox_laws room demo_manager_facts(5) _ reach ev(1,2) ins(1,2)
      bytes tm ev(3,4) cb(1,2) v z ins(3) late, of "\<lambda>n. 100" 0]
  show ?thesis by blast
qed

section \<open>From power-up to the pixels\<close>

text \<open>
  C6. After power-up the rainbow is on the board. When Initialize succeeds, the setup of the app_hw
  task succeeds on the fresh strip manager and then the setup of the APP task runs, the next
  iteration of the app_hw loop that sees the frame event shows on the board's pixels the seven
  colors, as many as the board has pixels for; the controller has completed its default program
  and no timer is running.
\<close>

theorem startup_shows_rainbow:
  assumes "Initialize board stack k False hw = (STATUS_OK, initialized, hw1)"
    and "cm_protocol (hw_command_manager hw) = Protocol_init (command_config (bd_port board))"
    and "HwTask_Setup board csend (StripManager_init mb) hw1 = (True, strip, hw2)"
    and "0 < ws_LedCount (bd_ws board) (hw_board_strip hw)"
    and "app_controller app = Controller_init device"
    and "serial_laws (bd_port board) rx" "backend_laws (bd_ws board) pixel shown" "\<forall>l. 0 \<le> fst (bd_toggle board l)"
    and "mailbox_laws fsend freceive frames" "frames mb = []" "\<forall>f. fst (fsend mb f) = STATUS_OK"
    and "events AND kFrameEventMask board \<noteq> 0"
  shows "\<exists>app' strip' hw'. AppTask_Setup fsend timer_start clock STATUS_OK strip cmailbox sink app = Some (True, \<lparr>sink_mailbox = Some cmailbox\<rparr>, app')
    \<and> HwTask_Loop board freceive events (c_device (app_controller app')) hw2 = Some (True, strip', hw')
    \<and> (\<forall>i < min 7 (ws_LedCount (bd_ws board) (hw_board_strip hw)). shown (hw_board_strip hw') i = kRainbowColors ! i)
    \<and> c_state (app_controller app') = kCompleted \<and> app_run_timer app' = app_run_timer app"
proof -
  let ?n = "ws_LedCount (bd_ws board) (hw_board_strip hw)"
  have keep: "hw_command_manager hw1 = hw_command_manager hw" "hw_board_strip hw1 = hw_board_strip hw"
    using Initialize_keeps [OF assms(1)] by simp_all
  have "?n \<le> kSharedFrameCapacity"
    using assms(1) by (auto simp: Initialize_def split: if_splits prod.splits)
  then have su: "strip_inv strip" "strip_led_count strip = ?n" "cm_inv (bd_port board) csend (hw_command_manager hw2)"
      "sl_led (hw_status_led hw2)" "hw_board_strip hw2 = hw_board_strip hw" "strip_mailbox strip = mb"
    using HwTask_Setup_ok [of hw1 board "StripManager_init mb" csend] assms(2,3) keep strip_inv_init [of mb]
    by (auto simp: StripManager_init_def)
  obtain app' picture where app: "AppTask_Setup fsend timer_start clock STATUS_OK strip cmailbox sink app = Some (True, \<lparr>sink_mailbox = Some cmailbox\<rparr>, app')"
      "c_state (app_controller app') = kCompleted" "app_run_timer app' = app_run_timer app"
      "c_device (app_controller app') = snd (Show fsend picture)" "strip_inv picture" "strip_ready picture"
      "strip_mailbox picture = mb" "strip_led_count picture = ?n"
      "\<forall>i < ?n. LedColor picture i = (if i < 7 then kRainbowColors ! i else LedColor strip i)"
    using Setup_rainbow [of STATUS_OK strip app device fsend timer_start clock cmailbox sink] su assms(4,5) by auto
  let ?f = "(staged_frame picture)\<lparr>frame_led_count := ?n\<rparr>"
  have "frames (snd (fsend mb ?f)) = [?f]" using assms(9-11) by (simp add: mailbox_laws_def)
  then have fr: "frames (strip_mailbox (snd (Show fsend picture))) = [?f]"
    using app(6-8) by (simp add: Show_def Let_def case_prod_unfold)
  then have "\<forall>f\<in>set (frames (strip_mailbox (snd (Show fsend picture)))). frame_led_count f \<le> ws_LedCount (bd_ws board) (hw_board_strip hw2)"
    by (simp add: su(5))
  from HwTask_Loop_ok [OF assms(6) su(3) assms(9,7) this su(4) assms(8), of events] assms(12) fr
  obtain strip' hw' where "HwTask_Loop board freceive events (snd (Show fsend picture)) hw2 = Some (True, strip', hw')"
      "\<forall>i<?n. shown (hw_board_strip hw') i = frame_colors (staged_frame picture) ! i" by auto
  moreover have "\<forall>i < ?n. frame_colors (staged_frame picture) ! i = LedColor picture i" using app(8) by (simp add: LedColor_def)
  ultimately show ?thesis using app by auto
qed

theorem startup_shows_rainbow_witness:
  "\<exists>hw1 strip hw2 app' strip' hw'.
    Initialize demo_board (Some 4096) 1024 False (demo_hw\<lparr>hw_command_manager := CommandManager_init demo_port\<rparr>) = (STATUS_OK, True, hw1)
    \<and> HwTask_Setup demo_board list_send (StripManager_init ([] :: SharedFrame list)) hw1 = (True, strip, hw2)
    \<and> AppTask_Setup fifo_send (\<lambda>d t. d # t) (\<lambda>n. 100) STATUS_OK strip [] \<lparr>sink_mailbox = None\<rparr>
        (demo_app\<lparr>app_controller := Controller_init (StripManager_init [])\<rparr>) = Some (True, \<lparr>sink_mailbox = Some ([] :: ControllerCommandMessage list)\<rparr>, app')
    \<and> HwTask_Loop demo_board fifo_receive 1 (c_device (app_controller app')) hw2 = Some (True, strip', hw')
    \<and> snd (hw_board_strip hw') 6 = rgb 140 0 255"
proof -
  let ?hw = "demo_hw\<lparr>hw_command_manager := CommandManager_init demo_port\<rparr>"
  obtain st i hw1 where "Initialize demo_board (Some 4096) 1024 False ?hw = (st, i, hw1)" by (metis prod_cases3)
  then have init: "Initialize demo_board (Some 4096) 1024 False ?hw = (STATUS_OK, True, hw1)"
    by (auto simp: Initialize_def demo_board_def demo_hw_def StartHwExecutor_def HwTask_Start_def kSharedFrameCapacity_def plain_ops_def)
  have p: "cm_protocol (hw_command_manager ?hw) = Protocol_init (command_config (bd_port demo_board))" by (simp add: CommandManager_init_def)
  have "0 \<le> fst (dp_Printf (bd_debug demo_board) (banner demo_board) (bd_debug_port demo_board))" by (simp add: demo_board_def)
  then obtain strip hw2 where su: "HwTask_Setup demo_board list_send (StripManager_init ([] :: SharedFrame list)) hw1 = (True, strip, hw2)"
    using HwTask_Setup_ok [of hw1 demo_board "StripManager_init ([] :: SharedFrame list)" list_send] Initialize_keeps [OF init] p strip_inv_init [of "[] :: SharedFrame list"]
    by (auto simp: kSharedFrameCapacity_def)
  have "(1 :: u32) AND kFrameEventMask demo_board \<noteq> 0" by (simp add: kFrameEventMask_def demo_board_def)
  then show ?thesis
    using startup_shows_rainbow [OF init p su, of "demo_app\<lparr>app_controller := Controller_init (StripManager_init [])\<rparr>"
        "StripManager_init []" "\<lambda>w. w" fst snd fifo_send fifo_receive "\<lambda>mb. mb" 1 "\<lambda>d t. d # t" "\<lambda>n. 100" "[]" "\<lparr>sink_mailbox = None\<rparr>"]
      init su demo_port_laws(1) plain_backend_laws [of 7] fifo_mailbox_laws
    by (auto simp: fifo_send_def kRainbowColors_def)
qed

end
